(* ===== verification/Dry_Prelude.thy ===== *)
theory Dry_Prelude
  imports Main "HOL-Library.Word"
begin

unbundle bit_operations_syntax

text \<open>
  The prelude of the development: names for the machine integers of the C sources, the flat
  byte-addressed memory with its two block operations (what \<^verbatim>\<open>memmove\<close> and a dereferenced
  \<^verbatim>\<open>uint64_t *\<close> do), little-endian encoding, bounded host buffers, and the sequencing operator
  \<open>bindR\<close> for code that can stop the process.  The collections \<open>dry_run\<close> and \<open>dry_mem\<close> gather
  the rewrite rules that the component theories share.
\<close>

named_theorems dry_run \<open>rules that execute the sequencing operator\<close>
named_theorems dry_mem \<open>rules on block reads and writes\<close>

type_synonym u8 = "8 word"
type_synonym u16 = "16 word"
type_synonym u32 = "32 word"
type_synonym u64 = "64 word"
type_synonym i32 = "32 word"
type_synonym memory = "u64 \<Rightarrow> u8"

section \<open>Runs that may stop the process\<close>

text \<open>
  A function that can end the process returns \<open>Inl (why, state)\<close> when it does and
  \<open>Inr (value, state)\<close> when it returns to its caller.
\<close>

definition bindR :: "('h \<times> 's) + ('a \<times> 's) \<Rightarrow> ('a \<Rightarrow> 's \<Rightarrow> ('h \<times> 's) + ('b \<times> 's)) \<Rightarrow> ('h \<times> 's) + ('b \<times> 's)" where
  "bindR r f = (case r of Inl e \<Rightarrow> Inl e | Inr (x, s) \<Rightarrow> f x s)"

definition retR :: "'a \<Rightarrow> 's \<Rightarrow> ('h \<times> 's) + ('a \<times> 's)" where
  "retR x s = Inr (x, s)"

definition haltR :: "'h \<Rightarrow> 's \<Rightarrow> ('h \<times> 's) + ('a \<times> 's)" where
  "haltR h s = Inl (h, s)"

lemma bindR_Inr [simp, dry_run]: "bindR (Inr (x, s)) f = f x s"
  by (simp add: bindR_def)

lemma bindR_Inl [simp, dry_run]: "bindR (Inl e) f = Inl e"
  by (simp add: bindR_def)

lemma bindR_retR [simp, dry_run]: "bindR (retR x s) f = f x s"
  by (simp add: retR_def)

lemma bindR_haltR [simp, dry_run]: "bindR (haltR h s) f = haltR h s"
  by (simp add: haltR_def)

lemma retR_eq_Inr [simp, dry_run]: "retR x s = Inr (y, t) \<longleftrightarrow> x = y \<and> s = t"
  by (simp add: retR_def)

lemma haltR_eq_Inr [simp, dry_run]: "haltR h s \<noteq> Inr y"
  by (simp add: haltR_def)

lemma bindR_eq_Inr:
  "bindR r f = Inr y \<longleftrightarrow> (\<exists>x s. r = Inr (x, s) \<and> f x s = Inr y)"
  by (auto simp: bindR_def split: sum.splits)

lemma bindR_InrE:
  assumes "bindR r f = Inr y"
  obtains x s where "r = Inr (x, s)" "f x s = Inr y"
  using assms by (auto simp: bindR_eq_Inr)

lemma bindR_assoc: "bindR (bindR r f) g = bindR r (\<lambda>x s. bindR (f x s) g)"
  by (auto simp: bindR_def split: sum.splits)

section \<open>Block reads and writes\<close>

definition read_bytes :: "memory \<Rightarrow> u64 \<Rightarrow> nat \<Rightarrow> u8 list" where
  "read_bytes m a n = map (\<lambda>i. m (a + of_nat i)) [0..<n]"

definition write_bytes :: "memory \<Rightarrow> u64 \<Rightarrow> u8 list \<Rightarrow> memory" where
  "write_bytes m a bs = (\<lambda>x. if unat (x - a) < length bs then bs ! unat (x - a) else m x)"

lemma length_read_bytes [simp, dry_mem]: "length (read_bytes m a n) = n"
  by (simp add: read_bytes_def)

lemma nth_read_bytes [simp, dry_mem]: "i < n \<Longrightarrow> read_bytes m a n ! i = m (a + of_nat i)"
  by (simp add: read_bytes_def)

lemma read_bytes_0 [simp, dry_mem]: "read_bytes m a 0 = []"
  by (simp add: read_bytes_def)

lemma write_bytes_Nil [simp, dry_mem]: "write_bytes m a [] = m"
  by (simp add: write_bytes_def)

lemma unat_of_nat_64: "n < 2 ^ 64 \<Longrightarrow> unat (of_nat n :: u64) = n"
  by (simp add: unat_of_nat take_bit_nat_eq_self)

lemma read_bytes_append:
  "read_bytes m a (j + k) = read_bytes m a j @ read_bytes m (a + of_nat j) k"
proof (rule nth_equalityI)
  fix i assume "i < length (read_bytes m a (j + k))"
  then show "read_bytes m a (j + k) ! i
      = (read_bytes m a j @ read_bytes m (a + of_nat j) k) ! i"
    by (auto simp: nth_append of_nat_diff algebra_simps)
qed simp

lemma take_read_bytes [dry_mem]: "j \<le> n \<Longrightarrow> take j (read_bytes m a n) = read_bytes m a j"
  by (auto intro: nth_equalityI)

lemma drop_read_bytes [dry_mem]:
  "j \<le> n \<Longrightarrow> drop j (read_bytes m a n) = read_bytes m (a + of_nat j) (n - j)"
  by (rule nth_equalityI) (auto simp: algebra_simps)

lemma read_write_same [dry_mem]:
  assumes "length bs < 2 ^ 64"
  shows "read_bytes (write_bytes m a bs) a (length bs) = bs"
proof (rule nth_equalityI)
  fix i assume "i < length (read_bytes (write_bytes m a bs) a (length bs))"
  then show "read_bytes (write_bytes m a bs) a (length bs) ! i = bs ! i"
    using assms by (simp add: write_bytes_def unat_of_nat_64)
qed simp

lemma write_read_same [dry_mem]: "write_bytes m a (read_bytes m a n) = m"
  by (rule ext) (simp add: write_bytes_def)

lemma write_write_same [dry_mem]:
  "length bs = length cs \<Longrightarrow> write_bytes (write_bytes m a bs) a cs = write_bytes m a cs"
  by (rule ext) (simp add: write_bytes_def)

lemma write_bytes_outside [dry_mem]:
  "length bs \<le> unat (x - a) \<Longrightarrow> write_bytes m a bs x = m x"
  by (simp add: write_bytes_def)

lemma write_bytes_append:
  assumes "length bs + length cs < 2 ^ 64"
  shows "write_bytes m a (bs @ cs) = write_bytes (write_bytes m a bs) (a + of_nat (length bs)) cs"
proof (rule ext)
  fix x
  let ?d = "unat (x - a)" and ?k = "length bs"
  have k: "unat (of_nat ?k :: u64) = ?k" using assms by (simp add: unat_of_nat_64)
  have split: "x - (a + of_nat ?k) = (x - a) - of_nat ?k" by (simp add: algebra_simps)
  show "write_bytes m a (bs @ cs) x = write_bytes (write_bytes m a bs) (a + of_nat ?k) cs x"
  proof (cases "?k \<le> ?d")
    case True
    then have "unat (x - (a + of_nat ?k)) = ?d - ?k"
      unfolding split by (simp add: unat_sub word_le_nat_alt k)
    with True show ?thesis
      by (auto simp: write_bytes_def nth_append)
  next
    case False
    then have "unat (x - (a + of_nat ?k)) = 2 ^ 64 + ?d - ?k"
      unfolding split by (simp add: unat_sub_if' k)
    with False assms show ?thesis
      by (auto simp: write_bytes_def nth_append)
  qed
qed

section \<open>Little-endian words\<close>

definition le_bytes :: "nat \<Rightarrow> u64 \<Rightarrow> u8 list" where
  "le_bytes n v = map (\<lambda>i. ucast (drop_bit (8 * i) v)) [0..<n]"

fun le_val :: "u8 list \<Rightarrow> u64" where
  "le_val [] = 0"
| "le_val (b # bs) = ucast b OR push_bit 8 (le_val bs)"

definition read64 :: "memory \<Rightarrow> u64 \<Rightarrow> u64" where
  "read64 m a = le_val (read_bytes m a 8)"

definition write64 :: "memory \<Rightarrow> u64 \<Rightarrow> u64 \<Rightarrow> memory" where
  "write64 m a v = write_bytes m a (le_bytes 8 v)"

lemma length_le_bytes [simp]: "length (le_bytes n v) = n"
  by (simp add: le_bytes_def)

lemma le_bytes_Suc: "le_bytes (Suc n) v = ucast v # le_bytes n (drop_bit 8 v)"
  by (simp add: le_bytes_def upt_conv_Cons map_Suc_upt [symmetric] add.commute del: upt_Suc)

lemma le_val_le_bytes: "le_val (le_bytes n v) = take_bit (8 * n) v"
proof (induction n arbitrary: v)
  case 0
  then show ?case by (simp add: le_bytes_def)
next
  case (Suc n)
  show ?case
    unfolding le_bytes_Suc le_val.simps Suc.IH
    by (rule bit_word_eqI) (auto simp: bit_simps)
qed

lemma le_val_le_bytes_8 [simp]: "le_val (le_bytes 8 v) = v"
proof -
  have "take_bit 64 v = v" by (rule bit_word_eqI) (auto simp: bit_simps)
  then show ?thesis by (simp add: le_val_le_bytes)
qed

lemma read64_write64_same [simp]: "read64 (write64 m a v) a = v"
  using read_write_same [of "le_bytes 8 v" m a] by (simp add: read64_def write64_def)

lemma read64_cong: "(\<And>i. i < 8 \<Longrightarrow> m (a + of_nat i) = m' (a + of_nat i)) \<Longrightarrow> read64 m a = read64 m' a"
  by (auto simp: read64_def read_bytes_def intro!: arg_cong [where f = le_val])

section \<open>Host buffers\<close>

text \<open>
  A host buffer is a byte list of fixed length.  Storing outside its bounds is a buffer overrun,
  the value \<open>None\<close>.
\<close>

definition buf_put :: "u8 list \<Rightarrow> nat \<Rightarrow> u8 list \<Rightarrow> u8 list option" where
  "buf_put buf off bs =
     (if off + length bs \<le> length buf
      then Some (take off buf @ bs @ drop (off + length bs) buf) else None)"

lemma buf_put_Some:
  "off + length bs \<le> length buf \<Longrightarrow>
     buf_put buf off bs = Some (take off buf @ bs @ drop (off + length bs) buf)"
  by (simp add: buf_put_def)

lemma buf_put_length: "buf_put buf off bs = Some buf' \<Longrightarrow> length buf' = length buf"
  by (auto simp: buf_put_def split: if_splits)

end
