(* ===== verification/Dry_Types.thy ===== *)
theory Dry_Types
  imports Dry_Prelude
begin

unbundle bit_operations_syntax

text \<open>
  The declarations of \<^verbatim>\<open>include/dryadalis_x86.h\<close>: constants and page macros, the structures, and
  the state in which the engine runs.  The operating system is not code of the repository; it
  is the parameter \<open>K\<close> of type \<open>kernel\<close>: for the list of kernel calls made so far, a call and
  the current memory it gives the raw result, the value it stores through a host pointer (only
  \<^verbatim>\<open>arch_prctl(ARCH_GET_..)\<close> does) and the memory after the call.  Every call is appended to
  \<open>ktrace\<close>, so the order of calls is part of what the theorems speak about.
\<close>

section \<open>Constants and page macros\<close>

definition PAGE_SZ :: u64 where [simp]: "PAGE_SZ = 0x1000"
definition INSTRUCTION_MAX_SZ :: nat where [simp]: "INSTRUCTION_MAX_SZ = 16"
definition STACK_SZ :: u64 where [simp]: "STACK_SZ = 0x50000"
definition STUB_ADDR_DUMP :: u64 where [simp]: "STUB_ADDR_DUMP = 0xff1d000"
definition STUB_ADDR_RESTORE :: u64 where [simp]: "STUB_ADDR_RESTORE = 0xdf1d000"
definition LENGTH_STUB :: u64 where [simp]: "LENGTH_STUB = 0x1000"

text \<open>The flag bits of \<^verbatim>\<open>eflags\<close>.\<close>

definition CF :: u64 where [simp]: "CF = 0x1"
definition PF :: u64 where [simp]: "PF = 0x4"
definition AF :: u64 where [simp]: "AF = 0x10"
definition ZF :: u64 where [simp]: "ZF = 0x40"
definition SF :: u64 where [simp]: "SF = 0x80"
definition TF :: u64 where [simp]: "TF = 0x100"
definition IF :: u64 where [simp]: "IF = 0x200"
definition DF :: u64 where [simp]: "DF = 0x400"
definition OF :: u64 where [simp]: "OF = 0x800"

text \<open>
  \<^verbatim>\<open>~0xfff\<close> is the \<^verbatim>\<open>int\<close> \<open>-4096\<close>, sign-extended to 64 bits in the conjunction.
\<close>

definition PAGE_ALIGN :: "u64 \<Rightarrow> u64" where
  "PAGE_ALIGN x = x AND NOT 0xfff"

definition PAGE_ROUND :: "u64 \<Rightarrow> u64" where
  "PAGE_ROUND x = PAGE_ALIGN x + 0xfff"

definition PAGE_OFFT :: "u64 \<Rightarrow> u64" where
  "PAGE_OFFT x = x AND 0xfff"

text \<open>Values of the C library's headers that the sources name.\<close>

definition PROT_READ :: i32 where [simp]: "PROT_READ = 1"
definition PROT_WRITE :: i32 where [simp]: "PROT_WRITE = 2"
definition PROT_EXEC :: i32 where [simp]: "PROT_EXEC = 4"
definition MAP_PRIVATE :: i32 where [simp]: "MAP_PRIVATE = 0x2"
definition MAP_FIXED :: i32 where [simp]: "MAP_FIXED = 0x10"
definition MAP_ANONYMOUS :: i32 where [simp]: "MAP_ANONYMOUS = 0x20"
definition MAP_GROWSDOWN :: i32 where [simp]: "MAP_GROWSDOWN = 0x100"
definition MAP_STACK :: i32 where [simp]: "MAP_STACK = 0x20000"
definition NR_arch_prctl :: nat where [simp]: "NR_arch_prctl = 158"
definition NR_exit :: nat where [simp]: "NR_exit = 60"
definition ARCH_SET_GS :: u64 where [simp]: "ARCH_SET_GS = 0x1001"
definition ARCH_SET_FS :: u64 where [simp]: "ARCH_SET_FS = 0x1002"
definition ARCH_GET_FS :: u64 where [simp]: "ARCH_GET_FS = 0x1003"
definition ARCH_GET_GS :: u64 where [simp]: "ARCH_GET_GS = 0x1004"

lemma PAGE_OFFT_eq_take_bit: "PAGE_OFFT x = take_bit 12 x"
  by (simp add: PAGE_OFFT_def take_bit_eq_mask mask_eq_exp_minus_1)

lemma unat_PAGE_OFFT: "unat (PAGE_OFFT x) = unat x mod 4096"
  by (simp add: PAGE_OFFT_eq_take_bit take_bit_eq_mod unat_mod)

lemma PAGE_ALIGN_add_OFFT: "PAGE_ALIGN x + PAGE_OFFT x = x"
proof -
  have "PAGE_ALIGN x + PAGE_OFFT x = PAGE_ALIGN x OR PAGE_OFFT x"
    by (rule disjunctive_add) (auto simp: PAGE_ALIGN_def PAGE_OFFT_def bit_simps)
  also have "\<dots> = x"
    by (rule bit_word_eqI) (auto simp: PAGE_ALIGN_def PAGE_OFFT_def bit_simps)
  finally show ?thesis .
qed

lemma PAGE_ALIGN_eq: "PAGE_ALIGN x = x - PAGE_OFFT x"
  using PAGE_ALIGN_add_OFFT [of x] by (metis add_diff_cancel_right')

lemma unat_PAGE_ALIGN: "unat (PAGE_ALIGN x) = unat x - unat x mod 4096"
proof -
  have "PAGE_OFFT x \<le> x" by (simp add: word_le_nat_alt unat_PAGE_OFFT)
  then show ?thesis by (simp add: PAGE_ALIGN_eq unat_sub unat_PAGE_OFFT)
qed

lemma PAGE_OFFT_less: "unat (PAGE_OFFT x) < 4096"
  by (simp add: unat_PAGE_OFFT)

lemma PAGE_ALIGN_idem [simp]: "PAGE_ALIGN (PAGE_ALIGN x) = PAGE_ALIGN x"
  by (rule bit_word_eqI) (auto simp: PAGE_ALIGN_def bit_simps)

lemma PAGE_OFFT_ALIGN [simp]: "PAGE_OFFT (PAGE_ALIGN x) = 0"
  by (rule bit_word_eqI) (auto simp: PAGE_ALIGN_def PAGE_OFFT_def bit_simps)

section \<open>The structures\<close>

type_synonym sse_t = "nat \<Rightarrow> 128 word"
type_synonym avx2_t = "nat \<Rightarrow> 256 word"
type_synonym avx512_t = "nat \<Rightarrow> 512 word"

record state_rtime_t =
  rax :: u64
  rbx :: u64
  rcx :: u64
  rdx :: u64
  rsi :: u64
  rdi :: u64
  rbp :: u64
  rsp :: u64
  rip :: u64
  rflags :: u64
  cs :: u64
  ss :: u64
  gs :: u64
  es :: u64
  ds :: u64
  fs :: u64
  r8 :: u64
  r9 :: u64
  r10 :: u64
  r11 :: u64
  r12 :: u64
  r13 :: u64
  r14 :: u64
  r15 :: u64
  sse :: "sse_t option"
  avx2 :: "avx2_t option"
  avx512 :: "avx512_t option"
  null_entry :: u64

text \<open>
  The \<^verbatim>\<open>uint64_t\<close> members of \<^verbatim>\<open>state_rtime_t\<close> as locations: what a \<^verbatim>\<open>uint64_t *\<close> into the
  structure (an entry of the register hashmap, an operand of a stub) points to.
\<close>

datatype slot =
    S_rax | S_rbx | S_rcx | S_rdx | S_rsi | S_rdi | S_rbp | S_rsp | S_rip | S_rflags
  | S_cs | S_ss | S_gs | S_es | S_ds | S_fs
  | S_r8 | S_r9 | S_r10 | S_r11 | S_r12 | S_r13 | S_r14 | S_r15 | S_null_entry

fun get_slot :: "slot \<Rightarrow> state_rtime_t \<Rightarrow> u64" where
  "get_slot S_rax st = rax st"
| "get_slot S_rbx st = rbx st"
| "get_slot S_rcx st = rcx st"
| "get_slot S_rdx st = rdx st"
| "get_slot S_rsi st = rsi st"
| "get_slot S_rdi st = rdi st"
| "get_slot S_rbp st = rbp st"
| "get_slot S_rsp st = rsp st"
| "get_slot S_rip st = rip st"
| "get_slot S_rflags st = rflags st"
| "get_slot S_cs st = cs st"
| "get_slot S_ss st = ss st"
| "get_slot S_gs st = gs st"
| "get_slot S_es st = es st"
| "get_slot S_ds st = ds st"
| "get_slot S_fs st = fs st"
| "get_slot S_r8 st = r8 st"
| "get_slot S_r9 st = r9 st"
| "get_slot S_r10 st = r10 st"
| "get_slot S_r11 st = r11 st"
| "get_slot S_r12 st = r12 st"
| "get_slot S_r13 st = r13 st"
| "get_slot S_r14 st = r14 st"
| "get_slot S_r15 st = r15 st"
| "get_slot S_null_entry st = null_entry st"

fun set_slot :: "slot \<Rightarrow> u64 \<Rightarrow> state_rtime_t \<Rightarrow> state_rtime_t" where
  "set_slot S_rax v st = st\<lparr>rax := v\<rparr>"
| "set_slot S_rbx v st = st\<lparr>rbx := v\<rparr>"
| "set_slot S_rcx v st = st\<lparr>rcx := v\<rparr>"
| "set_slot S_rdx v st = st\<lparr>rdx := v\<rparr>"
| "set_slot S_rsi v st = st\<lparr>rsi := v\<rparr>"
| "set_slot S_rdi v st = st\<lparr>rdi := v\<rparr>"
| "set_slot S_rbp v st = st\<lparr>rbp := v\<rparr>"
| "set_slot S_rsp v st = st\<lparr>rsp := v\<rparr>"
| "set_slot S_rip v st = st\<lparr>rip := v\<rparr>"
| "set_slot S_rflags v st = st\<lparr>rflags := v\<rparr>"
| "set_slot S_cs v st = st\<lparr>cs := v\<rparr>"
| "set_slot S_ss v st = st\<lparr>ss := v\<rparr>"
| "set_slot S_gs v st = st\<lparr>gs := v\<rparr>"
| "set_slot S_es v st = st\<lparr>es := v\<rparr>"
| "set_slot S_ds v st = st\<lparr>ds := v\<rparr>"
| "set_slot S_fs v st = st\<lparr>fs := v\<rparr>"
| "set_slot S_r8 v st = st\<lparr>r8 := v\<rparr>"
| "set_slot S_r9 v st = st\<lparr>r9 := v\<rparr>"
| "set_slot S_r10 v st = st\<lparr>r10 := v\<rparr>"
| "set_slot S_r11 v st = st\<lparr>r11 := v\<rparr>"
| "set_slot S_r12 v st = st\<lparr>r12 := v\<rparr>"
| "set_slot S_r13 v st = st\<lparr>r13 := v\<rparr>"
| "set_slot S_r14 v st = st\<lparr>r14 := v\<rparr>"
| "set_slot S_r15 v st = st\<lparr>r15 := v\<rparr>"
| "set_slot S_null_entry v st = st\<lparr>null_entry := v\<rparr>"

text \<open>The register file as \<^verbatim>\<open>calloc\<close> leaves it.\<close>

definition calloc_state :: state_rtime_t where
  "calloc_state = \<lparr>rax = 0, rbx = 0, rcx = 0, rdx = 0, rsi = 0, rdi = 0, rbp = 0, rsp = 0,
     rip = 0, rflags = 0, cs = 0, ss = 0, gs = 0, es = 0, ds = 0, fs = 0, r8 = 0, r9 = 0,
     r10 = 0, r11 = 0, r12 = 0, r13 = 0, r14 = 0, r15 = 0, sse = None, avx2 = None,
     avx512 = None, null_entry = 0\<rparr>"

text \<open>
  What a client of indexed storage may rely on: a store is read back, other locations keep
  their value, and storing what is already there changes nothing.
\<close>

locale slot_store =
  fixes get :: "'k \<Rightarrow> 's \<Rightarrow> 'v"
    and put :: "'k \<Rightarrow> 'v \<Rightarrow> 's \<Rightarrow> 's"
  assumes get_put_same: "get k (put k v s) = v"
    and get_put_other: "k \<noteq> k' \<Longrightarrow> get k (put k' v s) = get k s"
    and put_get: "put k (get k s) s = s"
    and put_put: "put k v (put k w s) = put k v s"
begin

lemma get_put: "get k (put k' v s) = (if k = k' then v else get k s)"
  by (simp add: get_put_same get_put_other)

lemma put_id_iff: "put k v s = s \<longleftrightarrow> get k s = v"
  by (metis get_put_same put_get)

lemma linked_read:
  assumes "link a = link b"
  shows "get (link a) (put (link b) v s) = v"
  using assms by (simp add: get_put_same)

end

interpretation slots: slot_store get_slot set_slot
proof
  fix k k' :: slot and v w :: u64 and st :: state_rtime_t
  show "get_slot k (set_slot k v st) = v" by (cases k) simp_all
  show "get_slot k (set_slot k' v st) = get_slot k st" if "k \<noteq> k'"
    using that by (cases k'; cases k) simp_all
  show "set_slot k (get_slot k st) st = st" by (cases k) simp_all
  show "set_slot k v (set_slot k w st) = set_slot k v st" by (cases k) simp_all
qed

record hook_t =
  code :: "u8 list"
  orig_bytes :: "u8 list"
  hlength :: u64
  jmp :: u64
  to_unmap :: u64
  prot_restore :: i32

definition calloc_hook :: hook_t where
  "calloc_hook = \<lparr>code = [], orig_bytes = replicate 64 0, hlength = 0, jmp = 0, to_unmap = 0,
     prot_restore = 0\<rparr>"

text \<open>
  Capstone's names for registers.  Numbered families (\<^verbatim>\<open>X86_REG_XMM3\<close>, \<^verbatim>\<open>X86_REG_R10D\<close>) are
  constructors with the number as argument.
\<close>

datatype (plugins only: code) x86_reg =
    X86_REG_INVALID
  | X86_REG_AH | X86_REG_AL | X86_REG_AX | X86_REG_BH | X86_REG_BL
  | X86_REG_BP | X86_REG_BPL | X86_REG_BX | X86_REG_CH | X86_REG_CL
  | X86_REG_CS | X86_REG_CX | X86_REG_DH | X86_REG_DI | X86_REG_DIL
  | X86_REG_DL | X86_REG_DS | X86_REG_DX | X86_REG_EAX | X86_REG_EBP
  | X86_REG_EBX | X86_REG_ECX | X86_REG_EDI | X86_REG_EDX | X86_REG_EFLAGS
  | X86_REG_EIP | X86_REG_EIZ | X86_REG_ES | X86_REG_ESI | X86_REG_ESP
  | X86_REG_FPSW | X86_REG_FS | X86_REG_GS | X86_REG_IP | X86_REG_RAX
  | X86_REG_RBP | X86_REG_RBX | X86_REG_RCX | X86_REG_RDI | X86_REG_RDX
  | X86_REG_RIP | X86_REG_RIZ | X86_REG_RSI | X86_REG_RSP | X86_REG_SI
  | X86_REG_SIL | X86_REG_SP | X86_REG_SPL | X86_REG_SS
  | X86_REG_CR nat | X86_REG_DR nat | X86_REG_FP nat | X86_REG_K nat | X86_REG_MM nat
  | X86_REG_R nat | X86_REG_ST nat | X86_REG_XMM nat | X86_REG_YMM nat | X86_REG_ZMM nat
  | X86_REG_RB nat | X86_REG_RD nat | X86_REG_RW nat

type_synonym hashmap_t = "x86_reg \<rightharpoonup> slot"

record request_t =
  rtype :: nat
  raddress :: u64

record persistent_t =
  pstate :: nat
  paddress :: u64

record dbi_instr_t =
  take_callback :: bool
  state :: state_rtime_t
  host_state :: state_rtime_t
  dump :: hook_t
  restore :: hook_t
  dump_stub :: u64
  restore_stub :: u64
  curr_hook :: u64
  host_rsp :: u64
  hashmap :: hashmap_t
  instrumented_fs :: u64
  base_guest_stack :: u64
  instrumented_gs :: u64
  length_cflow :: u64
  request :: request_t
  persistent_hook :: persistent_t
  cps_count :: u64
  vbrk :: u64

text \<open>
  \<^verbatim>\<open>interp\<close> points to the descriptor of the dynamic linker; what the sources read of it is kept
  as a record of its own, since a record type cannot contain itself.
\<close>

record interp_t =
  i_pie :: bool
  i_base :: u64
  i_entry :: u64
  i_memory_map :: nat

record mdata_binary_t =
  fbinary :: "u8 list"
  len_file :: u64
  filename :: string
  fd :: i32
  s_ph :: "u64 list"
  pie :: bool
  interp :: "interp_t option"
  base :: u64
  memory_map :: nat
  dispatcher :: u64
  dbi_handler :: dbi_instr_t
  exec_entry :: u64

section \<open>The running engine and the kernel\<close>

datatype kcall =
    K_mmap u64 u64 i32 i32 i32 u64
  | K_munmap u64 u64
  | K_mprotect u64 u64 i32
  | K_syscall nat "u64 list"

record kreply =
  k_ret :: u64
  k_out :: u64
  k_mem :: memory

type_synonym kernel = "kcall list \<Rightarrow> kcall \<Rightarrow> memory \<Rightarrow> kreply"

text \<open>
  The process: the descriptor \<^verbatim>\<open>s_binary\<close>, the address space it shares with the guest, the
  kernel calls made, and the globals \<^verbatim>\<open>curr_syscall\<close> (analysis.c), \<^verbatim>\<open>must_change\<close>
  (syscall_hook.c), \<^verbatim>\<open>bbl_count\<close> and \<^verbatim>\<open>mxcsr\<close> (engine.c).
\<close>

record mach =
  s_binary :: mdata_binary_t
  mem :: memory
  ktrace :: "kcall list"
  curr_syscall :: bool
  must_change :: bool
  bbl_count :: u32
  mxcsr :: u64

datatype halt = Exit i32 | Assert_failed | Segfault | Buffer_overrun | Out_of_fuel

type_synonym 'a run = "(halt \<times> mach) + ('a \<times> mach)"

abbreviation dbi :: "mach \<Rightarrow> dbi_instr_t" where
  "dbi s \<equiv> dbi_handler (s_binary s)"

abbreviation guest :: "mach \<Rightarrow> state_rtime_t" where
  "guest s \<equiv> state (dbi_handler (s_binary s))"

definition upd_dbi :: "(dbi_instr_t \<Rightarrow> dbi_instr_t) \<Rightarrow> mach \<Rightarrow> mach" where
  "upd_dbi f s = s\<lparr>s_binary := (s_binary s)\<lparr>dbi_handler := f (dbi s)\<rparr>\<rparr>"

definition upd_guest :: "(state_rtime_t \<Rightarrow> state_rtime_t) \<Rightarrow> mach \<Rightarrow> mach" where
  "upd_guest f = upd_dbi (\<lambda>d. d\<lparr>state := f (state d)\<rparr>)"

lemma dbi_upd_dbi [simp]: "dbi (upd_dbi f s) = f (dbi s)"
  by (simp add: upd_dbi_def)

lemma upd_dbi_frame [simp]:
  "mem (upd_dbi f s) = mem s" "ktrace (upd_dbi f s) = ktrace s"
  "curr_syscall (upd_dbi f s) = curr_syscall s" "must_change (upd_dbi f s) = must_change s"
  "bbl_count (upd_dbi f s) = bbl_count s" "mxcsr (upd_dbi f s) = mxcsr s"
  "exec_entry (s_binary (upd_dbi f s)) = exec_entry (s_binary s)"
  "base (s_binary (upd_dbi f s)) = base (s_binary s)"
  by (simp_all add: upd_dbi_def)

lemma dbi_upd_guest [simp]: "dbi (upd_guest f s) = (dbi s)\<lparr>state := f (guest s)\<rparr>"
  by (simp add: upd_guest_def)

lemma upd_guest_frame [simp]:
  "mem (upd_guest f s) = mem s" "ktrace (upd_guest f s) = ktrace s"
  "curr_syscall (upd_guest f s) = curr_syscall s" "must_change (upd_guest f s) = must_change s"
  "bbl_count (upd_guest f s) = bbl_count s" "mxcsr (upd_guest f s) = mxcsr s"
  "exec_entry (s_binary (upd_guest f s)) = exec_entry (s_binary s)"
  by (simp_all add: upd_guest_def)

lemma dbi_upd_other [simp]:
  "s_binary (s\<lparr>mem := m\<rparr>) = s_binary s" "s_binary (s\<lparr>ktrace := t\<rparr>) = s_binary s"
  by simp_all

text \<open>One kernel call: the reply, and the process with the call recorded.\<close>

definition kern :: "kernel \<Rightarrow> kcall \<Rightarrow> mach \<Rightarrow> kreply \<times> mach" where
  "kern K c s = (let r = K (ktrace s) c (mem s) in (r, s\<lparr>mem := k_mem r, ktrace := ktrace s @ [c]\<rparr>))"

text \<open>
  The C library's wrappers turn a raw result between \<open>-4095\<close> and \<open>-1\<close> into \<open>-1\<close> (the number
  goes to \<^verbatim>\<open>errno\<close>); this is \<^verbatim>\<open>syscall()\<close>, \<^verbatim>\<open>mmap\<close>, \<^verbatim>\<open>munmap\<close> and \<^verbatim>\<open>mprotect\<close>.
\<close>

definition libc_ret :: "u64 \<Rightarrow> u64" where
  "libc_ret r = (if r \<ge> -4095 then -1 else r)"

definition libc_call :: "kernel \<Rightarrow> kcall \<Rightarrow> mach \<Rightarrow> u64 run" where
  "libc_call K c s = (case kern K c s of (r, s') \<Rightarrow> retR (libc_ret (k_ret r)) s')"

definition mprotect :: "kernel \<Rightarrow> u64 \<Rightarrow> u64 \<Rightarrow> i32 \<Rightarrow> mach \<Rightarrow> i32 run" where
  "mprotect K a len p s = bindR (libc_call K (K_mprotect a len p) s) (\<lambda>r s. retR (ucast r) s)"

definition munmap :: "kernel \<Rightarrow> u64 \<Rightarrow> u64 \<Rightarrow> mach \<Rightarrow> i32 run" where
  "munmap K a len s = bindR (libc_call K (K_munmap a len) s) (\<lambda>r s. retR (ucast r) s)"

definition mmap :: "kernel \<Rightarrow> u64 \<Rightarrow> u64 \<Rightarrow> i32 \<Rightarrow> i32 \<Rightarrow> i32 \<Rightarrow> u64 \<Rightarrow> mach \<Rightarrow> u64 run" where
  "mmap K a len p fl f off s = libc_call K (K_mmap a len p fl f off) s"

definition syscall :: "kernel \<Rightarrow> nat \<Rightarrow> u64 list \<Rightarrow> mach \<Rightarrow> u64 run" where
  "syscall K nr args s = libc_call K (K_syscall nr args) s"

text \<open>
  Documented behaviour of \<^verbatim>\<open>mprotect(2)\<close>: it changes access rights and never the bytes.
  \<open>mprotect_succeeds\<close> adds that the call is granted.
\<close>

definition mprotect_keeps_bytes :: "kernel \<Rightarrow> bool" where
  "mprotect_keeps_bytes K \<longleftrightarrow> (\<forall>tr a len p m. k_mem (K tr (K_mprotect a len p) m) = m)"

definition mprotect_succeeds :: "kernel \<Rightarrow> bool" where
  "mprotect_succeeds K \<longleftrightarrow> (\<forall>tr a len p m. k_ret (K tr (K_mprotect a len p) m) = 0)"

lemma mprotect_granted:
  assumes "mprotect_keeps_bytes K" and "mprotect_succeeds K"
  shows "mprotect K a len p s = Inr (0, s\<lparr>ktrace := ktrace s @ [K_mprotect a len p]\<rparr>)"
  using assms
  by (simp add: mprotect_def libc_call_def kern_def libc_ret_def retR_def Let_def
      mprotect_keeps_bytes_def mprotect_succeeds_def)

end
