(* ===== verification/State_Runt.thy ===== *)
theory State_Runt
  imports Dry_Types
begin

unbundle bit_operations_syntax

text \<open>
  \<^verbatim>\<open>src/state_runt.c\<close>: the hashmap from Capstone's register names to the members of the saved
  register file, sub-register reads through it, and the textual register dump.  A hashmap entry
  is a pointer, so reading through an absent one is \<open>None\<close> (a null dereference).  The lemmas show
  that \<open>read_reg\<close> on the initialised hashmap is the architectural view of each register.
\<close>

section \<open>The register hashmap\<close>

definition x86_reg_c :: "x86_reg list" where
  "x86_reg_c =
    [X86_REG_INVALID,
     X86_REG_AH, X86_REG_AL, X86_REG_AX, X86_REG_BH, X86_REG_BL,
     X86_REG_BP, X86_REG_BPL, X86_REG_BX, X86_REG_CH, X86_REG_CL,
     X86_REG_CS, X86_REG_CX, X86_REG_DH, X86_REG_DI, X86_REG_DIL,
     X86_REG_DL, X86_REG_DS, X86_REG_DX, X86_REG_EAX, X86_REG_EBP,
     X86_REG_EBX, X86_REG_ECX, X86_REG_EDI, X86_REG_EDX, X86_REG_EFLAGS,
     X86_REG_EIP, X86_REG_EIZ, X86_REG_ES, X86_REG_ESI, X86_REG_ESP,
     X86_REG_FPSW, X86_REG_FS, X86_REG_GS, X86_REG_IP, X86_REG_RAX,
     X86_REG_RBP, X86_REG_RBX, X86_REG_RCX, X86_REG_RDI, X86_REG_RDX,
     X86_REG_RIP, X86_REG_RIZ, X86_REG_RSI, X86_REG_RSP, X86_REG_SI,
     X86_REG_SIL, X86_REG_SP, X86_REG_SPL, X86_REG_SS]
    @ map X86_REG_CR [0..<16] @ map X86_REG_DR [0..<16] @ map X86_REG_FP [0..<8]
    @ map X86_REG_K [0..<8] @ map X86_REG_MM [0..<8] @ map X86_REG_R [8..<16]
    @ map X86_REG_ST [0..<8] @ map X86_REG_XMM [0..<32] @ map X86_REG_YMM [0..<32]
    @ map X86_REG_ZMM [0..<32] @ map X86_REG_RB [8..<16] @ map X86_REG_RD [8..<16]
    @ map X86_REG_RW [8..<16]"

definition make_link :: "hashmap_t \<Rightarrow> x86_reg \<Rightarrow> slot \<Rightarrow> hashmap_t" where
  "make_link h k sl = h(k \<mapsto> sl)"

definition group_make_link :: "hashmap_t \<Rightarrow> x86_reg list \<Rightarrow> slot \<Rightarrow> hashmap_t" where
  "group_make_link h ks sl = fold (\<lambda>k h. make_link h k sl) ks h"

text \<open>The array is freshly \<^verbatim>\<open>calloc\<close>ed, so the loop starts from the hashmap without entries.\<close>

definition init_hashmap :: hashmap_t where
  "init_hashmap =
    (let h = group_make_link Map.empty x86_reg_c S_null_entry;
         h = group_make_link h [X86_REG_AL, X86_REG_AH, X86_REG_AX, X86_REG_EAX, X86_REG_RAX] S_rax;
         h = group_make_link h [X86_REG_BL, X86_REG_BH, X86_REG_BX, X86_REG_EBX, X86_REG_RBX] S_rbx;
         h = group_make_link h [X86_REG_CL, X86_REG_CH, X86_REG_CX, X86_REG_ECX, X86_REG_RCX] S_rcx;
         h = group_make_link h [X86_REG_DL, X86_REG_DH, X86_REG_DX, X86_REG_EDX, X86_REG_RDX] S_rdx;
         h = group_make_link h [X86_REG_DIL, X86_REG_DI, X86_REG_EDI, X86_REG_RDI] S_rdi;
         h = group_make_link h [X86_REG_SIL, X86_REG_SI, X86_REG_ESI, X86_REG_RSI] S_rsi;
         h = group_make_link h [X86_REG_BPL, X86_REG_BP, X86_REG_EBP, X86_REG_RBP] S_rbp;
         h = group_make_link h [X86_REG_SPL, X86_REG_SP, X86_REG_ESP, X86_REG_RSP] S_rsp;
         h = group_make_link h [X86_REG_RB 8, X86_REG_RW 8, X86_REG_RD 8, X86_REG_R 8] S_r8;
         h = group_make_link h [X86_REG_RB 9, X86_REG_RW 9, X86_REG_RD 9, X86_REG_R 9] S_r9;
         h = group_make_link h [X86_REG_RB 10, X86_REG_RW 10, X86_REG_RD 10, X86_REG_R 10] S_r10;
         h = group_make_link h [X86_REG_RB 11, X86_REG_RW 11, X86_REG_RD 11, X86_REG_R 11] S_r11;
         h = group_make_link h [X86_REG_RB 12, X86_REG_RW 12, X86_REG_RD 12, X86_REG_R 12] S_r12;
         h = group_make_link h [X86_REG_RB 13, X86_REG_RW 13, X86_REG_RD 13, X86_REG_R 13] S_r13;
         h = group_make_link h [X86_REG_RB 14, X86_REG_RW 14, X86_REG_RD 14, X86_REG_R 14] S_r14;
         h = group_make_link h [X86_REG_RB 15, X86_REG_RW 15, X86_REG_RD 15, X86_REG_R 15] S_r15;
         h = group_make_link h [X86_REG_EFLAGS] S_rflags;
         h = group_make_link h [X86_REG_EIP, X86_REG_RIP] S_rip
     in h)"

section \<open>Reading and writing registers\<close>

definition is_8bits_right :: "x86_reg \<Rightarrow> bool" where
  "is_8bits_right r \<longleftrightarrow> r \<in> set
    [X86_REG_AL, X86_REG_BL, X86_REG_CL, X86_REG_DL, X86_REG_DIL, X86_REG_SIL, X86_REG_BPL,
     X86_REG_SPL, X86_REG_RB 8, X86_REG_RB 9, X86_REG_RB 10, X86_REG_RB 11, X86_REG_RB 12,
     X86_REG_RB 13, X86_REG_RB 14, X86_REG_RB 15]"

definition is_8bits_left :: "x86_reg \<Rightarrow> bool" where
  "is_8bits_left r \<longleftrightarrow> r \<in> set [X86_REG_AH, X86_REG_BH, X86_REG_CH, X86_REG_DH]"

definition is_16bits :: "x86_reg \<Rightarrow> bool" where
  "is_16bits r \<longleftrightarrow> r \<in> set
    [X86_REG_AX, X86_REG_BX, X86_REG_CX, X86_REG_DX, X86_REG_SI, X86_REG_DI, X86_REG_BP,
     X86_REG_SP, X86_REG_RW 8, X86_REG_RW 9, X86_REG_RW 10, X86_REG_RW 11, X86_REG_RW 12,
     X86_REG_RW 13, X86_REG_RW 14, X86_REG_RW 15]"

definition is_32bits :: "x86_reg \<Rightarrow> bool" where
  "is_32bits r \<longleftrightarrow> r \<in> set
    [X86_REG_EAX, X86_REG_EBX, X86_REG_ECX, X86_REG_EDX, X86_REG_ESI, X86_REG_EDI, X86_REG_EBP,
     X86_REG_ESP, X86_REG_RD 8, X86_REG_RD 9, X86_REG_RD 10, X86_REG_RD 11, X86_REG_RD 12,
     X86_REG_RD 13, X86_REG_RD 14, X86_REG_RD 15, X86_REG_EIP, X86_REG_EFLAGS]"

definition is_64bits :: "x86_reg \<Rightarrow> bool" where
  "is_64bits r \<longleftrightarrow> r \<in> set
    [X86_REG_RAX, X86_REG_RBX, X86_REG_RCX, X86_REG_RDX, X86_REG_RSI, X86_REG_RDI, X86_REG_RBP,
     X86_REG_RSP, X86_REG_R 8, X86_REG_R 9, X86_REG_R 10, X86_REG_R 11, X86_REG_R 12,
     X86_REG_R 13, X86_REG_R 14, X86_REG_R 15, X86_REG_RIP]"

definition is_128bits :: "x86_reg \<Rightarrow> bool" where
  "is_128bits r \<longleftrightarrow> r \<in> set (map X86_REG_XMM [0..<32])"

definition is_256bits :: "x86_reg \<Rightarrow> bool" where
  "is_256bits r \<longleftrightarrow> r \<in> set (map X86_REG_YMM [0..<32])"

definition is_512bits :: "x86_reg \<Rightarrow> bool" where
  "is_512bits r \<longleftrightarrow> r \<in> set (map X86_REG_ZMM [0..<32])"

text \<open>\<^verbatim>\<open>*(hashmap->value[key])\<close>, and the store \<^verbatim>\<open>*(hashmap->value[key]) = value\<close>.\<close>

definition deref :: "x86_reg \<Rightarrow> hashmap_t \<Rightarrow> state_rtime_t \<Rightarrow> u64 option" where
  "deref key h st = map_option (\<lambda>sl. get_slot sl st) (h key)"

definition update_reg :: "x86_reg \<Rightarrow> hashmap_t \<Rightarrow> u64 \<Rightarrow> state_rtime_t \<Rightarrow> state_rtime_t option" where
  "update_reg key h v st = map_option (\<lambda>sl. set_slot sl v st) (h key)"

definition read_reg :: "x86_reg \<Rightarrow> hashmap_t \<Rightarrow> state_rtime_t \<Rightarrow> u64 option" where
  "read_reg key h st =
    (if key = X86_REG_EFLAGS then map_option (\<lambda>v. v AND 0xFCFFFF) (deref key h st)
     else if is_8bits_right key then map_option (\<lambda>v. v AND 0xff) (deref key h st)
     else if is_8bits_left key then map_option (\<lambda>v. drop_bit 8 (v AND 0xff00)) (deref key h st)
     else if is_16bits key then map_option (\<lambda>v. v AND 0xffff) (deref key h st)
     else if is_32bits key then map_option (\<lambda>v. v AND 0xffffffff) (deref key h st)
     else if is_64bits key then map_option (\<lambda>v. v AND 0xffffffffffffffff) (deref key h st)
     else Some (-1))"

section \<open>The register dump\<close>

definition hex_digit :: "u64 \<Rightarrow> char" where
  "hex_digit d = ''0123456789abcdef'' ! unat (d AND 0xf)"

text \<open>The conversion \<^verbatim>\<open>%016lx\<close>.\<close>

definition hex16 :: "u64 \<Rightarrow> string" where
  "hex16 v = map (\<lambda>i. hex_digit (drop_bit (4 * (15 - i)) v)) [0..<16]"

fun prnt_items :: "u64 list \<Rightarrow> string" where
  "prnt_items [] = ''''"
| "prnt_items [q] = hex16 q"
| "prnt_items (q # qs) = hex16 q @ '', '' @ prnt_items qs"

definition prnt_large :: "u64 list \<Rightarrow> string" where
  "prnt_large qs = ''{'' @ prnt_items qs @ ''}''"

definition prnt_uint128 :: "128 word \<Rightarrow> string" where
  "prnt_uint128 v = prnt_large (map (\<lambda>i. ucast (drop_bit (64 * i) v)) [0..<2])"

definition prnt_uint256 :: "256 word \<Rightarrow> string" where
  "prnt_uint256 v = prnt_large (map (\<lambda>i. ucast (drop_bit (64 * i) v)) [0..<4])"

definition nl :: string where "nl = [CHR 0x0A]"
definition tab :: string where "tab = [CHR 0x09]"

definition reg_nums :: "string list" where
  "reg_nums = [''0'', ''1'', ''2'', ''3'', ''4'', ''5'', ''6'', ''7'', ''8'', ''9'', ''10'',
               ''11'', ''12'', ''13'', ''14'', ''15'']"

text \<open>The first register has no newline before it and the last no blank after the tab.\<close>

definition log_sse :: "sse_t \<Rightarrow> string" where
  "log_sse x = concat (map (\<lambda>i. (if i = 0 then '''' else nl) @ ''$xmm'' @ reg_nums ! i @ tab
       @ (if i = 15 then '''' else '' '') @ prnt_uint128 (x i)) [0..<16])"

definition log_avx2 :: "avx2_t \<Rightarrow> string" where
  "log_avx2 x = concat (map (\<lambda>i. nl @ ''$ymm'' @ reg_nums ! i @ tab @ '' ''
       @ prnt_uint256 (x i)) [0..<16]) @ nl"

definition log_line :: "string \<Rightarrow> u64 \<Rightarrow> string" where
  "log_line n v = n @ tab @ '' {'' @ hex16 v @ ''}'' @ nl"

definition log_general :: "state_rtime_t \<Rightarrow> string" where
  "log_general st =
     log_line ''$rax'' (rax st) @ log_line ''$rbx'' (rbx st) @ log_line ''$rcx'' (rcx st)
   @ log_line ''$rdx'' (rdx st) @ log_line ''$rsi'' (rsi st) @ log_line ''$rdi'' (rdi st)
   @ log_line ''$rbp'' (rbp st) @ log_line ''$rsp'' (rsp st) @ log_line ''$rip'' (rip st)
   @ log_line ''$r8 '' (r8 st) @ log_line ''$r9 '' (r9 st) @ log_line ''$r10'' (r10 st)
   @ log_line ''$r11'' (r11 st) @ log_line ''$r12'' (r12 st) @ log_line ''$r13'' (r13 st)
   @ log_line ''$r14'' (r14 st) @ log_line ''$r15'' (r15 st) @ log_line ''$rflags'' (rflags st)"

text \<open>
  \<^verbatim>\<open>log_regs\<close> writes the general registers to the stream it is given and the vector registers to
  \<^verbatim>\<open>debug_stream\<close>; a process with an AVX-512 register file exits.
\<close>

definition log_regs :: "state_rtime_t \<Rightarrow> i32 + (string \<times> string)" where
  "log_regs st =
    (case sse st of Some x \<Rightarrow> Inr (log_general st, log_sse x)
     | None \<Rightarrow>
       (case avx2 st of Some y \<Rightarrow> Inr (log_general st, log_avx2 y)
        | None \<Rightarrow>
          (case avx512 st of Some _ \<Rightarrow> Inl (-1) | None \<Rightarrow> Inr (log_general st, ''''))))"

section \<open>The architectural view\<close>

text \<open>
  The reference: each general-purpose register name is a bit field (start and width) of one
  64-bit register.
\<close>

definition R_slot :: "nat \<Rightarrow> slot option" where
  "R_slot n = (if n = 8 then Some S_r8 else if n = 9 then Some S_r9 else if n = 10 then Some S_r10
     else if n = 11 then Some S_r11 else if n = 12 then Some S_r12 else if n = 13 then Some S_r13
     else if n = 14 then Some S_r14 else if n = 15 then Some S_r15 else None)"

fun reg_view :: "x86_reg \<Rightarrow> (slot \<times> nat \<times> nat) option" where
  "reg_view X86_REG_AL = Some (S_rax, 0, 8)"
| "reg_view X86_REG_AH = Some (S_rax, 8, 8)"
| "reg_view X86_REG_AX = Some (S_rax, 0, 16)"
| "reg_view X86_REG_EAX = Some (S_rax, 0, 32)"
| "reg_view X86_REG_RAX = Some (S_rax, 0, 64)"
| "reg_view X86_REG_BL = Some (S_rbx, 0, 8)"
| "reg_view X86_REG_BH = Some (S_rbx, 8, 8)"
| "reg_view X86_REG_BX = Some (S_rbx, 0, 16)"
| "reg_view X86_REG_EBX = Some (S_rbx, 0, 32)"
| "reg_view X86_REG_RBX = Some (S_rbx, 0, 64)"
| "reg_view X86_REG_CL = Some (S_rcx, 0, 8)"
| "reg_view X86_REG_CH = Some (S_rcx, 8, 8)"
| "reg_view X86_REG_CX = Some (S_rcx, 0, 16)"
| "reg_view X86_REG_ECX = Some (S_rcx, 0, 32)"
| "reg_view X86_REG_RCX = Some (S_rcx, 0, 64)"
| "reg_view X86_REG_DL = Some (S_rdx, 0, 8)"
| "reg_view X86_REG_DH = Some (S_rdx, 8, 8)"
| "reg_view X86_REG_DX = Some (S_rdx, 0, 16)"
| "reg_view X86_REG_EDX = Some (S_rdx, 0, 32)"
| "reg_view X86_REG_RDX = Some (S_rdx, 0, 64)"
| "reg_view X86_REG_DIL = Some (S_rdi, 0, 8)"
| "reg_view X86_REG_DI = Some (S_rdi, 0, 16)"
| "reg_view X86_REG_EDI = Some (S_rdi, 0, 32)"
| "reg_view X86_REG_RDI = Some (S_rdi, 0, 64)"
| "reg_view X86_REG_SIL = Some (S_rsi, 0, 8)"
| "reg_view X86_REG_SI = Some (S_rsi, 0, 16)"
| "reg_view X86_REG_ESI = Some (S_rsi, 0, 32)"
| "reg_view X86_REG_RSI = Some (S_rsi, 0, 64)"
| "reg_view X86_REG_BPL = Some (S_rbp, 0, 8)"
| "reg_view X86_REG_BP = Some (S_rbp, 0, 16)"
| "reg_view X86_REG_EBP = Some (S_rbp, 0, 32)"
| "reg_view X86_REG_RBP = Some (S_rbp, 0, 64)"
| "reg_view X86_REG_SPL = Some (S_rsp, 0, 8)"
| "reg_view X86_REG_SP = Some (S_rsp, 0, 16)"
| "reg_view X86_REG_ESP = Some (S_rsp, 0, 32)"
| "reg_view X86_REG_RSP = Some (S_rsp, 0, 64)"
| "reg_view X86_REG_EIP = Some (S_rip, 0, 32)"
| "reg_view X86_REG_RIP = Some (S_rip, 0, 64)"
| "reg_view (X86_REG_RB n) = map_option (\<lambda>sl. (sl, 0, 8)) (R_slot n)"
| "reg_view (X86_REG_RW n) = map_option (\<lambda>sl. (sl, 0, 16)) (R_slot n)"
| "reg_view (X86_REG_RD n) = map_option (\<lambda>sl. (sl, 0, 32)) (R_slot n)"
| "reg_view (X86_REG_R n) = map_option (\<lambda>sl. (sl, 0, 64)) (R_slot n)"
| "reg_view _ = None"

definition view_val :: "(slot \<times> nat \<times> nat) option \<Rightarrow> state_rtime_t \<Rightarrow> u64" where
  "view_val v st = (case v of None \<Rightarrow> -1
     | Some (sl, lo, w) \<Rightarrow> take_bit w (drop_bit lo (get_slot sl st)))"

lemma group_make_link_apply:
  "group_make_link h ks sl k = (if k \<in> set ks then Some sl else h k)"
  by (induction ks arbitrary: h) (auto simp: group_make_link_def make_link_def)

lemma and_mask_views:
  fixes v :: u64
  shows "v AND 0xff = take_bit 8 v" "v AND 0xffff = take_bit 16 v"
    "v AND 0xffffffff = take_bit 32 v" "v AND 0xffffffffffffffff = take_bit 64 v"
    "drop_bit 8 (v AND 0xff00) = take_bit 8 (drop_bit 8 v)"
proof -
  show "v AND 0xff = take_bit 8 v" "v AND 0xffff = take_bit 16 v"
    "v AND 0xffffffff = take_bit 32 v" "v AND 0xffffffffffffffff = take_bit 64 v"
    by (simp_all add: take_bit_eq_mask mask_eq_exp_minus_1)
  have ff: "(0xff00 :: u64) = push_bit 8 (mask 8)"
    by (simp add: mask_eq_exp_minus_1)
  show "drop_bit 8 (v AND 0xff00) = take_bit 8 (drop_bit 8 v)"
    unfolding ff by (rule bit_word_eqI) (auto simp: bit_simps)
qed

lemma nat_8_to_15: "R_slot n \<noteq> None \<Longrightarrow> n \<in> {8, 9, 10, 11, 12, 13, 14, 15}"
  by (auto simp: R_slot_def split: if_splits)

lemmas reg_class_defs =
  is_8bits_right_def is_8bits_left_def is_16bits_def is_32bits_def is_64bits_def

lemma init_hashmap_fixed:
  "init_hashmap (X86_REG_RB n) = (if n \<in> {8..<16} then R_slot n else None)"
  "init_hashmap (X86_REG_RW n) = (if n \<in> {8..<16} then R_slot n else None)"
  "init_hashmap (X86_REG_RD n) = (if n \<in> {8..<16} then R_slot n else None)"
  "init_hashmap (X86_REG_R n) = (if n \<in> {8..<16} then R_slot n else None)"
  by (auto simp: init_hashmap_def group_make_link_apply x86_reg_c_def R_slot_def)

lemma init_hashmap_view:
  "reg_view k = Some (sl, lo, w) \<Longrightarrow> init_hashmap k = Some sl"
  by (cases k) (auto simp: init_hashmap_fixed R_slot_def init_hashmap_def group_make_link_apply
      split: if_splits)

lemma init_hashmap_eflags [simp]: "init_hashmap X86_REG_EFLAGS = Some S_rflags"
  by (simp add: init_hashmap_def group_make_link_apply)

text \<open>The width classes of the source agree with the reference view.\<close>

lemma reg_classes:
  assumes "k \<noteq> X86_REG_EFLAGS"
  shows "is_8bits_right k \<longleftrightarrow> (\<exists>sl. reg_view k = Some (sl, 0, 8))"
    and "is_8bits_left k \<longleftrightarrow> (\<exists>sl. reg_view k = Some (sl, 8, 8))"
    and "is_16bits k \<longleftrightarrow> (\<exists>sl. reg_view k = Some (sl, 0, 16))"
    and "is_32bits k \<longleftrightarrow> (\<exists>sl. reg_view k = Some (sl, 0, 32))"
    and "is_64bits k \<longleftrightarrow> (\<exists>sl. reg_view k = Some (sl, 0, 64))"
  using assms by (cases k; force simp: reg_class_defs R_slot_def)+

lemma reg_view_shape:
  assumes "reg_view k = Some (sl, lo, w)"
  shows "(lo, w) \<in> {(0, 8), (8, 8), (0, 16), (0, 32), (0, 64)}"
  using assms by (cases k) auto

lemma read_reg_by_view:
  assumes "k \<noteq> X86_REG_EFLAGS"
  shows "read_reg k init_hashmap st = Some (view_val (reg_view k) st)"
proof (cases "reg_view k")
  case None
  with assms show ?thesis
    by (simp add: read_reg_def reg_classes view_val_def)
next
  case (Some v)
  obtain sl lo w where v: "v = (sl, lo, w)" by (cases v)
  from Some v have h: "init_hashmap k = Some sl" by (simp add: init_hashmap_view)
  from Some v have "(lo, w) \<in> {(0, 8), (8, 8), (0, 16), (0, 32), (0, 64)}"
    by (auto dest: reg_view_shape)
  with assms Some v h show ?thesis
    by (auto simp: read_reg_def reg_classes view_val_def deref_def and_mask_views)
qed


text \<open>
  C28: \<^verbatim>\<open>update_reg\<close> on a general-purpose name stores the whole 64-bit register that backs the
  name, whatever its width: a later read through any alias of that register sees the field of
  the stored value, and every register backed by another member reads as before.
\<close>

theorem update_reg_read_reg:
  assumes "reg_view k = Some (sl, lo, w)" and "reg_view k' = Some (sl', lo', w')"
  shows "\<exists>st'. update_reg k init_hashmap v st = Some st' \<and>
     read_reg k' init_hashmap st' =
       Some (if sl' = sl then take_bit w' (drop_bit lo' v) else view_val (reg_view k') st)"
proof -
  from assms(2) have ne: "k' \<noteq> X86_REG_EFLAGS" by auto
  from assms(1) have "update_reg k init_hashmap v st = Some (set_slot sl v st)"
    by (simp add: update_reg_def init_hashmap_view)
  with assms(2) show ?thesis
    by (simp add: read_reg_by_view [OF ne] view_val_def slots.get_put)
qed

theorem update_reg_read_reg_witness:
  "\<exists>st'. update_reg X86_REG_AL init_hashmap 0x1234 calloc_state = Some st' \<and>
     read_reg X86_REG_AH init_hashmap st' = Some 0x12"
proof -
  have "take_bit 8 (drop_bit 8 (0x1234 :: u64)) = 0x12" by simp
  then show ?thesis
    using update_reg_read_reg [of X86_REG_AL S_rax 0 8 X86_REG_AH S_rax 8 8 "0x1234" calloc_state]
    by simp
qed

section \<open>The dump identifies the registers\<close>

lemma hex_digit_inj: "hex_digit d = hex_digit e \<Longrightarrow> d AND 0xf = e AND 0xf"
proof -
  have less: "unat (x AND 0xf) < 16" for x :: u64
  proof -
    have "unat (x AND 0xf) \<le> unat (0xf :: u64)"
      by (rule word_and_le1 [THEN word_le_nat_alt [THEN iffD1]])
    then show ?thesis by simp
  qed
  have "distinct ''0123456789abcdef''" by simp
  moreover assume "hex_digit d = hex_digit e"
  ultimately have "unat (d AND 0xf) = unat (e AND 0xf)"
    using less [of d] less [of e] by (simp add: hex_digit_def nth_eq_iff_index_eq)
  then show ?thesis by (simp add: word_unat_eq_iff)
qed

lemma length_hex16 [simp]: "length (hex16 v) = 16"
  by (simp add: hex16_def)

lemma hex16_inj: "hex16 v = hex16 w \<longleftrightarrow> v = w"
proof
  assume eq: "hex16 v = hex16 w"
  have nib: "drop_bit (4 * (15 - i)) v AND 0xf = drop_bit (4 * (15 - i)) w AND 0xf" if "i < 16" for i
  proof (rule hex_digit_inj)
    from eq have "hex16 v ! i = hex16 w ! i" by simp
    with that show "hex_digit (drop_bit (4 * (15 - i)) v) = hex_digit (drop_bit (4 * (15 - i)) w)"
      by (simp add: hex16_def)
  qed
  show "v = w"
  proof (rule bit_word_eqI)
    fix n assume n: "n < LENGTH(64)"
    then have j: "15 - (15 - n div 4) = n div 4" by simp
    have m: "bit (0xf :: u64) (n mod 4)"
    proof -
      have f: "(0xf :: u64) = mask 4" by (simp add: mask_eq_exp_minus_1)
      show ?thesis unfolding f using n by (simp add: bit_mask_iff)
    qed
    have "bit x n = bit (drop_bit (4 * (n div 4)) x AND 0xf) (n mod 4)" for x :: u64
      using m by (simp add: bit_simps)
    with nib [of "15 - n div 4"] j show "bit v n = bit w n" by simp
  qed
qed simp

lemma log_line_append_eq:
  "log_line n v @ xs = log_line n w @ ys \<longleftrightarrow> v = w \<and> xs = ys"
  by (auto simp: log_line_def hex16_inj)

lemma log_line_eq: "log_line n v = log_line n w \<longleftrightarrow> v = w"
  using log_line_append_eq [of n v "[]" w "[]"] by simp

text \<open>
  The register dump printed by \<^verbatim>\<open>log_general\<close> loses nothing: two states print the same text
  exactly when their sixteen general-purpose registers, \<^verbatim>\<open>rip\<close> and \<^verbatim>\<open>rflags\<close> agree.
\<close>

lemma log_general_identifies:
  "log_general a = log_general b \<longleftrightarrow>
     rax a = rax b \<and> rbx a = rbx b \<and> rcx a = rcx b \<and> rdx a = rdx b \<and> rsi a = rsi b \<and>
     rdi a = rdi b \<and> rbp a = rbp b \<and> rsp a = rsp b \<and> rip a = rip b \<and> r8 a = r8 b \<and>
     r9 a = r9 b \<and> r10 a = r10 b \<and> r11 a = r11 b \<and> r12 a = r12 b \<and> r13 a = r13 b \<and>
     r14 a = r14 b \<and> r15 a = r15 b \<and> rflags a = rflags b"
  unfolding log_general_def by (simp only: log_line_append_eq log_line_eq)

end
