(* ===== verification/Engine_Base.thy ===== *)
theory Engine_Base
  imports State_Runt
begin

unbundle bit_operations_syntax

text \<open>
  The part of \<^verbatim>\<open>src/engine.c\<close> that every other component calls: switching the segment bases with
  \<^verbatim>\<open>arch_prctl\<close>, the SSE control word, and the two ways the engine ends the process.  The lemmas
  say which kernel calls a switch makes and that \<^verbatim>\<open>set_fs_gs\<close> never reports failure as \<open>-1\<close>, the
  value its callers test for.
\<close>

section \<open>Segment bases\<close>

definition arch_prctl :: "kernel \<Rightarrow> u64 \<Rightarrow> u64 \<Rightarrow> mach \<Rightarrow> i32 run" where
  "arch_prctl K func ptr s = bindR (syscall K NR_arch_prctl [func, ptr] s) (\<lambda>r s. retR (ucast r) s)"

text \<open>\<^verbatim>\<open>a || b\<close> is 0 or 1, and \<^verbatim>\<open>b\<close> is evaluated only if \<^verbatim>\<open>a\<close> is 0.\<close>

definition set_fs_gs :: "kernel \<Rightarrow> u64 \<Rightarrow> u64 \<Rightarrow> mach \<Rightarrow> i32 run" where
  "set_fs_gs K f g s =
     bindR (arch_prctl K ARCH_SET_FS f s) (\<lambda>r s.
       if r \<noteq> 0 then retR 1 s
       else bindR (arch_prctl K ARCH_SET_GS g s) (\<lambda>r s. retR (if r \<noteq> 0 then 1 else 0) s))"

text \<open>
  \<^verbatim>\<open>arch_prctl(ARCH_GET_.., p)\<close> with \<^verbatim>\<open>p\<close> a host variable: the result and the value stored through
  \<^verbatim>\<open>p\<close>.
\<close>

definition arch_prctl_get :: "kernel \<Rightarrow> u64 \<Rightarrow> mach \<Rightarrow> (i32 \<times> u64) run" where
  "arch_prctl_get K func s =
     (case kern K (K_syscall NR_arch_prctl [func]) s of
        (r, s') \<Rightarrow> retR (ucast (libc_ret (k_ret r)), k_out r) s')"

text \<open>
  \<^verbatim>\<open>save_fs_gs\<close> stores through its first pointer even when it then returns \<open>-1\<close>: the value is the
  return code and what the two pointers receive (\<open>None\<close>: not written).
\<close>

definition save_fs_gs :: "kernel \<Rightarrow> mach \<Rightarrow> (i32 \<times> u64 option \<times> u64 option) run" where
  "save_fs_gs K s =
     bindR (arch_prctl_get K ARCH_GET_FS s) (\<lambda>(r, f) s.
       if r = -1 then retR (-1, None, None) s
       else bindR (arch_prctl_get K ARCH_GET_GS s) (\<lambda>(r, g) s.
         if r = -1 then retR (-1, Some f, None) s else retR (0, Some f, Some g) s))"

section \<open>The SSE control word\<close>

text \<open>
  The processor's \<^verbatim>\<open>MXCSR\<close> is the argument of \<open>save_mxcsr\<close> and the result of \<open>restore_mxcsr\<close>; the
  global has 64 bits, the register 32.
\<close>

definition save_mxcsr :: "u32 \<Rightarrow> mach \<Rightarrow> mach" where
  "save_mxcsr csr s = s\<lparr>mxcsr := ucast csr\<rparr>"

definition restore_mxcsr :: "mach \<Rightarrow> u32" where
  "restore_mxcsr s = ucast (mxcsr s)"

section \<open>Ending the process\<close>

definition default_dtor :: "kernel \<Rightarrow> mach \<Rightarrow> 'a run" where
  "default_dtor K s = haltR (Exit 0) (snd (kern K (K_syscall NR_exit [0]) s))"

text \<open>
  \<^verbatim>\<open>fatal_dump\<close> prints the registers (which exits with \<open>-1\<close> on AVX-512 state) and runs the
  destructor, which is \<^verbatim>\<open>default_dtor\<close> from \<^verbatim>\<open>init_analysis\<close> on.
\<close>

definition fatal_dump :: "kernel \<Rightarrow> mach \<Rightarrow> 'a run" where
  "fatal_dump K s = (case log_regs (guest s) of Inl c \<Rightarrow> haltR (Exit c) s | Inr _ \<Rightarrow> default_dtor K s)"

definition unmap :: "kernel \<Rightarrow> u64 \<Rightarrow> u64 \<Rightarrow> mach \<Rightarrow> i32 run" where
  "unmap K a sz s = munmap K a sz s"

section \<open>Lemmas\<close>

lemma default_dtor_halts [simp, dry_run]: "default_dtor K s \<noteq> Inr y"
  by (simp add: default_dtor_def)

lemma fatal_dump_halts [simp, dry_run]: "fatal_dump K s \<noteq> Inr y"
  by (simp add: fatal_dump_def split: sum.splits)

lemma bind_fatal_dump [simp, dry_run]: "bindR (fatal_dump K s) f = fatal_dump K s"
  by (auto simp: fatal_dump_def default_dtor_def split: sum.splits)

lemma libc_call_s_binary: "libc_call K c s = Inr (r, s') \<Longrightarrow> s_binary s' = s_binary s"
  by (auto simp: libc_call_def kern_def Let_def)

lemma libc_call_shape:
  "libc_call K c s = Inr (libc_ret (k_ret (K (ktrace s) c (mem s))),
     s\<lparr>mem := k_mem (K (ktrace s) c (mem s)), ktrace := ktrace s @ [c]\<rparr>)"
  by (simp add: libc_call_def kern_def Let_def retR_def)

lemma set_fs_gs_returns:
  "\<exists>r s'. set_fs_gs K f g s = Inr (r, s') \<and> r \<in> {0, 1} \<and> s_binary s' = s_binary s
     \<and> curr_syscall s' = curr_syscall s \<and> must_change s' = must_change s
     \<and> bbl_count s' = bbl_count s \<and> mxcsr s' = mxcsr s"
  by (simp add: set_fs_gs_def arch_prctl_def syscall_def libc_call_shape retR_def)

lemma set_fs_gs_never_minus_one: "set_fs_gs K f g s = Inr (r, s') \<Longrightarrow> r \<noteq> -1"
  using set_fs_gs_returns [of K f g s] by auto

text \<open>
  Documented behaviour of \<^verbatim>\<open>arch_prctl(2)\<close>: setting a segment base writes no memory, and reading
  one writes only the host variable.
\<close>

definition prctl_keeps_bytes :: "kernel \<Rightarrow> bool" where
  "prctl_keeps_bytes K \<longleftrightarrow>
     (\<forall>tr m v. k_mem (K tr (K_syscall NR_arch_prctl [ARCH_SET_FS, v]) m) = m \<and>
               k_mem (K tr (K_syscall NR_arch_prctl [ARCH_SET_GS, v]) m) = m \<and>
               k_mem (K tr (K_syscall NR_arch_prctl [ARCH_GET_FS]) m) = m \<and>
               k_mem (K tr (K_syscall NR_arch_prctl [ARCH_GET_GS]) m) = m)"

lemma set_fs_gs_keeps:
  assumes "prctl_keeps_bytes K"
  shows "\<exists>r tr. set_fs_gs K f g s = Inr (r, s\<lparr>ktrace := ktrace s @ tr\<rparr>) \<and> r \<in> {0, 1}"
  using assms
  by (auto simp: set_fs_gs_def arch_prctl_def syscall_def libc_call_shape retR_def
      prctl_keeps_bytes_def)

lemma save_fs_gs_keeps:
  assumes "prctl_keeps_bytes K"
  shows "\<exists>v tr. save_fs_gs K s = Inr (v, s\<lparr>ktrace := ktrace s @ tr\<rparr>)"
  using assms
  by (auto simp: save_fs_gs_def arch_prctl_get_def kern_def Let_def retR_def
      prctl_keeps_bytes_def)

end
