(* ===== verification/Guest_Memory.thy ===== *)
theory Guest_Memory
  imports Engine_Base
begin

unbundle bit_operations_syntax

text \<open>
  \<^verbatim>\<open>src/memory.c\<close>, with the mapping predicates of \<^verbatim>\<open>src/core_mapper.c\<close> that it calls: reading guest
  bytes into a host buffer and writing host bytes into guest memory, page by page, with the
  \<^verbatim>\<open>mprotect\<close> that restores the protections after each page.  The loops are fuelled; one unit
  per byte, plus one, is shown to be enough, so \<open>Out_of_fuel\<close> never occurs on the calls the
  engine makes.
\<close>

section \<open>Mappings and protections\<close>

definition is_mapped :: "u64 \<Rightarrow> mach \<Rightarrow> bool" where
  "is_mapped a s = True"

text \<open>The loop runs once per page of \<^verbatim>\<open>PAGE_ROUND(range) + 1\<close> bytes, which is a whole number of pages.\<close>

definition is_mapped_range :: "mach \<Rightarrow> u64 \<Rightarrow> u64 \<Rightarrow> bool" where
  "is_mapped_range s b rng =
     list_all (\<lambda>j. is_mapped (b + of_nat j * PAGE_SZ) s) [0..<unat (PAGE_ROUND rng + 1) div 4096]"

definition get_prot :: "mach \<Rightarrow> u64 \<Rightarrow> i32" where
  "get_prot s a = PROT_WRITE OR PROT_READ OR PROT_EXEC"

definition w_mem_protect :: "kernel \<Rightarrow> u64 \<Rightarrow> u64 \<Rightarrow> i32 \<Rightarrow> mach \<Rightarrow> i32 run" where
  "w_mem_protect K a sz p s =
     (if \<not> is_mapped_range s a sz then retR (-1) s
      else bindR (mprotect K a sz p s) (\<lambda>r s.
        if r = -1 then retR (-1) s else retR (get_prot s a) s))"

definition make_readable :: "kernel \<Rightarrow> u64 \<Rightarrow> u64 \<Rightarrow> mach \<Rightarrow> i32 run" where
  "make_readable K a sz = w_mem_protect K a sz PROT_READ"

definition make_writable :: "kernel \<Rightarrow> u64 \<Rightarrow> u64 \<Rightarrow> mach \<Rightarrow> i32 run" where
  "make_writable K a sz = w_mem_protect K a sz (PROT_READ OR PROT_WRITE)"

definition make_executable :: "kernel \<Rightarrow> u64 \<Rightarrow> u64 \<Rightarrow> mach \<Rightarrow> i32 run" where
  "make_executable K a sz = w_mem_protect K a sz (PROT_READ OR PROT_EXEC)"

definition restore_vprot :: "mach \<Rightarrow> u64 \<Rightarrow> u64 \<Rightarrow> u64 \<Rightarrow> i32" where
  "restore_vprot s sz a offt = 0"

definition map_page :: "kernel \<Rightarrow> u64 \<Rightarrow> i32 \<Rightarrow> mach \<Rightarrow> i32 run" where
  "map_page K a p s =
     bindR (mmap K (PAGE_ALIGN a) PAGE_SZ p (MAP_ANONYMOUS OR MAP_FIXED OR MAP_PRIVATE) (-1) 0 s)
       (\<lambda>r s. if r = -1 then fatal_dump K s else retR 0 s)"

section \<open>Reading\<close>

text \<open>
  \<^verbatim>\<open>round_read\<close> copies one chunk into the host buffer \<open>buf\<close> at \<open>offt\<close>; its result is the number of
  bytes as an \<^verbatim>\<open>int\<close>, 0 on failure, and the buffer.
\<close>

definition round_read :: "kernel \<Rightarrow> u8 list \<Rightarrow> u64 \<Rightarrow> u64 \<Rightarrow> u64 \<Rightarrow> mach \<Rightarrow> (i32 \<times> u8 list) run" where
  "round_read K buf src offt sz s =
    (if \<not> is_mapped (src + offt) s then retR (0, buf) s
     else let p = get_prot s (src + offt) in
       if p = -1 then retR (0, buf) s
       else bindR (if p AND PROT_READ = 0
                   then mprotect K (PAGE_ALIGN (src + offt)) PAGE_SZ (p OR PROT_READ) s
                   else retR 0 s)
         (\<lambda>r s. if r = -1 then retR (0, buf) s
          else case buf_put buf (unat offt) (read_bytes (mem s) (src + offt) (unat sz)) of
              None \<Rightarrow> haltR Buffer_overrun s
            | Some buf' \<Rightarrow>
                bindR (mprotect K (PAGE_ALIGN (src + offt)) PAGE_SZ p s)
                  (\<lambda>r s. if r = -1 then retR (0, buf') s else retR (ucast sz, buf') s)))"

text \<open>
  The loop of \<^verbatim>\<open>mem_read\<close>: \<open>k\<close>, \<open>sz\<close>, \<open>count\<close>, \<open>ret\<close> are the C variables \<^verbatim>\<open>_k\<close>, \<^verbatim>\<open>_sz\<close>, \<^verbatim>\<open>count\<close>,
  \<^verbatim>\<open>ret\<close>.  After the loop the source asserts that the copy equals the original and returns
  \<^verbatim>\<open>ret\<close>, the length of the last chunk.
\<close>

fun mem_read_loop :: "nat \<Rightarrow> kernel \<Rightarrow> u64 \<Rightarrow> u64 \<Rightarrow> u64 \<Rightarrow> u64 \<Rightarrow> i32 \<Rightarrow> i32 \<Rightarrow> u8 list \<Rightarrow> mach
    \<Rightarrow> (i32 \<times> u8 list) run" where
  "mem_read_loop 0 K src len k sz count ret buf s = haltR Out_of_fuel s"
| "mem_read_loop (Suc fuel) K src len k sz count ret buf s =
    (if k = len then
       (if take (unat len) buf = read_bytes (mem s) src (unat len)
        then retR (ret, buf) s else haltR Assert_failed s)
     else bindR (round_read K buf src k sz s) (\<lambda>(ret, buf) s.
       if ret = 0 then retR (count, buf) s
       else let k = k + sz;
                sz = (if PAGE_ALIGN (k + src) = PAGE_ALIGN (len + src) then len - k else PAGE_SZ)
            in mem_read_loop fuel K src len k sz (count + ret) ret buf s))"

definition mem_read :: "kernel \<Rightarrow> u8 list \<Rightarrow> u64 \<Rightarrow> u64 \<Rightarrow> mach \<Rightarrow> (i32 \<times> u8 list) run" where
  "mem_read K buf src len s =
    (if len = 0 then retR (0, buf) s
     else if PAGE_SZ - PAGE_OFFT src < len
     then mem_read_loop (unat len + 1) K src len 0 (PAGE_SZ - PAGE_OFFT src) 0 0 buf s
     else bindR (round_read K buf src 0 len s) (\<lambda>(ret, buf) s.
            if ret = 0 then retR (-1, buf) s else retR (ret, buf) s))"

section \<open>Writing\<close>

text \<open>
  The loop of \<^verbatim>\<open>mem_write\<close>; \<^verbatim>\<open>k\<close> is an \<^verbatim>\<open>int\<close> and is converted to 64 bits by sign extension.
  The test \<^verbatim>\<open>k == len\<close> stands after the chunk has been written and its page re-protected.
\<close>

fun mem_write_loop :: "nat \<Rightarrow> kernel \<Rightarrow> u64 \<Rightarrow> u8 list \<Rightarrow> u64 \<Rightarrow> i32 \<Rightarrow> mach \<Rightarrow> i32 run" where
  "mem_write_loop 0 K dst src len k s = haltR Out_of_fuel s"
| "mem_write_loop (Suc fuel) K dst src len k s =
    (let p = get_prot s (dst + scast k);
         page = PAGE_SZ - PAGE_OFFT (dst + scast k);
         sz = (if page < len - scast k then page else len - scast k)
     in if p = -1 then retR (-1) s
        else bindR (if p AND PROT_WRITE = 0
                    then mprotect K (PAGE_ALIGN (dst + scast k)) PAGE_SZ (p OR PROT_WRITE) s
                    else retR 0 s)
          (\<lambda>r s. if r = -1 then retR (-1) s
           else if length src < unat (scast k :: u64) + unat sz then haltR Buffer_overrun s
           else let s = s\<lparr>mem := write_bytes (mem s) (dst + scast k)
                             (take (unat sz) (drop (unat (scast k :: u64)) src))\<rparr>
                in bindR (mprotect K (PAGE_ALIGN (dst + scast k)) PAGE_SZ p s)
                  (\<lambda>r s. if r = -1 then retR (-1) s
                   else if scast k = len then
                     (if read_bytes (mem s) dst (unat len) = take (unat len) src
                      then retR (ucast len) s else haltR Assert_failed s)
                   else mem_write_loop fuel K dst src len (ucast (scast k + sz :: u64)) s)))"

definition mem_write :: "kernel \<Rightarrow> u64 \<Rightarrow> u8 list \<Rightarrow> u64 \<Rightarrow> mach \<Rightarrow> i32 run" where
  "mem_write K dst src len s =
    (if \<not> is_mapped_range s (PAGE_ALIGN dst) (len + PAGE_OFFT dst) then retR (-1) s
     else mem_write_loop (unat len + 2) K dst src len 0 s)"

section \<open>Page arithmetic\<close>

lemma unat_PAGE_OFFT_add: "unat (PAGE_OFFT (a + of_nat j)) = (unat a + j) mod 4096"
proof -
  have d: "(4096::nat) dvd 2 ^ 64" by simp
  have "unat (PAGE_OFFT (a + of_nat j)) = (unat a + j mod 2 ^ 64) mod 2 ^ 64 mod 4096"
    by (simp add: unat_PAGE_OFFT unat_word_ariths unat_of_nat take_bit_eq_mod)
  also have "\<dots> = (unat a + j mod 2 ^ 64) mod 4096" by (simp only: mod_mod_cancel [OF d])
  also have "\<dots> = (unat a + j) mod 4096" by (metis d mod_add_right_eq mod_mod_cancel)
  finally show ?thesis .
qed

lemma PAGE_OFFT_add_aligned:
  assumes "PAGE_OFFT a = 0"
  shows "PAGE_OFFT (a + d) = PAGE_OFFT d"
proof (rule word_unat_eq_iff [THEN iffD2])
  have "unat a mod 4096 = 0" using assms unat_PAGE_OFFT [of a] by simp
  then have "(unat a + unat d) mod 4096 = unat d mod 4096"
    by (metis add_0 mod_add_left_eq)
  then show "unat (PAGE_OFFT (a + d)) = unat (PAGE_OFFT d)"
    using unat_PAGE_OFFT_add [of a "unat d"] by (simp add: unat_PAGE_OFFT)
qed

lemma PAGE_ALIGN_add_aligned: "PAGE_OFFT a = 0 \<Longrightarrow> PAGE_ALIGN (a + d) = a + PAGE_ALIGN d"
  by (simp add: PAGE_ALIGN_eq PAGE_OFFT_add_aligned)

lemma PAGE_ALIGN_eq_0_iff: "PAGE_ALIGN d = 0 \<longleftrightarrow> unat d < 4096"
proof -
  have "PAGE_ALIGN d = 0 \<longleftrightarrow> unat d - unat d mod 4096 = 0"
    by (simp add: unat_PAGE_ALIGN flip: unat_eq_0)
  then show ?thesis by (metis Euclidean_Rings.div_eq_0_iff minus_mod_eq_mult_div mult_eq_0_iff
        zero_neq_numeral)
qed

lemma same_page_iff: "PAGE_OFFT a = 0 \<Longrightarrow> PAGE_ALIGN (a + d) = a \<longleftrightarrow> unat d < 4096"
  by (simp add: PAGE_ALIGN_add_aligned PAGE_ALIGN_eq_0_iff)

lemma unat_page_rest: "unat (PAGE_SZ - PAGE_OFFT a) = 4096 - unat (PAGE_OFFT a)"
proof -
  have "PAGE_OFFT a \<le> PAGE_SZ"
    using PAGE_OFFT_less [of a] by (simp add: word_le_nat_alt)
  then show ?thesis by (simp add: unat_sub)
qed

lemma round_up_mod: "0 < c \<Longrightarrow> (x + (c - x mod c)) mod c = (0::nat)"
  by (metis add_diff_inverse_nat div_mult_mod_eq mod_add_left_eq mod_less_divisor mod_self
      not_less_iff_gr_or_eq)

lemma unat_less_64: "unat (x :: u64) < 2 ^ 64"
  using unsigned_less [of x, where ?'a = nat] by simp

section \<open>Granted accesses\<close>

text \<open>The kernel grants the \<^verbatim>\<open>mprotect\<close> calls of this component and keeps the bytes.\<close>

definition grants :: "kernel \<Rightarrow> bool" where
  "grants K \<longleftrightarrow> mprotect_keeps_bytes K \<and> mprotect_succeeds K"

definition prot_rwx :: "kcall \<Rightarrow> bool" where
  "prot_rwx c \<longleftrightarrow> (\<exists>a. c = K_mprotect (PAGE_ALIGN a) PAGE_SZ 7)"

text \<open>
  A kernel may also refuse: \<open>page_reply\<close> is what the code sees of its answer.  A page is admitted or refused when the answer does not
  depend on what was called before, and a kernel is \<open>steady\<close> when every page is one or the other.
\<close>

definition page_reply :: "kernel \<Rightarrow> u64 \<Rightarrow> mach \<Rightarrow> i32" where
  "page_reply K a s = ucast (libc_ret (k_ret (K (ktrace s) (K_mprotect (PAGE_ALIGN a) PAGE_SZ 7) (mem s))))"

definition admitted :: "kernel \<Rightarrow> u64 \<Rightarrow> bool" where
  "admitted K a \<longleftrightarrow> (\<forall>s. page_reply K a s \<noteq> -1)"

definition refused :: "kernel \<Rightarrow> u64 \<Rightarrow> bool" where
  "refused K a \<longleftrightarrow> (\<forall>s. page_reply K a s = -1)"

definition steady :: "kernel \<Rightarrow> bool" where
  "steady K \<longleftrightarrow> mprotect_keeps_bytes K \<and> (\<forall>a. admitted K a \<or> refused K a)"

text \<open>The pages of a range are admitted.\<close>

definition ready :: "kernel \<Rightarrow> u64 \<Rightarrow> nat \<Rightarrow> bool" where
  "ready K a n \<longleftrightarrow> mprotect_keeps_bytes K \<and> (\<forall>i < n. admitted K (a + of_nat i))"

lemma mprotect_page:
  assumes "mprotect_keeps_bytes K"
  shows "mprotect K (PAGE_ALIGN a) PAGE_SZ 7 s = Inr (page_reply K a s, s\<lparr>ktrace := ktrace s @ [K_mprotect (PAGE_ALIGN a) PAGE_SZ 7]\<rparr>)"
  using assms by (simp add: mprotect_def libc_call_shape page_reply_def mprotect_keeps_bytes_def retR_def)

lemma same_page_admitted: "PAGE_ALIGN b = PAGE_ALIGN a \<Longrightarrow> admitted K b = admitted K a"
  by (simp add: admitted_def page_reply_def)

lemma steady_refused: "steady K \<Longrightarrow> refused K a \<longleftrightarrow> \<not> admitted K a"
  by (auto simp: steady_def admitted_def refused_def)

lemma steady_ready: "steady K \<Longrightarrow> ready K a n \<longleftrightarrow> (\<forall>i < n. \<not> refused K (a + of_nat i))"
  by (auto simp: ready_def steady_refused) (simp add: steady_def)

lemma ready_dest:
  assumes "ready K a n"
  shows "mprotect_keeps_bytes K" "i < n \<Longrightarrow> page_reply K (a + of_nat i) s \<noteq> -1" "m \<le> n \<Longrightarrow> ready K a m"
  using assms by (auto simp: ready_def admitted_def)

lemma grants_ready [simp]:
  assumes "grants K"
  shows "steady K" "ready K a n"
proof -
  have "page_reply K b s = 0" for b s
    using assms by (simp add: page_reply_def grants_def mprotect_succeeds_def libc_ret_def)
  then have "admitted K b" for b by (simp add: admitted_def)
  with assms show "steady K" "ready K a n" by (simp_all add: steady_def ready_def grants_def)
qed

lemma prot_rwx_page: "prot_rwx (K_mprotect (PAGE_ALIGN a) PAGE_SZ 7)"
  unfolding prot_rwx_def by blast

lemma get_prot_7: "get_prot s a = 7"
  by (simp add: get_prot_def)

lemma round_read_reply:
  assumes "mprotect_keeps_bytes K" and "unat offt + unat sz \<le> length buf"
  shows "round_read K buf src offt sz s =
    Inr ((if page_reply K (src + offt) s = -1 then 0 else ucast sz,
          take (unat offt) buf @ read_bytes (mem s) (src + offt) (unat sz) @ drop (unat offt + unat sz) buf),
         s\<lparr>ktrace := ktrace s @ [K_mprotect (PAGE_ALIGN (src + offt)) PAGE_SZ 7]\<rparr>)"
  using assms(2) by (simp add: round_read_def is_mapped_def get_prot_7 buf_put_Some mprotect_page [OF assms(1), simplified] retR_def)

text \<open>
  One turn of the loop, seen with natural numbers: \<open>o\<close> is the offset of the source in its page,
  \<open>j\<close> bytes of \<open>n\<close> have been copied.
\<close>

definition chunk :: "nat \<Rightarrow> nat \<Rightarrow> nat \<Rightarrow> nat" where
  "chunk o' n j = min (4096 - (o' + j) mod 4096) (n - j)"

lemma chunk_bounds: "j < n \<Longrightarrow> 0 < chunk o' n j \<and> chunk o' n j \<le> n - j \<and> chunk o' n j \<le> 4096"
  by (simp add: chunk_def)

lemma chunk_next_aligned:
  assumes "j < n" and "j + chunk o' n j < n"
  shows "(o' + (j + chunk o' n j)) mod 4096 = 0"
proof -
  have "chunk o' n j = 4096 - (o' + j) mod 4096" using assms by (auto simp: chunk_def min_def split: if_splits)
  with round_up_mod [of 4096 "o' + j"] show ?thesis by (simp add: add.assoc)
qed

lemma next_chunk:
  fixes src len :: u64
  assumes "j \<le> unat len" and "j < unat len \<Longrightarrow> (unat src + j) mod 4096 = 0"
  shows "j = unat len \<or>
    (if PAGE_ALIGN (of_nat j + src) = PAGE_ALIGN (len + src) then len - of_nat j else PAGE_SZ)
      = of_nat (chunk (unat src) (unat len) j)"
proof (cases "j = unat len")
  case False
  with assms have al: "(unat src + j) mod 4096 = 0" and lt: "j < unat len" by auto
  from lt have jw: "unat (of_nat j :: u64) = j"
    using unat_less_64 [of len] by (intro unat_of_nat_64) simp
  let ?a = "src + of_nat j" and ?d = "len - of_nat j"
  have off: "PAGE_OFFT ?a = 0"
    using al unat_PAGE_OFFT_add [of src j] by (simp add: word_unat_eq_iff)
  have d: "unat ?d = unat len - j"
    using lt jw by (simp add: unat_sub word_le_nat_alt)
  have "PAGE_ALIGN (len + src) = PAGE_ALIGN (?a + ?d)" by (simp add: algebra_simps)
  moreover have "PAGE_ALIGN (of_nat j + src) = ?a"
    using off by (simp add: PAGE_ALIGN_eq add.commute)
  ultimately have same: "PAGE_ALIGN (of_nat j + src) = PAGE_ALIGN (len + src) \<longleftrightarrow> unat ?d < 4096"
    using same_page_iff [OF off, of ?d] by auto
  have "?d = of_nat (unat len - j)" by (simp flip: d)
  with same d al show ?thesis by (auto simp: chunk_def)
qed simp

lemma chunk_word:
  assumes "j < n" and "n < 2 ^ 64"
  shows "unat (of_nat (chunk b n j) :: u64) = chunk b n j"
    and "unat (ucast (of_nat (chunk b n j) :: u64) :: i32) = chunk b n j"
proof -
  show u: "unat (of_nat (chunk b n j) :: u64) = chunk b n j"
    using chunk_bounds [OF assms(1), of b] assms by (intro unat_of_nat_64) linarith
  have "chunk b n j < 2 ^ 32" using chunk_bounds [OF assms(1), of b] by simp
  then show "unat (ucast (of_nat (chunk b n j) :: u64) :: i32) = chunk b n j"
    using u by (simp add: unsigned_ucast_eq take_bit_nat_eq_self)
qed

lemma chunk_ret_nonzero:
  assumes "j < n" and "n < 2 ^ 64"
  shows "ucast (of_nat (chunk b n j) :: u64) \<noteq> (0 :: i32)"
  using chunk_word(2) [OF assms, of b] chunk_bounds [OF assms(1), of b]
  by (metis less_numeral_extra(3) unat_0)

lemma ucast_of_nat_i32: "ucast (of_nat c :: u64) = (of_nat c :: i32)"
  by (rule bit_word_eqI) (simp add: bit_simps)

text \<open>The size of the chunk that follows in the loop of \<^verbatim>\<open>mem_read\<close>, as the code computes it from the offset reached.\<close>

abbreviation read_size :: "u64 \<Rightarrow> u64 \<Rightarrow> nat \<Rightarrow> u64" where
  "read_size src len j \<equiv> (if PAGE_ALIGN (of_nat j + src) = PAGE_ALIGN (len + src) then len - of_nat j else PAGE_SZ)"

lemma read_size_chunk:
  assumes "j < unat len" and "j + chunk (unat src) (unat len) j < unat len"
  shows "read_size src len (j + chunk (unat src) (unat len) j) = of_nat (chunk (unat src) (unat len) (j + chunk (unat src) (unat len) j))"
  using next_chunk [of "j + chunk (unat src) (unat len) j" len src] chunk_next_aligned [OF assms] assms by auto

text \<open>One turn of that loop.\<close>

lemma mem_read_loop_turn:
  assumes K: "mprotect_keeps_bytes K" and n: "n = unat len" "n \<le> length buf" and lt: "j < n" and c: "c = chunk (unat src) n j"
    and b: "b = take j buf @ read_bytes (mem s) (src + of_nat j) c @ drop (j + c) buf"
    and t: "t = s\<lparr>ktrace := ktrace s @ [K_mprotect (PAGE_ALIGN (src + of_nat j)) PAGE_SZ 7]\<rparr>"
  shows "mem_read_loop (Suc fuel) K src len (of_nat j) (of_nat c) count ret buf s =
    (if page_reply K (src + of_nat j) s = -1 then retR (count, b) t
     else mem_read_loop fuel K src len (of_nat (j + c)) (read_size src len (j + c)) (count + of_nat c) (of_nat c) b t)"
proof -
  have n64: "n < 2 ^ 64" using unat_less_64 [of len] n(1) by simp
  have jw: "unat (of_nat j :: u64) = j" using lt n64 by (intro unat_of_nat_64) simp
  have "j + c \<le> length buf" using n(2) chunk_bounds [OF lt, of "unat src"] lt c by linarith
  then have "round_read K buf src (of_nat j) (of_nat c) s = Inr ((if page_reply K (src + of_nat j) s = -1 then 0 else of_nat c, b), t)"
    using round_read_reply [OF K, of "of_nat j" "of_nat c" buf src s] chunk_word(1) [OF lt n64, of "unat src"]
    by (simp add: jw c b t ucast_of_nat_i32)
  moreover have "of_nat c \<noteq> (0 :: i32)" unfolding c ucast_of_nat_i32 [symmetric] by (rule chunk_ret_nonzero [OF lt n64])
  moreover have "(of_nat j :: u64) \<noteq> len" using lt n(1) jw by auto
  moreover have "of_nat j + of_nat c = (of_nat (j + c) :: u64)" by simp
  ultimately show ?thesis by (simp only: mem_read_loop.simps(2) bindR_Inr prod.case Let_def if_False) simp
qed

lemma mem_read_loop_granted:
  assumes K: "ready K src n" and n: "n = unat len" "n \<le> length buf"
    and j: "j \<le> n" "j < n \<Longrightarrow> sz = of_nat (chunk (unat src) n j)"
    and copied: "take j buf = read_bytes (mem s) src j" and fuel: "n - j < fuel"
    and ret: "j = n \<Longrightarrow> ret = last_ret"
    and whole: "j < n \<Longrightarrow> (unat src + j) mod 4096 = 0 \<or> j + chunk (unat src) n j < n"
    and last: "\<And>i. i < n \<Longrightarrow> (unat src + i) mod 4096 = 0 \<Longrightarrow> i + chunk (unat src) n i = n \<Longrightarrow>
                 last_ret = of_nat (chunk (unat src) n i)"
  shows "\<exists>tr. mem_read_loop fuel K src len (of_nat j) sz count ret buf s =
     Inr ((last_ret, read_bytes (mem s) src n @ drop n buf), s\<lparr>ktrace := ktrace s @ tr\<rparr>)
     \<and> list_all prot_rwx tr"
  using j copied fuel ret n(2) whole
proof (induction fuel arbitrary: j sz count ret buf s)
  case (Suc fuel)
  show ?case
  proof (cases "j = n")
    case True
    have "buf = read_bytes (mem s) src n @ drop n buf"
      using Suc.prems(3) True by (metis append_take_drop_id)
    moreover have "(of_nat j :: u64) = len" using True n(1) by simp
    ultimately show ?thesis
      using Suc.prems(3,5) True n(1) by (auto intro!: exI [of _ "[]"])
  next
    case False
    define c where "c = chunk (unat src) n j"
    let ?call = "K_mprotect (PAGE_ALIGN (src + of_nat j)) PAGE_SZ 7"
    let ?buf = "take j buf @ read_bytes (mem s) (src + of_nat j) c @ drop (j + c) buf" and ?s = "s\<lparr>ktrace := ktrace s @ [?call]\<rparr>"
    from False Suc.prems(1) have lt: "j < n" by simp
    have cb: "0 < c" "j + c \<le> n" using chunk_bounds [OF lt, of "unat src"] lt unfolding c_def by linarith+
    have "\<exists>tr. mem_read_loop fuel K src len (of_nat (j + c)) (read_size src len (j + c)) (count + of_nat c) (of_nat c) ?buf ?s
       = Inr ((last_ret, read_bytes (mem ?s) src n @ drop n ?buf), ?s\<lparr>ktrace := ktrace ?s @ tr\<rparr>) \<and> list_all prot_rwx tr"
    proof (rule Suc.IH)
      show "read_size src len (j + c) = of_nat (chunk (unat src) n (j + c))" if "j + c < n"
        using read_size_chunk [of j len src] lt that unfolding c_def n(1) by blast
      show "take (j + c) ?buf = read_bytes (mem ?s) src (j + c)"
        using Suc.prems(3,6) lt cb by (simp add: read_bytes_append)
      show "of_nat c = last_ret" if "j + c = n"
        using Suc.prems(7) [OF lt] last [OF lt] that unfolding c_def by simp
      show "(unat src + (j + c)) mod 4096 = 0 \<or> j + c + chunk (unat src) n (j + c) < n" if "j + c < n"
        using chunk_next_aligned [OF lt] that unfolding c_def by simp
    qed (use cb Suc.prems(4,6) lt in \<open>simp_all, linarith?\<close>)
    moreover have "drop n ?buf = drop n buf" using Suc.prems(6) cb by simp
    moreover have ok: "page_reply K (src + of_nat j) s \<noteq> -1" using ready_dest(2) [OF K lt] .
    moreover have "prot_rwx ?call" by (rule prot_rwx_page)
    ultimately show ?thesis
      unfolding Suc.prems(2) [OF lt] c_def [symmetric] mem_read_loop_turn [OF _ n(1) Suc.prems(6) lt c_def refl refl, OF ready_dest(1) [OF K]] if_not_P [OF ok]
      by (auto intro!: exI [of _ "?call # _"])
  qed
qed simp

text \<open>The size of the last chunk of a read, the value \<^verbatim>\<open>mem_read\<close> returns.\<close>

definition last_chunk :: "nat \<Rightarrow> nat \<Rightarrow> nat" where
  "last_chunk b n = (if b + n \<le> 4096 then n else (b + n - 1) mod 4096 + 1)"

lemma last_chunk_bounds: "0 < n \<Longrightarrow> 0 < last_chunk b n \<and> last_chunk b n \<le> 4096"
  by (auto simp: last_chunk_def Suc_le_eq)

lemma last_chunk_aligned:
  assumes "i < n" and "(a + i) mod 4096 = 0" and "i + chunk a n i = n" and "4096 < a mod 4096 + n"
  shows "chunk a n i = last_chunk (a mod 4096) n"
proof -
  from assms(2,3) have le: "n - i \<le> 4096" and c: "chunk a n i = n - i"
    by (auto simp: chunk_def)
  have "(a mod 4096 + n - 1) mod 4096 = (a + n - 1) mod 4096"
    using assms(1) by (metis add_diff_assoc less_nat_zero_code less_one linorder_not_le mod_add_left_eq)
  also have "\<dots> = ((a + i) + (n - i - 1)) mod 4096" using assms(1) by simp
  also have "\<dots> = (n - i - 1) mod 4096" using assms(2) by (metis add_0 mod_add_left_eq)
  also have "\<dots> = n - i - 1" using le assms(1) by simp
  finally show ?thesis using assms(1,4) c by (simp add: last_chunk_def)
qed

lemma page_rest_less: "PAGE_SZ - PAGE_OFFT src < len \<longleftrightarrow> 4096 < unat src mod 4096 + unat len"
  by (simp add: word_less_nat_alt unat_page_rest [simplified] unat_PAGE_OFFT less_diff_conv2) linarith

lemma first_chunk:
  assumes "4096 < unat src mod 4096 + unat len"
  shows "PAGE_SZ - PAGE_OFFT src = of_nat (chunk (unat src) (unat len) 0)"
proof -
  have "unat (PAGE_SZ - PAGE_OFFT src) = chunk (unat src) (unat len) 0"
    using assms by (simp add: unat_page_rest [simplified] unat_PAGE_OFFT chunk_def)
  then show ?thesis by (metis of_nat_unat ucast_id)
qed

lemma mem_read_granted:
  assumes K: "ready K src (unat len)" and n: "0 < unat len" "unat len \<le> length buf"
  shows "\<exists>tr. mem_read K buf src len s =
     Inr ((of_nat (last_chunk (unat src mod 4096) (unat len)),
           read_bytes (mem s) src (unat len) @ drop (unat len) buf), s\<lparr>ktrace := ktrace s @ tr\<rparr>)
     \<and> list_all prot_rwx tr"
proof -
  let ?n = "unat len" and ?b = "unat src mod 4096"
  have nz: "len \<noteq> 0" using n(1) by auto
  note rest = page_rest_less [of src len]
  show ?thesis
  proof (cases "4096 < ?b + ?n")
    case False
    then have small: "?n \<le> 4096" by simp
    have u: "(ucast len :: i32) = of_nat ?n"
      by simp
    have "unat (ucast len :: i32) = ?n"
      using small by (simp add: unsigned_ucast_eq take_bit_nat_eq_self)
    then have "(ucast len :: i32) \<noteq> 0" using n(1) by auto
    moreover have "round_read K buf src 0 len s = Inr ((ucast len, read_bytes (mem s) src ?n @ drop ?n buf),
        s\<lparr>ktrace := ktrace s @ [K_mprotect (PAGE_ALIGN src) PAGE_SZ 7]\<rparr>)"
      using round_read_reply [OF ready_dest(1) [OF K], of 0 len buf src s] ready_dest(2) [OF K n(1), of s] n(2) by simp
    ultimately have mr: "mem_read K buf src len s = Inr ((ucast len, read_bytes (mem s) src ?n @ drop ?n buf),
        s\<lparr>ktrace := ktrace s @ [K_mprotect (PAGE_ALIGN src) PAGE_SZ 7]\<rparr>)"
      using False nz rest by (simp add: mem_read_def retR_def)
    have lc: "last_chunk ?b ?n = ?n" using False by (simp add: last_chunk_def)
    show ?thesis unfolding mr lc u [symmetric]
      using prot_rwx_page [of src] by (intro exI [of _ "[K_mprotect (PAGE_ALIGN src) PAGE_SZ 7]"] conjI refl) (simp only: list.pred_inject simp_thms)
  next
    case True
    note first = first_chunk [OF True]
    have "\<exists>tr. mem_read_loop (?n + 1) K src len (of_nat 0) (PAGE_SZ - PAGE_OFFT src) 0 0 buf s =
      Inr ((of_nat (last_chunk ?b ?n), read_bytes (mem s) src ?n @ drop ?n buf),
           s\<lparr>ktrace := ktrace s @ tr\<rparr>) \<and> list_all prot_rwx tr"
    proof (rule mem_read_loop_granted [OF K refl n(2)])
      show "(of_nat (last_chunk ?b ?n) :: i32) = of_nat (chunk (unat src) ?n i)"
        if "i < ?n" "(unat src + i) mod 4096 = 0" "i + chunk (unat src) ?n i = ?n" for i
        using last_chunk_aligned [OF that True] by simp
    qed (use True n first in \<open>auto simp: chunk_def\<close>)
    with True nz rest show ?thesis by (simp add: mem_read_def)
  qed
qed

text \<open>
  The write loop.  \<open>k\<close> is a 32-bit \<^verbatim>\<open>int\<close>, so the length has to stay below $2^{31}$ for the
  sign extension to give the offset.
\<close>

lemma scast_of_nat: "j < 2 ^ 31 \<Longrightarrow> (scast (of_nat j :: i32) :: u64) = of_nat j"
proof (rule bit_word_eqI)
  fix i assume j: "j < 2 ^ 31" and i: "i < LENGTH(64)"
  have high: "\<not> bit j k" if "31 \<le> k" for k
    using j power_increasing [OF that, of "2 :: nat"] by (simp add: bit_iff_odd div_less)
  show "bit (scast (of_nat j :: i32) :: u64) i = bit (of_nat j :: u64) i"
    using high [of i] high [of "min 31 i"] i by (auto simp: bit_simps min_def)
qed

lemma write_chunk:
  fixes dst len :: u64
  assumes "j \<le> unat len"
  shows "(if PAGE_SZ - PAGE_OFFT (dst + of_nat j) < len - of_nat j
          then PAGE_SZ - PAGE_OFFT (dst + of_nat j) else len - of_nat j)
        = of_nat (chunk (unat dst) (unat len) j)"
proof -
  have jw: "unat (of_nat j :: u64) = j"
    using assms unat_less_64 [of len] by (intro unat_of_nat_64) simp
  have d: "unat (len - of_nat j) = unat len - j"
    using assms jw by (simp add: unat_sub word_le_nat_alt)
  have p: "unat (PAGE_SZ - PAGE_OFFT (dst + of_nat j)) = 4096 - (unat dst + j) mod 4096"
    by (simp only: unat_page_rest unat_PAGE_OFFT_add)
  have "of_nat (min (unat x) (unat y)) = (if x < y then x else y)" for x y :: u64
    by (simp add: min_def word_less_nat_alt word_le_nat_alt)
  from this [of "PAGE_SZ - PAGE_OFFT (dst + of_nat j)" "len - of_nat j"]
  show ?thesis by (simp only: d p chunk_def)
qed

text \<open>One turn of the loop: it ends behind the last byte, with the comparison of the assertion.\<close>

lemma mem_write_loop_turn:
  assumes K: "mprotect_keeps_bytes K" and n: "n = unat len" "n < 2 ^ 31" "n \<le> length src" and j: "j \<le> n" and ms: "mem s = write_bytes m dst (take j src)"
    and c: "c = chunk (unat dst) n j"
    and u: "u = s\<lparr>mem := write_bytes m dst (take (j + c) src)\<rparr>" and t: "t = s\<lparr>mem := write_bytes m dst (take (j + c) src), ktrace := ktrace s @ [K_mprotect (PAGE_ALIGN (dst + of_nat j)) PAGE_SZ 7]\<rparr>"
  shows "mem_write_loop (Suc fuel) K dst src len (of_nat j) s =
    (if page_reply K (dst + of_nat j) u = -1 then retR (-1) t
     else if of_nat j = len then (if read_bytes (mem t) dst (unat len) = take (unat len) src then retR (ucast len) t else haltR Assert_failed t)
     else mem_write_loop fuel K dst src len (of_nat (j + c)) t)"
proof -
  have sc: "(scast (of_nat j :: i32) :: u64) = of_nat j" using j n(2) by (intro scast_of_nat) simp
  have cn: "j + c \<le> n" using j unfolding c chunk_def by linarith
  have w: "unat (of_nat j :: u64) = j" "unat (of_nat c :: u64) = c" using cn n(2) by (intro unat_of_nat_64; simp)+
  have fits: "\<not> length src < j + c" using cn n(3) by linarith
  have wr: "write_bytes (mem s) (dst + of_nat j) (take c (drop j src)) = write_bytes m dst (take (j + c) src)"
    using write_bytes_append [of "take j src" "take c (drop j src)" m dst] fits cn n(2) unfolding ms take_add by simp
  have k: "ucast (of_nat j + of_nat c :: u64) = (of_nat (j + c) :: i32)"
    by (simp only: of_nat_add [symmetric] ucast_of_nat_i32)
  show ?thesis
    unfolding mem_write_loop.simps(2) Let_def sc write_chunk [of j len dst, folded n(1), OF j, folded c] w get_prot_7 t u wr [symmetric] k
    using fits by (simp add: mprotect_page [OF K, simplified])
qed

lemma mem_write_loop_granted:
  assumes K: "ready K dst (Suc n)" and n: "n = unat len" "n < 2 ^ 31" "n \<le> length src"
    and j: "j \<le> n" and written: "mem s = write_bytes m dst (take j src)" and fuel: "n - j < fuel"
  shows "\<exists>tr. mem_write_loop fuel K dst src len (of_nat j) s =
     Inr (ucast len, s\<lparr>mem := write_bytes m dst (take n src), ktrace := ktrace s @ tr\<rparr>)
     \<and> list_all prot_rwx tr \<and> tr \<noteq> [] \<and> last tr = K_mprotect (PAGE_ALIGN (dst + len)) PAGE_SZ 7"
  using j written fuel
proof (induction fuel arbitrary: j s)
  case (Suc fuel)
  define c where "c = chunk (unat dst) n j"
  let ?call = "K_mprotect (PAGE_ALIGN (dst + of_nat j)) PAGE_SZ 7"
  let ?s = "s\<lparr>mem := write_bytes m dst (take (j + c) src), ktrace := ktrace s @ [?call]\<rparr>"
  have ok: "page_reply K (dst + of_nat j) u \<noteq> -1" for u using ready_dest(2) [OF K] Suc.prems(1) by simp
  note step = mem_write_loop_turn [OF ready_dest(1) [OF K] n Suc.prems(1,2) c_def refl refl, of fuel, unfolded if_not_P [OF ok]]
  have rwx: "prot_rwx ?call" by (rule prot_rwx_page)
  show ?case
  proof (cases "j = n")
    case True
    then have "(of_nat j :: u64) = len" and "c = 0" using n(1) by (simp_all add: c_def chunk_def)
    moreover have "read_bytes (write_bytes m dst (take n src)) dst n = take n src"
      using read_write_same [of "take n src" m dst] n(2,3) by simp
    ultimately show ?thesis
      using True n(1) step rwx by (auto simp: retR_def)
  next
    case False
    with Suc.prems(1) have lt: "j < n" by simp
    have ne: "(of_nat j :: u64) \<noteq> len" using lt n(1,2) unat_of_nat_64 [of j] by auto
    have "j + c \<le> n" "n - (j + c) < fuel"
      using chunk_bounds [OF lt, of "unat dst"] Suc.prems(3) lt unfolding c_def by linarith+
    then obtain tr where "mem_write_loop fuel K dst src len (of_nat (j + c)) ?s =
        Inr (ucast len, ?s\<lparr>mem := write_bytes m dst (take n src), ktrace := ktrace ?s @ tr\<rparr>)"
      "list_all prot_rwx tr" "tr \<noteq> []" "last tr = K_mprotect (PAGE_ALIGN (dst + len)) PAGE_SZ 7"
      using Suc.IH [of "j + c" ?s] by auto
    with ne rwx show ?thesis unfolding step by (auto intro!: exI [of _ "?call # tr"])
  qed
qed simp

lemma is_mapped_range_True [simp]: "is_mapped_range s b rng"
  by (simp add: is_mapped_range_def is_mapped_def list_all_iff)

lemma mem_write_granted:
  assumes K: "ready K dst (Suc (unat len))" and n: "unat len < 2 ^ 31" "unat len \<le> length src"
  shows "\<exists>tr. mem_write K dst src len s =
     Inr (ucast len, s\<lparr>mem := write_bytes (mem s) dst (take (unat len) src), ktrace := ktrace s @ tr\<rparr>)
     \<and> list_all prot_rwx tr \<and> tr \<noteq> [] \<and> last tr = K_mprotect (PAGE_ALIGN (dst + len)) PAGE_SZ 7"
  using mem_write_loop_granted [OF K refl n, of 0 s "mem s" "unat len + 2"]
  by (simp add: mem_write_def)

section \<open>Refused accesses\<close>

lemma chunk_same_page:
  assumes "j \<le> i" "i < j + chunk (unat a) n j"
  shows "PAGE_ALIGN (a + of_nat i) = PAGE_ALIGN (a + of_nat j :: u64)"
proof -
  let ?b = "a + of_nat j" and ?d = "i - j"
  have d: "?d < 4096 - (unat a + j) mod 4096" using assms by (auto simp: chunk_def)
  have off: "unat (PAGE_OFFT ?b) = (unat a + j) mod 4096" by (rule unat_PAGE_OFFT_add)
  have "?d < 4096" using d by linarith
  then have u: "unat (of_nat ?d :: u64) = ?d" by (intro unat_of_nat_64) simp
  have "a + of_nat i = PAGE_ALIGN ?b + (PAGE_OFFT ?b + of_nat ?d)"
    using assms(1) by (simp add: PAGE_ALIGN_eq of_nat_diff)
  moreover have "unat (PAGE_OFFT ?b + of_nat ?d) < 4096"
    using d off u by (subst unat_word_ariths(1)) (simp add: mod_less)
  moreover have "PAGE_OFFT (PAGE_ALIGN ?b) = 0" by simp
  ultimately show ?thesis using same_page_iff by metis
qed

text \<open>
  A read of a range whose first refused page begins at offset \<open>i\<close> (0 when it is the page of \<open>src\<close>): the copy stops there, after the
  bytes of that page, and the result is the number of bytes in front of it.
\<close>

definition first_refused :: "kernel \<Rightarrow> u64 \<Rightarrow> nat \<Rightarrow> nat \<Rightarrow> bool" where
  "first_refused K src n i \<longleftrightarrow> i < n \<and> (i = 0 \<or> (unat src + i) mod 4096 = 0) \<and> (\<forall>k < i. admitted K (src + of_nat k)) \<and> refused K (src + of_nat i)"

lemma chunk_stops:
  assumes "j < i" "i < n" "(o' + i) mod 4096 = 0"
  shows "j + chunk o' n j \<le> i"
proof -
  have "4096 - (o' + j) mod 4096 \<le> i - j"
  proof (rule ccontr)
    assume "\<not> 4096 - (o' + j) mod 4096 \<le> i - j"
    then have lt: "(o' + j) mod 4096 + (i - j) < 4096" by linarith
    have "o' + i = (o' + j) + (i - j)" using assms(1) by simp
    then have "(o' + i) mod 4096 = ((o' + j) mod 4096 + (i - j)) mod 4096" by (simp only: mod_add_left_eq)
    also have "\<dots> = (o' + j) mod 4096 + (i - j)" using lt by simp
    finally show False using assms(1,3) by simp
  qed
  then show ?thesis using assms(1) by (simp add: chunk_def)
qed

lemma mem_read_loop_refused:
  assumes K: "mprotect_keeps_bytes K" and n: "n = unat len" "n \<le> length buf" and fr: "first_refused K src n i"
    and j: "j \<le> i" "sz = of_nat (chunk (unat src) n j)" "count = of_nat j"
    and copied: "take j buf = read_bytes (mem s) src j" and fuel: "i - j < fuel"
  shows "\<exists>tr. mem_read_loop fuel K src len (of_nat j) sz count ret buf s =
     Inr ((of_nat i, read_bytes (mem s) src (i + chunk (unat src) n i) @ drop (i + chunk (unat src) n i) buf), s\<lparr>ktrace := ktrace s @ tr\<rparr>)"
  using j copied fuel n(2)
proof (induction fuel arbitrary: j sz count ret buf s)
  case (Suc fuel)
  define c where "c = chunk (unat src) n j"
  let ?call = "K_mprotect (PAGE_ALIGN (src + of_nat j)) PAGE_SZ 7"
  let ?buf = "take j buf @ read_bytes (mem s) (src + of_nat j) c @ drop (j + c) buf" and ?s = "s\<lparr>ktrace := ktrace s @ [?call]\<rparr>"
  have f: "i < n" "i = 0 \<or> (unat src + i) mod 4096 = 0" "\<forall>k < i. admitted K (src + of_nat k)" "refused K (src + of_nat i)"
    using fr by (simp_all add: first_refused_def)
  have lt: "j < n" using Suc.prems(1) f(1) by simp
  have cb: "0 < c" "j + c \<le> n" using chunk_bounds [OF lt, of "unat src"] lt unfolding c_def by linarith+
  have copy: "take (j + c) ?buf = read_bytes (mem ?s) src (j + c)" using Suc.prems(4,6) lt cb by (simp add: read_bytes_append)
  note step = mem_read_loop_turn [OF K n(1) Suc.prems(6) lt c_def refl refl, of fuel count ret]
  show ?case
  proof (cases "j = i")
    case True
    then have "page_reply K (src + of_nat j) s = -1" using f(4) by (simp add: refused_def)
    moreover have "?buf = read_bytes (mem s) src (j + c) @ drop (j + c) buf" using Suc.prems(4) by (simp add: read_bytes_append)
    ultimately show ?thesis
      using step True unfolding Suc.prems(2,3) c_def [symmetric] by (intro exI [of _ "[?call]"]) (simp add: retR_def c_def)
  next
    case False
    with Suc.prems(1) have ji: "j < i" by simp
    then have "page_reply K (src + of_nat j) s \<noteq> -1" using f(3) by (simp add: admitted_def)
    moreover have le: "j + c \<le> i" unfolding c_def by (rule chunk_stops [OF ji f(1)]) (use f(2) ji in simp)
    moreover have "\<exists>tr. mem_read_loop fuel K src len (of_nat (j + c)) (read_size src len (j + c)) (count + of_nat c) (of_nat c) ?buf ?s =
       Inr ((of_nat i, read_bytes (mem ?s) src (i + chunk (unat src) n i) @ drop (i + chunk (unat src) n i) ?buf), ?s\<lparr>ktrace := ktrace ?s @ tr\<rparr>)"
    proof (rule Suc.IH [OF le])
      show "read_size src len (j + c) = of_nat (chunk (unat src) n (j + c))"
        using read_size_chunk [of j len src] lt le f(1) unfolding c_def n(1) by simp
    qed (use copy cb le Suc.prems lt in \<open>simp_all, linarith?\<close>)
    moreover have "drop (i + chunk (unat src) n i) ?buf = drop (i + chunk (unat src) n i) buf" using le Suc.prems(6) cb by simp
    ultimately show ?thesis
      using step unfolding Suc.prems(2) c_def [symmetric] by (auto intro!: exI [of _ "?call # _"])
  qed
qed simp

text \<open>The outcome of a read: \<open>-1\<close> when a range inside one page is refused, a short count when a longer one is.\<close>

lemma mem_read_refused:
  assumes K: "mprotect_keeps_bytes K" and n: "unat len \<le> length buf" and fr: "first_refused K src (unat len) i"
  defines "m \<equiv> i + chunk (unat src) (unat len) i"
  shows "\<exists>tr. mem_read K buf src len s =
     Inr ((if unat src mod 4096 + unat len \<le> 4096 then -1 else of_nat i, read_bytes (mem s) src m @ drop m buf), s\<lparr>ktrace := ktrace s @ tr\<rparr>)"
proof (cases "unat src mod 4096 + unat len \<le> 4096")
  case True
  have i: "i = 0"
  proof (rule ccontr)
    assume "i \<noteq> 0"
    then have "0 + chunk (unat src) (unat len) 0 \<le> i" using fr by (intro chunk_stops) (auto simp: first_refused_def)
    moreover have "chunk (unat src) (unat len) 0 = unat len" using True by (auto simp: chunk_def)
    ultimately show False using fr by (simp add: first_refused_def)
  qed
  moreover have "page_reply K src s = -1" "len \<noteq> 0" using fr i by (auto simp: first_refused_def refused_def)
  moreover have "m = unat len" using True by (auto simp: m_def i chunk_def)
  moreover have "\<not> PAGE_SZ - PAGE_OFFT src < len" using True page_rest_less [of src len] by simp
  ultimately show ?thesis
    using True round_read_reply [OF K, of 0 len buf src s] n by (auto simp: mem_read_def retR_def)
next
  case False
  then have long: "4096 < unat src mod 4096 + unat len" by simp
  have "i - 0 < unat len + 1" "take 0 buf = read_bytes (mem s) src 0" using fr by (simp_all add: first_refused_def)
  then have "\<exists>tr. mem_read_loop (unat len + 1) K src len (of_nat 0) (PAGE_SZ - PAGE_OFFT src) 0 0 buf s =
      Inr ((of_nat i, read_bytes (mem s) src m @ drop m buf), s\<lparr>ktrace := ktrace s @ tr\<rparr>)"
    unfolding m_def using first_chunk [OF long] by (intro mem_read_loop_refused [OF K refl n fr]) simp_all
  moreover have "len \<noteq> 0" using fr by (auto simp: first_refused_def)
  ultimately show ?thesis using False long page_rest_less [of src len] by (simp add: mem_read_def del: mem_read_loop.simps)
qed

lemma first_refused_exists:
  assumes "steady K" "\<not> (\<forall>i < n. admitted K (src + of_nat i))"
  shows "\<exists>i. first_refused K src n i"
proof -
  define i where "i = (LEAST i. i < n \<and> \<not> admitted K (src + of_nat i))"
  have i: "i < n" "\<not> admitted K (src + of_nat i)" and least: "\<And>k. k < i \<Longrightarrow> k < n \<Longrightarrow> admitted K (src + of_nat k)"
    using assms(2) LeastI_ex [of "\<lambda>i. i < n \<and> \<not> admitted K (src + of_nat i)"] not_less_Least unfolding i_def by blast+
  have "(unat src + i) mod 4096 = 0" if "0 < i"
  proof (rule ccontr)
    assume nz: "(unat src + i) mod 4096 \<noteq> 0"
    have "Suc ((unat src + (i - 1)) mod 4096) < 4096" using nz that mod_Suc [of "unat src + (i - 1)" 4096] by (auto split: if_splits)
    then have "i < (i - 1) + chunk (unat src) n (i - 1)" using that i(1) by (simp add: chunk_def)
    then have "PAGE_ALIGN (src + of_nat i) = PAGE_ALIGN (src + of_nat (i - 1))" by (intro chunk_same_page) simp_all
    moreover have "i - 1 < i" "i - 1 < n" using that i(1) by linarith+
    ultimately show False using same_page_admitted [of "src + of_nat i"] i(2) least [of "i - 1"] by blast
  qed
  then have "i = 0 \<or> (unat src + i) mod 4096 = 0" by (cases "i = 0") simp_all
  then show ?thesis using i least steady_refused [OF assms(1)] by (intro exI [of _ i]) (simp add: first_refused_def)
qed

text \<open>Under a steady kernel a read always returns, changes nothing but the trace, and fills the buffer if the range is admitted.\<close>

lemma mem_read_steady:
  assumes K: "steady K" and n: "0 < unat len" "unat len \<le> length buf"
  shows "\<exists>r b tr. mem_read K buf src len s = Inr ((r, b), s\<lparr>ktrace := ktrace s @ tr\<rparr>)"
proof (cases "ready K src (unat len)")
  case False
  have keeps: "mprotect_keeps_bytes K" using K by (simp add: steady_def)
  obtain i where "first_refused K src (unat len) i" using first_refused_exists [OF K, of "unat len" src] False keeps by (auto simp: ready_def)
  from mem_read_refused [OF keeps n(2) this, of s] show ?thesis by blast
next
  case True
  then show ?thesis using mem_read_granted [OF True n] by blast
qed

text \<open>
  A write to a range with a refused page reports \<open>-1\<close>, with a prefix of the bytes stored: the protection is restored after the bytes
  of a page are written.
\<close>

lemma mem_write_loop_refused:
  assumes K: "steady K" and n: "n = unat len" "n < 2 ^ 31" "n \<le> length src"
    and j: "j \<le> i" and i: "i \<le> n" "refused K (dst + of_nat i)" and written: "mem s = write_bytes m dst (take j src)" and fuel: "n - j < fuel"
  shows "\<exists>k tr. mem_write_loop fuel K dst src len (of_nat j) s = Inr (-1, s\<lparr>mem := write_bytes m dst (take k src), ktrace := ktrace s @ tr\<rparr>) \<and> k \<le> n"
  using j written fuel
proof (induction fuel arbitrary: j s)
  case (Suc fuel)
  define c where "c = chunk (unat dst) n j"
  let ?call = "K_mprotect (PAGE_ALIGN (dst + of_nat j)) PAGE_SZ 7"
  let ?u = "s\<lparr>mem := write_bytes m dst (take (j + c) src)\<rparr>"
  let ?s = "s\<lparr>mem := write_bytes m dst (take (j + c) src), ktrace := ktrace s @ [?call]\<rparr>"
  have jn: "j \<le> n" using Suc.prems(1) i(1) by simp
  have cn: "j + c \<le> n" using jn by (simp add: c_def chunk_def)
  have keeps: "mprotect_keeps_bytes K" using K by (simp add: steady_def)
  note step = mem_write_loop_turn [OF keeps n jn Suc.prems(2) c_def refl refl, of fuel]
  show ?case
  proof (cases "page_reply K (dst + of_nat j) ?u = -1")
    case True
    then show ?thesis using step cn by (intro exI [of _ "j + c"] exI [of _ "[?call]"]) (simp add: retR_def)
  next
    case False
    then have ad: "admitted K (dst + of_nat j)" using K steady_refused [OF K] by (auto simp: refused_def)
    have "\<not> (i < j + c \<or> i = j)"
      using chunk_same_page [OF Suc.prems(1), of dst n] same_page_admitted [of "dst + of_nat i" "dst + of_nat j" K] ad i(2) steady_refused [OF K]
      unfolding c_def by auto
    then have ij: "j + c \<le> i" "j < i" using Suc.prems(1) by simp_all
    have ne: "(of_nat j :: u64) \<noteq> len" using ij(2) i(1) n(1,2) unat_of_nat_64 [of j] by auto
    have "0 < c" using chunk_bounds [of j n "unat dst"] ij(2) i(1) by (simp add: c_def)
    then have "n - (j + c) < fuel" using Suc.prems(3) ij i(1) by linarith
    then obtain k tr where "mem_write_loop fuel K dst src len (of_nat (j + c)) ?s =
        Inr (-1, ?s\<lparr>mem := write_bytes m dst (take k src), ktrace := ktrace ?s @ tr\<rparr>)" "k \<le> n"
      using Suc.IH [OF ij(1), of ?s] by auto
    then show ?thesis using step False ne by (intro exI [of _ k] exI [of _ "?call # tr"]) simp
  qed
qed simp

lemma mem_write_refused:
  assumes "steady K" and "unat len < 2 ^ 31" "unat len \<le> length src" and "\<not> ready K dst (Suc (unat len))"
  shows "\<exists>k tr. mem_write K dst src len s = Inr (-1, s\<lparr>mem := write_bytes (mem s) dst (take k src), ktrace := ktrace s @ tr\<rparr>) \<and> k \<le> unat len"
proof -
  obtain i where "i \<le> unat len" "refused K (dst + of_nat i)" using assms(4) steady_ready [OF assms(1)] less_Suc_eq_le by blast
  from mem_write_loop_refused [OF assms(1) refl assms(2,3) le0 this, of s "mem s" "unat len + 2"] show ?thesis by (simp add: mem_write_def del: mem_write_loop.simps)
qed

section \<open>The contract of block access\<close>

text \<open>
  What the engine relies on when it patches guest code: when its pages are admitted, a block read
  fills the host buffer, a block write changes exactly the addressed bytes, neither reports the
  failure value \<open>-1\<close>, and beyond the trace of kernel calls nothing else of the process changes.
  The client lemmas, proved once here: installing a patch keeps the overwritten bytes, and
  writing the kept bytes back undoes it.
\<close>

locale block_memory =
  fixes ok :: "kernel \<Rightarrow> u64 \<Rightarrow> nat \<Rightarrow> bool"
    and rd :: "kernel \<Rightarrow> u8 list \<Rightarrow> u64 \<Rightarrow> u64 \<Rightarrow> mach \<Rightarrow> (i32 \<times> u8 list) run"
    and wr :: "kernel \<Rightarrow> u64 \<Rightarrow> u8 list \<Rightarrow> u64 \<Rightarrow> mach \<Rightarrow> i32 run"
  assumes rd_ok: "ok K a (unat n) \<Longrightarrow> 0 < unat n \<Longrightarrow> unat n \<le> length buf \<Longrightarrow>
      \<exists>r tr. r \<noteq> -1 \<and> rd K buf a n s =
        Inr ((r, read_bytes (mem s) a (unat n) @ drop (unat n) buf), s\<lparr>ktrace := ktrace s @ tr\<rparr>)"
    and wr_ok: "ok K a (Suc (unat n)) \<Longrightarrow> unat n < 2 ^ 31 \<Longrightarrow> unat n \<le> length bs \<Longrightarrow>
      \<exists>r tr. r \<noteq> -1 \<and> wr K a bs n s =
        Inr (r, s\<lparr>mem := write_bytes (mem s) a (take (unat n) bs), ktrace := ktrace s @ tr\<rparr>)"
begin

lemma read_ok:
  assumes "ok K a (unat n)" "0 < unat n" "unat n \<le> length buf"
  obtains r tr where "r \<noteq> -1" "rd K buf a n s =
     Inr ((r, read_bytes (mem s) a (unat n) @ drop (unat n) buf), s\<lparr>ktrace := ktrace s @ tr\<rparr>)"
  using rd_ok [OF assms] by blast

lemma write_ok:
  assumes "ok K a (Suc (unat n))" "unat n < 2 ^ 31" "unat n \<le> length bs"
  obtains r tr where "r \<noteq> -1" "wr K a bs n s =
     Inr (r, s\<lparr>mem := write_bytes (mem s) a (take (unat n) bs), ktrace := ktrace s @ tr\<rparr>)"
  using wr_ok [OF assms] by blast

lemma unpatch:
  assumes "ok K a (Suc (unat n))" and n: "unat n < 2 ^ 31" "unat n \<le> length saved" "unat n \<le> length bs"
    and saved: "take (unat n) saved = read_bytes m a (unat n)"
    and patched: "mem s = write_bytes m a (take (unat n) bs)"
  shows "\<exists>r tr. r \<noteq> -1 \<and> wr K a saved n s = Inr (r, s\<lparr>mem := m, ktrace := ktrace s @ tr\<rparr>)"
proof -
  have "write_bytes (mem s) a (take (unat n) saved) = m"
    using n unfolding patched saved by (simp add: write_write_same write_read_same)
  with wr_ok [OF assms(1) n(1,2), of s] show ?thesis by simp
qed

lemma patch_unpatch:
  assumes ok: "ok K a (unat n)" "ok K a (Suc (unat n))" and n: "0 < unat n" "unat n < 2 ^ 31" "unat n \<le> length buf" "unat n \<le> length bs"
  shows "\<exists>r tr. bindR (rd K buf a n s) (\<lambda>(_, saved) s.
           bindR (wr K a bs n s) (\<lambda>_ s. wr K a saved n s))
         = Inr (r, s\<lparr>ktrace := ktrace s @ tr\<rparr>)"
proof -
  obtain r tr where 1: "rd K buf a n s =
     Inr ((r, read_bytes (mem s) a (unat n) @ drop (unat n) buf), s\<lparr>ktrace := ktrace s @ tr\<rparr>)"
    by (rule read_ok [OF ok(1) n(1,3)])
  define t where "t = s\<lparr>ktrace := ktrace s @ tr\<rparr>"
  obtain r2 tr2 where 2: "wr K a bs n t =
     Inr (r2, t\<lparr>mem := write_bytes (mem t) a (take (unat n) bs), ktrace := ktrace t @ tr2\<rparr>)"
    by (rule write_ok [OF ok(2) n(2,4)])
  define u where "u = t\<lparr>mem := write_bytes (mem t) a (take (unat n) bs), ktrace := ktrace t @ tr2\<rparr>"
  have "\<exists>r tr. r \<noteq> -1 \<and> wr K a (read_bytes (mem s) a (unat n) @ drop (unat n) buf) n u
      = Inr (r, u\<lparr>mem := mem s, ktrace := ktrace u @ tr\<rparr>)"
    by (rule unpatch [OF ok(2) n(2) _ n(4)]) (use n in \<open>simp_all add: u_def t_def\<close>)
  then show ?thesis using 1 2 by (auto simp: t_def u_def)
qed

end

text \<open>
  The contract under a kernel that may refuse: a read always comes back, and a write to a range that is not open to the engine reports \<open>-1\<close>.
  So a write that succeeds tells that the whole range was open.
\<close>

locale refusing_memory = block_memory ok rd wr for ok rd wr +
  fixes fair :: "kernel \<Rightarrow> bool"
  assumes rd_returns: "fair K \<Longrightarrow> 0 < unat n \<Longrightarrow> unat n \<le> length buf \<Longrightarrow>
      \<exists>r b tr. rd K buf a n s = Inr ((r, b), s\<lparr>ktrace := ktrace s @ tr\<rparr>)"
    and wr_refuses: "fair K \<Longrightarrow> unat n < 2 ^ 31 \<Longrightarrow> unat n \<le> length bs \<Longrightarrow> \<not> ok K a (Suc (unat n)) \<Longrightarrow> \<exists>s'. wr K a bs n s = Inr (-1, s')"
begin

lemma written_open:
  assumes "fair K" "unat n < 2 ^ 31" "unat n \<le> length bs" "wr K a bs n s = Inr (r, s')" "r \<noteq> -1"
  shows "ok K a (Suc (unat n))"
proof (rule ccontr)
  assume "\<not> ok K a (Suc (unat n))"
  from wr_refuses [OF assms(1-3) this, of s] assms(4,5) show False by simp
qed

end

lemma small_not_minus_one: "n < 2 ^ 31 \<Longrightarrow> (of_nat n :: i32) \<noteq> -1"
proof
  assume n: "n < 2 ^ 31" and "(of_nat n :: i32) = -1"
  then have "unat (of_nat n :: i32) = unat (-1 :: i32)" by simp
  also have "\<dots> = 2 ^ 32 - 1" by (simp only: unsigned_minus_1_eq_mask mask_eq_exp_minus_1) simp
  finally have "unat (of_nat n :: i32) = 2 ^ 32 - 1" .
  with n show False by (simp add: unat_of_nat take_bit_nat_eq_self)
qed

interpretation bm: block_memory ready mem_read mem_write
proof
  fix K :: kernel and n a :: u64 and buf bs :: "u8 list" and s :: mach
  show "\<exists>r tr. r \<noteq> -1 \<and> mem_read K buf a n s =
      Inr ((r, read_bytes (mem s) a (unat n) @ drop (unat n) buf), s\<lparr>ktrace := ktrace s @ tr\<rparr>)"
    if K: "ready K a (unat n)" and n: "0 < unat n" "unat n \<le> length buf"
  proof -
    have "last_chunk (unat a mod 4096) (unat n) < 2 ^ 31"
      using last_chunk_bounds [OF n(1), of "unat a mod 4096"] by simp
    from small_not_minus_one [OF this] mem_read_granted [OF K n, of s] show ?thesis by blast
  qed
  show "\<exists>r tr. r \<noteq> -1 \<and> mem_write K a bs n s =
      Inr (r, s\<lparr>mem := write_bytes (mem s) a (take (unat n) bs), ktrace := ktrace s @ tr\<rparr>)"
    if K: "ready K a (Suc (unat n))" and n: "unat n < 2 ^ 31" "unat n \<le> length bs"
  proof -
    have "(ucast n :: i32) \<noteq> -1"
      using small_not_minus_one [OF n(1)] by (simp add: of_nat_unat)
    with mem_write_granted [OF K n, of s] show ?thesis by blast
  qed
qed

interpretation gm: refusing_memory ready mem_read mem_write steady
proof
  fix K :: kernel and n a :: u64 and buf bs :: "u8 list" and s :: mach
  show "\<exists>r b tr. mem_read K buf a n s = Inr ((r, b), s\<lparr>ktrace := ktrace s @ tr\<rparr>)" if "steady K" "0 < unat n" "unat n \<le> length buf"
    by (rule mem_read_steady [OF that])
  show "\<exists>s'. mem_write K a bs n s = Inr (-1, s')"
    if "steady K" "unat n < 2 ^ 31" "unat n \<le> length bs" "\<not> ready K a (Suc (unat n))"
    using mem_write_refused [OF that, of s] by blast
qed

section \<open>Concrete instances\<close>

text \<open>
  A kernel that grants everything and touches nothing, and a process with zeroed descriptors
  whose memory holds at each address the low byte of the address.
\<close>

definition granting_kernel :: kernel where
  "granting_kernel tr c m = \<lparr>k_ret = 0, k_out = 0, k_mem = m\<rparr>"

definition zero_dbi :: dbi_instr_t where
  "zero_dbi = \<lparr>take_callback = False, state = calloc_state, host_state = calloc_state,
     dump = calloc_hook, restore = calloc_hook, dump_stub = 0, restore_stub = 0, curr_hook = 0,
     host_rsp = 0, hashmap = init_hashmap, instrumented_fs = 0, base_guest_stack = 0,
     instrumented_gs = 0, length_cflow = 0, request = \<lparr>rtype = 0, raddress = 0\<rparr>,
     persistent_hook = \<lparr>pstate = 0, paddress = 0\<rparr>, cps_count = 0, vbrk = 0\<rparr>"

definition zero_mach :: mach where
  "zero_mach = \<lparr>s_binary = \<lparr>fbinary = [], len_file = 0, filename = [], fd = 0, s_ph = [],
       pie = False, interp = None, base = 0, memory_map = 0, dispatcher = 0,
       dbi_handler = zero_dbi, exec_entry = 0\<rparr>,
     mem = ucast, ktrace = [], curr_syscall = False, must_change = False, bbl_count = 0, mxcsr = 0\<rparr>"

lemma mem_zero_mach [simp]: "mem zero_mach a = ucast a"
  by (simp add: zero_mach_def)

lemma grants_granting [simp]: "grants granting_kernel"
  by (simp add: grants_def mprotect_keeps_bytes_def mprotect_succeeds_def granting_kernel_def)

section \<open>Properties\<close>

text \<open>
  C25: when the pages of the range are admitted, \<^verbatim>\<open>mem_read\<close> fills the first \<open>len\<close> bytes of the host
  buffer with the guest bytes, however many pages they span, leaves the rest of the buffer and
  the whole memory alone, ends (no fuel exhaustion, no failed assertion), and returns the
  length of the last page's chunk: for a read inside one page that is \<open>len\<close>, for a longer one
  the bytes on the last page and not the number of bytes read.  Every kernel call it makes sets a
  page to read-write-execute.
\<close>

theorem mem_read_copies:
  assumes "ready K src (unat len)" and "0 < unat len" and "unat len \<le> length buf"
  shows "\<exists>tr. mem_read K buf src len s =
     Inr ((of_nat (last_chunk (unat src mod 4096) (unat len)),
           read_bytes (mem s) src (unat len) @ drop (unat len) buf), s\<lparr>ktrace := ktrace s @ tr\<rparr>)
     \<and> list_all prot_rwx tr"
  using assms by (rule mem_read_granted)

lemma mem_read_copies_witness:
  "\<exists>tr. mem_read granting_kernel (replicate 5 7) 0xffe 4 zero_mach =
     Inr ((2, [0xfe, 0xff, 0, 1, 7]), zero_mach\<lparr>ktrace := tr\<rparr>) \<and> list_all prot_rwx tr"
proof -
  have z: "ktrace zero_mach = []" by (simp add: zero_mach_def)
  have r: "read_bytes (mem zero_mach) 0xffe 4 = [0xfe, 0xff, 0, 1]"
    by (simp add: read_bytes_def upt_rec)
  have d: "drop 4 (replicate 5 7) = [7 :: u8]" by (simp add: numeral_eq_Suc)
  have c: "last_chunk 4094 4 = 2" by (simp add: last_chunk_def)
  show ?thesis
    using mem_read_copies [of granting_kernel "0xffe" 4 "replicate 5 7" zero_mach]
    by (simp add: z r d c)
qed

text \<open>
  C26: when the pages of the range and of the byte behind it are admitted, and for lengths an \<^verbatim>\<open>int\<close> can hold, \<^verbatim>\<open>mem_write\<close> stores
  exactly the first \<open>len\<close> bytes of the source at \<open>dst\<close>, across page boundaries, returns \<open>len\<close>, and
  its final assertion holds.  Every kernel call sets a page to read-write-execute, and the
  last one is for the page of \<open>dst + len\<close>, also when that page holds no written byte.
\<close>

theorem mem_write_stores:
  assumes "ready K dst (Suc (unat len))" and "unat len < 2 ^ 31" and "unat len \<le> length src"
  shows "\<exists>tr. mem_write K dst src len s =
     Inr (ucast len, s\<lparr>mem := write_bytes (mem s) dst (take (unat len) src), ktrace := ktrace s @ tr\<rparr>)
     \<and> list_all prot_rwx tr \<and> tr \<noteq> [] \<and> last tr = K_mprotect (PAGE_ALIGN (dst + len)) PAGE_SZ 7"
  using assms by (rule mem_write_granted)

lemma mem_write_stores_witness:
  "\<exists>tr. mem_write granting_kernel 0xffe [1, 2, 3] 2 zero_mach =
     Inr (2, zero_mach\<lparr>mem := write_bytes (mem zero_mach) 0xffe [1, 2], ktrace := tr\<rparr>)
     \<and> list_all prot_rwx tr \<and> tr \<noteq> [] \<and> last tr = K_mprotect 0x1000 PAGE_SZ 7"
proof -
  have z: "ktrace zero_mach = []" by (simp add: zero_mach_def)
  show ?thesis
    using mem_write_stores [of granting_kernel "0xffe" 2 "[1, 2, 3]" zero_mach]
    by (simp add: z PAGE_ALIGN_def)
qed

text \<open>
  What \<^verbatim>\<open>write_hook\<close> and \<^verbatim>\<open>restore_bytes\<close> do together: saving the bytes of a range, overwriting
  it and writing the saved bytes back leaves the whole process as it was, but for the trace of
  kernel calls.
\<close>

lemma mem_patch_restores:
  assumes "ready K a (unat n)" and "ready K a (Suc (unat n))" and "0 < unat n" and "unat n < 2 ^ 31"
    and "unat n \<le> length buf" and "unat n \<le> length bs"
  shows "\<exists>r tr. bindR (mem_read K buf a n s) (\<lambda>(_, saved) s.
           bindR (mem_write K a bs n s) (\<lambda>_ s. mem_write K a saved n s))
         = Inr (r, s\<lparr>ktrace := ktrace s @ tr\<rparr>)"
  using assms by (rule bm.patch_unpatch)

lemma mem_patch_restores_witness:
  "\<exists>r tr. bindR (mem_read granting_kernel (replicate 64 0) 0x401ff8 12 zero_mach) (\<lambda>(_, saved) s.
       bindR (mem_write granting_kernel 0x401ff8 (replicate 12 0x90) 12 s)
         (\<lambda>_ s. mem_write granting_kernel 0x401ff8 saved 12 s))
     = Inr (r, zero_mach\<lparr>ktrace := ktrace zero_mach @ tr\<rparr>)"
  using mem_patch_restores [of granting_kernel "0x401ff8" 12 "replicate 64 0" "replicate 12 0x90" zero_mach]
  by simp

end
