(* ===== verification/Syscall_Hook.thy ===== *)
theory Syscall_Hook
  imports Guest_Memory
begin

unbundle bit_operations_syntax

text \<open>
  \<^verbatim>\<open>src/syscall_hook.c\<close>: the handlers that stand in for the guest's \<^verbatim>\<open>syscall\<close> instruction, and the
  switch that selects one by number.  Most handlers forward the guest's argument registers with
  the macro \<^verbatim>\<open>do_syscall\<close>, between a switch to the guest's segment bases and a switch back; the
  others treat \<^verbatim>\<open>brk\<close>, \<^verbatim>\<open>arch_prctl\<close>, \<^verbatim>\<open>mmap\<close>, \<^verbatim>\<open>close\<close> and the two exits themselves.  The text that the
  handlers print to the debug stream is not modelled.  An \<^verbatim>\<open>int\<close> passed to the variadic
  \<^verbatim>\<open>syscall\<close> occupies the low half of the register, the high half being zero.
\<close>

section \<open>System call numbers\<close>

definition NR_read :: nat where [simp]: "NR_read = 0"
definition NR_write :: nat where [simp]: "NR_write = 1"
definition NR_close :: nat where [simp]: "NR_close = 3"
definition NR_stat :: nat where [simp]: "NR_stat = 4"
definition NR_fstat :: nat where [simp]: "NR_fstat = 5"
definition NR_lstat :: nat where [simp]: "NR_lstat = 6"
definition NR_poll :: nat where [simp]: "NR_poll = 7"
definition NR_lseek :: nat where [simp]: "NR_lseek = 8"
definition NR_mmap :: nat where [simp]: "NR_mmap = 9"
definition NR_mprotect :: nat where [simp]: "NR_mprotect = 10"
definition NR_munmap :: nat where [simp]: "NR_munmap = 11"
definition NR_brk :: nat where [simp]: "NR_brk = 12"
definition NR_rt_sigaction :: nat where [simp]: "NR_rt_sigaction = 13"
definition NR_rt_sigprocmask :: nat where [simp]: "NR_rt_sigprocmask = 14"
definition NR_ioctl :: nat where [simp]: "NR_ioctl = 16"
definition NR_pread64 :: nat where [simp]: "NR_pread64 = 17"
definition NR_readv :: nat where [simp]: "NR_readv = 19"
definition NR_writev :: nat where [simp]: "NR_writev = 20"
definition NR_access :: nat where [simp]: "NR_access = 21"
definition NR_shmat :: nat where [simp]: "NR_shmat = 30"
definition NR_setitimer :: nat where [simp]: "NR_setitimer = 38"
definition NR_getpid :: nat where [simp]: "NR_getpid = 39"
definition NR_socket :: nat where [simp]: "NR_socket = 41"
definition NR_connect :: nat where [simp]: "NR_connect = 42"
definition NR_shutdown :: nat where [simp]: "NR_shutdown = 48"
definition NR_bind :: nat where [simp]: "NR_bind = 49"
definition NR_listen :: nat where [simp]: "NR_listen = 50"
definition NR_setsockopt :: nat where [simp]: "NR_setsockopt = 54"
definition NR_clone :: nat where [simp]: "NR_clone = 56"
definition NR_fork :: nat where [simp]: "NR_fork = 57"
definition NR_vfork :: nat where [simp]: "NR_vfork = 58"
definition NR_execve :: nat where [simp]: "NR_execve = 59"
definition NR_wait4 :: nat where [simp]: "NR_wait4 = 61"
definition NR_uname :: nat where [simp]: "NR_uname = 63"
definition NR_msgsnd :: nat where [simp]: "NR_msgsnd = 69"
definition NR_fcntl :: nat where [simp]: "NR_fcntl = 72"
definition NR_getcwd :: nat where [simp]: "NR_getcwd = 79"
definition NR_chdir :: nat where [simp]: "NR_chdir = 80"
definition NR_mkdir :: nat where [simp]: "NR_mkdir = 83"
definition NR_readlink :: nat where [simp]: "NR_readlink = 89"
definition NR_umask :: nat where [simp]: "NR_umask = 95"
definition NR_gettimeofday :: nat where [simp]: "NR_gettimeofday = 96"
definition NR_getuid :: nat where [simp]: "NR_getuid = 102"
definition NR_getgid :: nat where [simp]: "NR_getgid = 104"
definition NR_geteuid :: nat where [simp]: "NR_geteuid = 107"
definition NR_getegid :: nat where [simp]: "NR_getegid = 108"
definition NR_setpgid :: nat where [simp]: "NR_setpgid = 109"
definition NR_getppid :: nat where [simp]: "NR_getppid = 110"
definition NR_getpgrp :: nat where [simp]: "NR_getpgrp = 111"
definition NR_sigaltstack :: nat where [simp]: "NR_sigaltstack = 131"
definition NR_statfs :: nat where [simp]: "NR_statfs = 137"
definition NR_gettid :: nat where [simp]: "NR_gettid = 186"
definition NR_lgetxattr :: nat where [simp]: "NR_lgetxattr = 192"
definition NR_time :: nat where [simp]: "NR_time = 201"
definition NR_futex :: nat where [simp]: "NR_futex = 202"
definition NR_io_submit :: nat where [simp]: "NR_io_submit = 209"
definition NR_getdents64 :: nat where [simp]: "NR_getdents64 = 217"
definition NR_set_tid_address :: nat where [simp]: "NR_set_tid_address = 218"
definition NR_fadvise64 :: nat where [simp]: "NR_fadvise64 = 221"
definition NR_clock_gettime :: nat where [simp]: "NR_clock_gettime = 228"
definition NR_clock_getres :: nat where [simp]: "NR_clock_getres = 229"
definition NR_exit_group :: nat where [simp]: "NR_exit_group = 231"
definition NR_tgkill :: nat where [simp]: "NR_tgkill = 234"
definition NR_openat :: nat where [simp]: "NR_openat = 257"
definition NR_newfstatat :: nat where [simp]: "NR_newfstatat = 262"
definition NR_set_robust_list :: nat where [simp]: "NR_set_robust_list = 273"
definition NR_accept4 :: nat where [simp]: "NR_accept4 = 288"
definition NR_eventfd2 :: nat where [simp]: "NR_eventfd2 = 290"
definition NR_epoll_create1 :: nat where [simp]: "NR_epoll_create1 = 291"
definition NR_pipe2 :: nat where [simp]: "NR_pipe2 = 293"
definition NR_fanotify_mark :: nat where [simp]: "NR_fanotify_mark = 301"
definition NR_prlimit64 :: nat where [simp]: "NR_prlimit64 = 302"
definition NR_seccomp :: nat where [simp]: "NR_seccomp = 317"
definition NR_statx :: nat where [simp]: "NR_statx = 332"

section \<open>Handlers\<close>

type_synonym hook_syscall = "kernel \<Rightarrow> mach \<Rightarrow> u64 run"

definition do_syscall :: "kernel \<Rightarrow> nat \<Rightarrow> u64 list \<Rightarrow> mach \<Rightarrow> unit run" where
  "do_syscall K nr args s =
     bindR (set_fs_gs K (instrumented_fs (dbi s)) (instrumented_gs (dbi s)) s) (\<lambda>r s.
     bindR (if r = -1 then fatal_dump K s else retR () s) (\<lambda>_ s.
     bindR (syscall K nr args s) (\<lambda>v s.
       let s = upd_guest (\<lambda>st. st\<lparr>rax := v\<rparr>) s in
     bindR (set_fs_gs K (fs (host_state (dbi s))) (gs (host_state (dbi s))) s) (\<lambda>r s.
       if r = -1 then fatal_dump K s else retR () s))))"

text \<open>
  \<^verbatim>\<open>_brk_size\<close> is a \<^verbatim>\<open>uint32_t\<close>: the difference is truncated, and the length \<^verbatim>\<open>PAGE_ROUND(..) + 1\<close> of
  the mapping is computed in 32 bits.
\<close>

definition brk_length :: "u32 \<Rightarrow> u64" where
  "brk_length sz = ucast ((sz AND NOT 0xfff) + 0xfff + 1)"

definition hook_brk :: hook_syscall where
  "hook_brk K s =
    (let st = guest s; brk_base = vbrk (dbi s) in
     if rdi st = 0 then retR 0 (upd_guest (\<lambda>st. st\<lparr>rax := brk_base\<rparr>) s)
     else if \<not> rdi st > brk_base then haltR Assert_failed s
     else let brk_size = (ucast (rdi st - brk_base) :: u32) in
       bindR (if ucast brk_size + PAGE_OFFT brk_base > PAGE_SZ
              then bindR (mmap K (PAGE_ALIGN brk_base) (brk_length brk_size) (PROT_READ OR PROT_WRITE)
                            (MAP_FIXED OR MAP_PRIVATE OR MAP_ANONYMOUS) (-1) 0 s)
                     (\<lambda>r s. if r = -1 then fatal_dump K s else retR (rdi st) s)
              else retR brk_base s)
         (\<lambda>b s. retR 0 (upd_dbi (\<lambda>d. d\<lparr>vbrk := b\<rparr>) (upd_guest (\<lambda>st. st\<lparr>rax := b\<rparr>) s))))"

definition hook_arch_prctl :: hook_syscall where
  "hook_arch_prctl K s =
    (let code = (ucast (rdi (guest s)) :: i32); addr = rsi (guest s);
         s = (if ucast code = ARCH_SET_FS
              then (upd_dbi (\<lambda>d. d\<lparr>instrumented_fs := addr\<rparr>) s)\<lparr>must_change := True\<rparr>
              else if ucast code = ARCH_SET_GS
              then upd_dbi (\<lambda>d. d\<lparr>instrumented_gs := addr\<rparr>) s else s)
     in bindR (syscall K NR_arch_prctl [ucast code, addr] s) (\<lambda>try_ret s.
        bindR (if ucast code = ARCH_SET_FS
               then bindR (set_fs_gs K (fs (host_state (dbi s))) (gs (host_state (dbi s))) s)
                      (\<lambda>r s. if r = -1 then haltR (Exit (-1)) s else retR () s)
               else retR () s)
          (\<lambda>_ s. retR 0 (upd_guest (\<lambda>st. st\<lparr>rax := try_ret\<rparr>) s))))"

definition hook_access :: hook_syscall where
  "hook_access K s =
    (let filename = rdi (guest s); mode = (ucast (rsi (guest s)) :: i32)
     in bindR (do_syscall K NR_access [filename, ucast mode] s) (\<lambda>_ s. retR 0 s))"

definition hook_mmap :: hook_syscall where
  "hook_mmap K s =
    (let addr = rdi (guest s); len = rsi (guest s); prot = (ucast (rdx (guest s)) :: i32);
         flags = (ucast (rcx (guest s)) :: i32); f = (ucast (r8 (guest s)) :: i32);
         offt = (ucast (r9 (guest s)) :: i32)
     in bindR (do_syscall K NR_mmap [addr, len, ucast prot, ucast flags, ucast f, ucast offt] s)
          (\<lambda>_ s. if rax (guest s) = -1 then fatal_dump K s else retR 0 s))"

definition hook_exit :: hook_syscall where
  "hook_exit K s = default_dtor K s"

definition hook_exit_grp :: hook_syscall where
  "hook_exit_grp K s = default_dtor K s"

definition hook_close :: hook_syscall where
  "hook_close K s =
    (if rdi (guest s) = 1 then retR 0 (upd_guest (\<lambda>st. st\<lparr>rax := 0\<rparr>) s)
     else bindR (do_syscall K NR_close [rdi (guest s)] s) (\<lambda>_ s. retR 0 s))"

definition hook_writev :: hook_syscall where
  "hook_writev K s =
     bindR (do_syscall K NR_writev [rdi (guest s), rsi (guest s), rdx (guest s)] s)
       (\<lambda>_ s. retR 0 s)"

definition hook_openat :: hook_syscall where
  "hook_openat K s =
     bindR (do_syscall K NR_openat [rdi (guest s), rsi (guest s), rdx (guest s), r10 (guest s)] s)
       (\<lambda>_ s. retR 0 s)"

definition hook_fstat :: hook_syscall where
  "hook_fstat K s =
     bindR (do_syscall K NR_fstat [rdi (guest s), rsi (guest s)] s)
       (\<lambda>_ s. retR 0 s)"

definition hook_read :: hook_syscall where
  "hook_read K s =
     bindR (do_syscall K NR_read [rdi (guest s), rsi (guest s), rdx (guest s)] s)
       (\<lambda>_ s. retR 0 s)"

definition hook_mprotect :: hook_syscall where
  "hook_mprotect K s =
     bindR (do_syscall K NR_mprotect [rdi (guest s), rsi (guest s), rdx (guest s)] s)
       (\<lambda>_ s. retR 0 s)"

definition hook_pread64 :: hook_syscall where
  "hook_pread64 K s =
     bindR (do_syscall K NR_pread64 [rdi (guest s), rsi (guest s), rdx (guest s), r10 (guest s)] s)
       (\<lambda>_ s. retR 0 s)"

definition hook_munmap :: hook_syscall where
  "hook_munmap K s =
     bindR (do_syscall K NR_munmap [rdi (guest s), rsi (guest s)] s)
       (\<lambda>_ s. retR 0 s)"

definition hook_set_tid_address :: hook_syscall where
  "hook_set_tid_address K s =
     bindR (do_syscall K NR_set_tid_address [rdi (guest s)] s)
       (\<lambda>_ s. retR 0 s)"

definition hook_set_robust_list :: hook_syscall where
  "hook_set_robust_list K s =
     bindR (do_syscall K NR_set_robust_list [rdi (guest s), rsi (guest s)] s)
       (\<lambda>_ s. retR 0 s)"

definition hook_rt_sigaction :: hook_syscall where
  "hook_rt_sigaction K s =
     bindR (do_syscall K NR_rt_sigaction [rdi (guest s), rsi (guest s), rdx (guest s), r10 (guest s)] s)
       (\<lambda>_ s. retR 0 s)"

definition hook_rt_sigprocmask :: hook_syscall where
  "hook_rt_sigprocmask K s =
     bindR (do_syscall K NR_rt_sigprocmask [rdi (guest s), rsi (guest s), rdx (guest s), r10 (guest s)] s)
       (\<lambda>_ s. retR 0 s)"

definition hook_prlimit64 :: hook_syscall where
  "hook_prlimit64 K s =
     bindR (do_syscall K NR_prlimit64 [rdi (guest s), rsi (guest s), rdx (guest s), r10 (guest s)] s)
       (\<lambda>_ s. retR 0 s)"

definition hook_statfs :: hook_syscall where
  "hook_statfs K s =
     bindR (do_syscall K NR_statfs [rdi (guest s), rsi (guest s)] s)
       (\<lambda>_ s. retR 0 s)"

definition hook_stat :: hook_syscall where
  "hook_stat K s =
     bindR (do_syscall K NR_stat [rdi (guest s), rsi (guest s)] s)
       (\<lambda>_ s. retR 0 s)"

definition hook_getuid :: hook_syscall where
  "hook_getuid K s =
     bindR (do_syscall K NR_getuid [rdi (guest s)] s)
       (\<lambda>_ s. retR 0 s)"

definition hook_geteuid :: hook_syscall where
  "hook_geteuid K s =
     bindR (do_syscall K NR_geteuid [rdi (guest s)] s)
       (\<lambda>_ s. retR 0 s)"

definition hook_getegid :: hook_syscall where
  "hook_getegid K s =
     bindR (do_syscall K NR_getegid [rdi (guest s)] s)
       (\<lambda>_ s. retR 0 s)"

definition hook_getgid :: hook_syscall where
  "hook_getgid K s =
     bindR (do_syscall K NR_getgid [rdi (guest s)] s)
       (\<lambda>_ s. retR 0 s)"

definition hook_futex :: hook_syscall where
  "hook_futex K s =
     bindR (do_syscall K NR_futex [rdi (guest s), rsi (guest s), rdx (guest s)] s)
       (\<lambda>_ s. retR 0 s)"

definition hook_getpid :: hook_syscall where
  "hook_getpid K s =
     bindR (do_syscall K NR_getpid [] s)
       (\<lambda>_ s. retR 0 s)"

definition hook_gettid :: hook_syscall where
  "hook_gettid K s =
     bindR (do_syscall K NR_gettid [] s)
       (\<lambda>_ s. retR 0 s)"

definition hook_tgkill :: hook_syscall where
  "hook_tgkill K s =
     bindR (do_syscall K NR_tgkill [rdi (guest s), rsi (guest s), rdx (guest s)] s)
       (\<lambda>_ s. retR 0 s)"

definition hook_socket :: hook_syscall where
  "hook_socket K s =
     bindR (do_syscall K NR_socket [rdi (guest s), rsi (guest s), rdx (guest s)] s)
       (\<lambda>_ s. retR 0 s)"

definition hook_connect :: hook_syscall where
  "hook_connect K s =
     bindR (do_syscall K NR_connect [rdi (guest s), rsi (guest s), rdx (guest s)] s)
       (\<lambda>_ s. retR 0 s)"

definition hook_write :: hook_syscall where
  "hook_write K s =
     bindR (do_syscall K NR_write [rdi (guest s), rsi (guest s), rdx (guest s)] s)
       (\<lambda>_ s. retR 0 s)"

definition hook_sigaltstack :: hook_syscall where
  "hook_sigaltstack K s =
     bindR (do_syscall K NR_sigaltstack [rdi (guest s), rsi (guest s)] s)
       (\<lambda>_ s. retR 0 s)"

definition hook_newfstatat :: hook_syscall where
  "hook_newfstatat K s =
     bindR (do_syscall K NR_newfstatat [rdi (guest s), rsi (guest s), rdx (guest s), r10 (guest s), r8 (guest s)] s)
       (\<lambda>_ s. retR 0 s)"

definition hook_getppid :: hook_syscall where
  "hook_getppid K s =
     bindR (do_syscall K NR_getppid [] s)
       (\<lambda>_ s. retR 0 s)"

definition hook_ioctl :: hook_syscall where
  "hook_ioctl K s =
     bindR (do_syscall K NR_ioctl [rdi (guest s), rsi (guest s), rdx (guest s)] s)
       (\<lambda>_ s. retR 0 s)"

definition hook_execve :: hook_syscall where
  "hook_execve K s =
     bindR (do_syscall K NR_execve [rdi (guest s), rsi (guest s), rdx (guest s)] s)
       (\<lambda>_ s. retR 0 s)"

definition hook_vfork :: hook_syscall where
  "hook_vfork K s =
     bindR (do_syscall K NR_fork [] s)
       (\<lambda>_ s. retR 0 s)"

definition hook_uname :: hook_syscall where
  "hook_uname K s =
     bindR (do_syscall K NR_uname [rdi (guest s)] s)
       (\<lambda>_ s. retR 0 s)"

definition hook_fcntl :: hook_syscall where
  "hook_fcntl K s =
     bindR (do_syscall K NR_fcntl [rdi (guest s), rsi (guest s), rdx (guest s)] s)
       (\<lambda>_ s. retR 0 s)"

definition hook_getpgrp :: hook_syscall where
  "hook_getpgrp K s =
     bindR (do_syscall K NR_getpgrp [] s)
       (\<lambda>_ s. retR 0 s)"

definition hook_setpgid :: hook_syscall where
  "hook_setpgid K s =
     bindR (do_syscall K NR_setpgid [rdi (guest s), rsi (guest s)] s)
       (\<lambda>_ s. retR 0 s)"

definition hook_getdents64 :: hook_syscall where
  "hook_getdents64 K s =
     bindR (do_syscall K NR_getdents64 [rdi (guest s), rsi (guest s), rdx (guest s)] s)
       (\<lambda>_ s. retR 0 s)"

definition hook_statx :: hook_syscall where
  "hook_statx K s =
     bindR (do_syscall K NR_statx [rdi (guest s), rsi (guest s), rdx (guest s), r10 (guest s), r8 (guest s)] s)
       (\<lambda>_ s. retR 0 s)"

definition hook_lgetxattr :: hook_syscall where
  "hook_lgetxattr K s =
     bindR (do_syscall K NR_lgetxattr [rdi (guest s), rsi (guest s), rdx (guest s), r10 (guest s)] s)
       (\<lambda>_ s. retR 0 s)"

definition hook_fadvise64 :: hook_syscall where
  "hook_fadvise64 K s =
     bindR (do_syscall K NR_fadvise64 [rdi (guest s), rsi (guest s)] s)
       (\<lambda>_ s. retR 0 s)"

definition hook_readlink :: hook_syscall where
  "hook_readlink K s =
     bindR (do_syscall K NR_readlink [rdi (guest s), rsi (guest s), rdx (guest s)] s)
       (\<lambda>_ s. retR 0 s)"

definition hook_setitimer :: hook_syscall where
  "hook_setitimer K s =
     bindR (do_syscall K NR_setitimer [rdi (guest s), rsi (guest s), rdx (guest s)] s)
       (\<lambda>_ s. retR 0 s)"

definition hook_readv :: hook_syscall where
  "hook_readv K s =
     bindR (do_syscall K NR_readv [rdi (guest s), rsi (guest s), rdx (guest s)] s)
       (\<lambda>_ s. retR 0 s)"

definition hook_lseek :: hook_syscall where
  "hook_lseek K s =
     bindR (do_syscall K NR_lseek [rdi (guest s), rsi (guest s), rdx (guest s)] s)
       (\<lambda>_ s. retR 0 s)"

definition hook_gettimeofday :: hook_syscall where
  "hook_gettimeofday K s =
     bindR (do_syscall K NR_gettimeofday [rdi (guest s), rsi (guest s)] s)
       (\<lambda>_ s. retR 0 s)"

definition hook_clone :: hook_syscall where
  "hook_clone K s =
     bindR (do_syscall K NR_clone [rdi (guest s), rsi (guest s), rdx (guest s), r10 (guest s)] s)
       (\<lambda>_ s. retR 0 s)"

definition hook_wait4 :: hook_syscall where
  "hook_wait4 K s =
     bindR (do_syscall K NR_wait4 [rdi (guest s), rsi (guest s), rdx (guest s), r10 (guest s)] s)
       (\<lambda>_ s. retR 0 s)"

definition hook_lstat :: hook_syscall where
  "hook_lstat K s =
     bindR (do_syscall K NR_lstat [rdi (guest s), rsi (guest s)] s)
       (\<lambda>_ s. retR 0 s)"

definition hook_fanotify_mark :: hook_syscall where
  "hook_fanotify_mark K s =
     bindR (do_syscall K NR_fanotify_mark [rdi (guest s), rsi (guest s)] s)
       (\<lambda>_ s. retR 0 s)"

definition hook_msgsnd :: hook_syscall where
  "hook_msgsnd K s =
     bindR (do_syscall K NR_msgsnd [rdi (guest s), rsi (guest s), rdx (guest s), r10 (guest s)] s)
       (\<lambda>_ s. retR 0 s)"

definition hook_seccomp :: hook_syscall where
  "hook_seccomp K s =
     bindR (do_syscall K NR_seccomp [rdi (guest s), rsi (guest s), rdx (guest s)] s)
       (\<lambda>_ s. retR 0 s)"

definition hook_io_submit :: hook_syscall where
  "hook_io_submit K s =
     bindR (do_syscall K NR_io_submit [rdi (guest s), rsi (guest s), rdx (guest s)] s)
       (\<lambda>_ s. retR 0 s)"

definition hook_time :: hook_syscall where
  "hook_time K s =
     bindR (do_syscall K NR_time [rdi (guest s)] s)
       (\<lambda>_ s. retR 0 s)"

definition hook_clock_getres :: hook_syscall where
  "hook_clock_getres K s =
     bindR (do_syscall K NR_clock_getres [rdi (guest s), rsi (guest s)] s)
       (\<lambda>_ s. retR 0 s)"

definition hook_clock_gettime :: hook_syscall where
  "hook_clock_gettime K s =
     bindR (do_syscall K NR_clock_gettime [rdi (guest s), rsi (guest s)] s)
       (\<lambda>_ s. retR 0 s)"

definition hook_epoll_create1 :: hook_syscall where
  "hook_epoll_create1 K s =
     bindR (do_syscall K NR_epoll_create1 [rdi (guest s)] s)
       (\<lambda>_ s. retR 0 s)"

definition hook_eventfd2 :: hook_syscall where
  "hook_eventfd2 K s =
     bindR (do_syscall K NR_eventfd2 [rdi (guest s), rsi (guest s)] s)
       (\<lambda>_ s. retR 0 s)"

definition hook_pipe2 :: hook_syscall where
  "hook_pipe2 K s =
     bindR (do_syscall K NR_pipe2 [rdi (guest s), rsi (guest s)] s)
       (\<lambda>_ s. retR 0 s)"

definition hook_getcwd :: hook_syscall where
  "hook_getcwd K s =
     bindR (do_syscall K NR_getcwd [rdi (guest s), rsi (guest s)] s)
       (\<lambda>_ s. retR 0 s)"

definition hook_chdir :: hook_syscall where
  "hook_chdir K s =
     bindR (do_syscall K NR_chdir [rdi (guest s)] s)
       (\<lambda>_ s. retR 0 s)"

definition hook_umask :: hook_syscall where
  "hook_umask K s =
     bindR (do_syscall K NR_umask [rdi (guest s)] s)
       (\<lambda>_ s. retR 0 s)"

definition hook_mkdir :: hook_syscall where
  "hook_mkdir K s =
     bindR (do_syscall K NR_mkdir [rdi (guest s), rsi (guest s)] s)
       (\<lambda>_ s. retR 0 s)"

definition hook_bind :: hook_syscall where
  "hook_bind K s =
     bindR (do_syscall K NR_bind [rdi (guest s), rsi (guest s), rdx (guest s)] s)
       (\<lambda>_ s. retR 0 s)"

definition hook_listen :: hook_syscall where
  "hook_listen K s =
     bindR (do_syscall K NR_listen [rdi (guest s), rsi (guest s)] s)
       (\<lambda>_ s. retR 0 s)"

definition hook_setsockopt :: hook_syscall where
  "hook_setsockopt K s =
     bindR (do_syscall K NR_setsockopt [rdi (guest s), rsi (guest s), rdx (guest s), r10 (guest s), r8 (guest s)] s)
       (\<lambda>_ s. retR 0 s)"

definition hook_accept4 :: hook_syscall where
  "hook_accept4 K s =
     bindR (do_syscall K NR_accept4 [rdi (guest s), rsi (guest s), rdx (guest s), r10 (guest s)] s)
       (\<lambda>_ s. retR 0 s)"

definition hook_poll :: hook_syscall where
  "hook_poll K s =
     bindR (do_syscall K NR_poll [rdi (guest s), rsi (guest s), rdx (guest s)] s)
       (\<lambda>_ s. retR 0 s)"

definition hook_shmat :: hook_syscall where
  "hook_shmat K s =
     bindR (do_syscall K NR_shmat [rdi (guest s), rsi (guest s), rdx (guest s)] s)
       (\<lambda>_ s. retR 0 s)"

definition hook_shutdown :: hook_syscall where
  "hook_shutdown K s =
     bindR (do_syscall K NR_shutdown [rdi (guest s), rsi (guest s)] s)
       (\<lambda>_ s. retR 0 s)"

section \<open>The switch\<close>

text \<open>The cases of the switch in the order of the source, in two parts.\<close>

definition syscall_cases :: "(nat \<times> hook_syscall) list" where
  "syscall_cases =
    [(NR_brk, hook_brk), (NR_arch_prctl, hook_arch_prctl), (NR_access, hook_access),
     (NR_mmap, hook_mmap), (NR_writev, hook_writev), (NR_exit, hook_exit),
     (NR_exit_group, hook_exit_grp), (NR_openat, hook_openat), (NR_fstat, hook_fstat),
     (NR_close, hook_close), (NR_read, hook_read), (NR_mprotect, hook_mprotect),
     (NR_pread64, hook_pread64), (NR_munmap, hook_munmap),
     (NR_set_tid_address, hook_set_tid_address), (NR_set_robust_list, hook_set_robust_list),
     (NR_rt_sigaction, hook_rt_sigaction), (NR_rt_sigprocmask, hook_rt_sigprocmask),
     (NR_prlimit64, hook_prlimit64), (NR_statfs, hook_statfs), (NR_stat, hook_stat),
     (NR_getuid, hook_getuid), (NR_geteuid, hook_geteuid), (NR_getegid, hook_getegid),
     (NR_getgid, hook_getgid), (NR_futex, hook_futex), (NR_getpid, hook_getpid),
     (NR_gettid, hook_gettid), (NR_tgkill, hook_tgkill), (NR_socket, hook_socket),
     (NR_connect, hook_connect), (NR_write, hook_write), (NR_sigaltstack, hook_sigaltstack),
     (NR_newfstatat, hook_newfstatat), (NR_getppid, hook_getpid), (NR_ioctl, hook_ioctl),
     (NR_execve, hook_execve), (NR_vfork, hook_vfork), (NR_uname, hook_uname),
     (NR_fcntl, hook_fcntl), (NR_getpgrp, hook_getpgrp), (NR_setpgid, hook_setpgid),
     (NR_getdents64, hook_getdents64), (NR_statx, hook_statx), (NR_lgetxattr, hook_lgetxattr),
     (NR_fadvise64, hook_fadvise64), (NR_readlink, hook_readlink)]"

definition syscall_more_cases :: "(nat \<times> hook_syscall) list" where
  "syscall_more_cases =
    [(NR_setitimer, hook_setitimer), (NR_readv, hook_readv), (NR_lseek, hook_lseek),
     (NR_gettimeofday, hook_gettimeofday), (NR_clone, hook_clone), (NR_wait4, hook_wait4),
     (NR_lstat, hook_lstat), (NR_fanotify_mark, hook_fanotify_mark), (NR_msgsnd, hook_msgsnd),
     (NR_seccomp, hook_seccomp), (NR_io_submit, hook_io_submit), (NR_time, hook_time),
     (NR_clock_getres, hook_clock_getres), (NR_clock_gettime, hook_clock_gettime),
     (NR_epoll_create1, hook_epoll_create1), (NR_eventfd2, hook_eventfd2),
     (NR_pipe2, hook_pipe2), (NR_getcwd, hook_getcwd), (NR_chdir, hook_chdir),
     (NR_umask, hook_umask), (NR_mkdir, hook_mkdir), (NR_bind, hook_bind),
     (NR_listen, hook_listen), (NR_setsockopt, hook_setsockopt), (NR_accept4, hook_accept4),
     (NR_poll, hook_poll), (NR_shmat, hook_shmat), (NR_shutdown, hook_shutdown)]"

definition syscall_table :: "(nat \<times> hook_syscall) list" where
  "syscall_table = syscall_cases @ syscall_more_cases"

lemmas syscall_table_cases = syscall_table_def syscall_cases_def syscall_more_cases_def append_Cons append_Nil

text \<open>The result \<^verbatim>\<open>(hook_syscall)-1\<close> of the default branch is \<open>None\<close>.\<close>

definition get_syscall_hook :: "i32 \<Rightarrow> hook_syscall option" where
  "get_syscall_hook syscall_number = map_of syscall_table (unat syscall_number)"

section \<open>What a forwarded call does\<close>

text \<open>
  Documented behaviour of \<^verbatim>\<open>arch_prctl(2)\<close> used here: setting a canonical segment base succeeds
  and writes no memory.
\<close>

definition prctl_works :: "kernel \<Rightarrow> bool" where
  "prctl_works K \<longleftrightarrow> prctl_keeps_bytes K \<and>
     (\<forall>tr m v. k_ret (K tr (K_syscall NR_arch_prctl [ARCH_SET_FS, v]) m) = 0 \<and>
               k_ret (K tr (K_syscall NR_arch_prctl [ARCH_SET_GS, v]) m) = 0)"

definition seg_calls :: "u64 \<Rightarrow> u64 \<Rightarrow> kcall list" where
  "seg_calls f g = [K_syscall NR_arch_prctl [ARCH_SET_FS, f], K_syscall NR_arch_prctl [ARCH_SET_GS, g]]"

lemma set_fs_gs_works:
  assumes "prctl_works K"
  shows "set_fs_gs K f g s = Inr (0, s\<lparr>ktrace := ktrace s @ seg_calls f g\<rparr>)"
  using assms
  by (simp add: set_fs_gs_def arch_prctl_def syscall_def libc_call_shape retR_def libc_ret_def
      seg_calls_def prctl_works_def prctl_keeps_bytes_def)

text \<open>
  The specification of a forwarded call: the kernel sees the two switches to the guest's segment
  bases, the call, and the two switches back; the guest sees the C library's result in \<^verbatim>\<open>rax\<close> and
  whatever the kernel wrote to memory, and nothing else changes.
\<close>

definition after_syscall :: "kernel \<Rightarrow> nat \<Rightarrow> u64 list \<Rightarrow> mach \<Rightarrow> mach" where
  "after_syscall K nr args s =
    (let tr = ktrace s @ seg_calls (instrumented_fs (dbi s)) (instrumented_gs (dbi s));
         rep = K tr (K_syscall nr args) (mem s)
     in (upd_guest (\<lambda>st. st\<lparr>rax := libc_ret (k_ret rep)\<rparr>) s)
          \<lparr>mem := k_mem rep,
           ktrace := tr @ K_syscall nr args # seg_calls (fs (host_state (dbi s))) (gs (host_state (dbi s)))\<rparr>)"

lemma upd_dbi_commute:
  "upd_dbi f (s\<lparr>mem := m\<rparr>) = (upd_dbi f s)\<lparr>mem := m\<rparr>"
  "upd_dbi f (s\<lparr>ktrace := tr\<rparr>) = (upd_dbi f s)\<lparr>ktrace := tr\<rparr>"
  by (simp_all add: upd_dbi_def)

lemma upd_guest_commute:
  "upd_guest f (s\<lparr>mem := m\<rparr>) = (upd_guest f s)\<lparr>mem := m\<rparr>"
  "upd_guest f (s\<lparr>ktrace := tr\<rparr>) = (upd_guest f s)\<lparr>ktrace := tr\<rparr>"
  by (simp_all add: upd_guest_def upd_dbi_commute)

lemma do_syscall_works:
  assumes "prctl_works K"
  shows "do_syscall K nr args s = Inr ((), after_syscall K nr args s)"
  by (simp add: do_syscall_def set_fs_gs_works [OF assms] syscall_def libc_call_shape
      after_syscall_def Let_def retR_def upd_guest_commute)

definition sys_args :: "state_rtime_t \<Rightarrow> u64 list" where
  "sys_args st = [rdi st, rsi st, rdx st, r10 st, r8 st, r9 st]"

definition passthru :: "nat \<Rightarrow> nat \<Rightarrow> hook_syscall" where
  "passthru nr k K s = bindR (do_syscall K nr (take k (sys_args (guest s))) s) (\<lambda>_ s. retR 0 s)"

text \<open>
  The numbers that the switch forwards: the number the guest asks for, the number the kernel is
  asked for, and how many of the six argument registers are passed on.
\<close>

definition forwarded :: "(nat \<times> nat \<times> nat) list" where
  "forwarded =
    [(20, 20, 3), (257, 257, 4), (5, 5, 2), (0, 0, 3), (10, 10, 3), (17, 17, 4), (11, 11, 2),
     (218, 218, 1), (273, 273, 2), (13, 13, 4), (14, 14, 4), (302, 302, 4), (137, 137, 2),
     (4, 4, 2), (102, 102, 1), (107, 107, 1), (108, 108, 1), (104, 104, 1), (202, 202, 3),
     (39, 39, 0), (186, 186, 0), (234, 234, 3), (41, 41, 3), (42, 42, 3), (1, 1, 3),
     (131, 131, 2), (262, 262, 5), (110, 39, 0), (16, 16, 3), (59, 59, 3), (58, 57, 0),
     (63, 63, 1), (72, 72, 3), (111, 111, 0), (109, 109, 2), (217, 217, 3), (332, 332, 5),
     (192, 192, 4), (221, 221, 2), (89, 89, 3), (38, 38, 3), (19, 19, 3), (8, 8, 3),
     (96, 96, 2), (56, 56, 4), (61, 61, 4), (6, 6, 2), (301, 301, 2), (69, 69, 4),
     (317, 317, 3), (209, 209, 3), (201, 201, 1), (229, 229, 2), (228, 228, 2), (291, 291, 1),
     (290, 290, 2), (293, 293, 2), (79, 79, 2), (80, 80, 1), (95, 95, 1), (83, 83, 2),
     (49, 49, 3), (50, 50, 2), (54, 54, 5), (288, 288, 4), (7, 7, 3), (30, 30, 3), (48, 48, 2)]"

lemmas passthru_defs =
  hook_writev_def hook_openat_def hook_fstat_def hook_read_def hook_mprotect_def
  hook_pread64_def hook_munmap_def hook_set_tid_address_def hook_set_robust_list_def
  hook_rt_sigaction_def hook_rt_sigprocmask_def hook_prlimit64_def hook_statfs_def
  hook_stat_def hook_getuid_def hook_geteuid_def hook_getegid_def hook_getgid_def
  hook_futex_def hook_getpid_def hook_gettid_def hook_tgkill_def hook_socket_def
  hook_connect_def hook_write_def hook_sigaltstack_def hook_newfstatat_def hook_getppid_def
  hook_ioctl_def hook_execve_def hook_vfork_def hook_uname_def hook_fcntl_def hook_getpgrp_def
  hook_setpgid_def hook_getdents64_def hook_statx_def hook_lgetxattr_def hook_fadvise64_def
  hook_readlink_def hook_setitimer_def hook_readv_def hook_lseek_def hook_gettimeofday_def
  hook_clone_def hook_wait4_def hook_lstat_def hook_fanotify_mark_def hook_msgsnd_def
  hook_seccomp_def hook_io_submit_def hook_time_def hook_clock_getres_def
  hook_clock_gettime_def hook_epoll_create1_def hook_eventfd2_def hook_pipe2_def
  hook_getcwd_def hook_chdir_def hook_umask_def hook_mkdir_def hook_bind_def hook_listen_def
  hook_setsockopt_def hook_accept4_def hook_poll_def hook_shmat_def hook_shutdown_def

lemma forwarded_table:
  "list_all (\<lambda>(n, nr, k). map_of syscall_table n = Some (passthru nr k)) forwarded"
  unfolding forwarded_def list.pred_inject
  by (simp add: syscall_table_cases passthru_def passthru_defs sys_args_def fun_eq_iff)

lemma forwarded_hook:
  assumes "(n, nr, k) \<in> set forwarded"
  shows "get_syscall_hook (of_nat n) = Some (passthru nr k)"
proof -
  have "list_all (\<lambda>(n, nr, k). n < 2 ^ 32) forwarded" by (simp add: forwarded_def)
  then have "unat (of_nat n :: i32) = n"
    using assms by (auto simp: list_all_iff unat_of_nat take_bit_nat_eq_self)
  then show ?thesis
    using assms forwarded_table by (auto simp: get_syscall_hook_def list_all_iff)
qed

section \<open>The contract of the switch\<close>

text \<open>
  What a handler may change: memory, the trace, \<^verbatim>\<open>must_change\<close>, the guest's \<^verbatim>\<open>rax\<close>, its segment
  bases and its break.  Two processes agree on the rest if they are equal once these are erased.
\<close>

definition sys_erase :: "mach \<Rightarrow> mach" where
  "sys_erase s = (upd_dbi (\<lambda>d. d\<lparr>state := (state d)\<lparr>rax := 0\<rparr>, instrumented_fs := 0,
       instrumented_gs := 0, vbrk := 0\<rparr>) s)\<lparr>mem := (\<lambda>_. 0), ktrace := [], must_change := False\<rparr>"

definition sys_frame :: "mach \<Rightarrow> mach \<Rightarrow> bool" where
  "sys_frame s s' \<longleftrightarrow> sys_erase s' = sys_erase s"

lemma sys_frame_refl [simp, intro]: "sys_frame s s"
  by (simp add: sys_frame_def)

lemma sys_frame_trans [trans]: "sys_frame s t \<Longrightarrow> sys_frame t u \<Longrightarrow> sys_frame s u"
  by (simp add: sys_frame_def)

lemma sys_frame_updates [simp]:
  "sys_frame s (t\<lparr>mem := m\<rparr>) \<longleftrightarrow> sys_frame s t"
  "sys_frame s (t\<lparr>ktrace := tr\<rparr>) \<longleftrightarrow> sys_frame s t"
  "sys_frame s (t\<lparr>must_change := c\<rparr>) \<longleftrightarrow> sys_frame s t"
  "sys_frame s (upd_guest (\<lambda>st. st\<lparr>rax := r\<rparr>) t) \<longleftrightarrow> sys_frame s t"
  "sys_frame s (upd_dbi (\<lambda>d. d\<lparr>instrumented_fs := f\<rparr>) t) \<longleftrightarrow> sys_frame s t"
  "sys_frame s (upd_dbi (\<lambda>d. d\<lparr>instrumented_gs := f\<rparr>) t) \<longleftrightarrow> sys_frame s t"
  "sys_frame s (upd_dbi (\<lambda>d. d\<lparr>vbrk := f\<rparr>) t) \<longleftrightarrow> sys_frame s t"
  "sys_frame (t\<lparr>mem := m\<rparr>) s \<longleftrightarrow> sys_frame t s"
  "sys_frame (t\<lparr>ktrace := tr\<rparr>) s \<longleftrightarrow> sys_frame t s"
  "sys_frame (t\<lparr>must_change := c\<rparr>) s \<longleftrightarrow> sys_frame t s"
  "sys_frame (upd_guest (\<lambda>st. st\<lparr>rax := r\<rparr>) t) s \<longleftrightarrow> sys_frame t s"
  "sys_frame (upd_dbi (\<lambda>d. d\<lparr>instrumented_fs := f\<rparr>) t) s \<longleftrightarrow> sys_frame t s"
  "sys_frame (upd_dbi (\<lambda>d. d\<lparr>instrumented_gs := f\<rparr>) t) s \<longleftrightarrow> sys_frame t s"
  "sys_frame (upd_dbi (\<lambda>d. d\<lparr>vbrk := f\<rparr>) t) s \<longleftrightarrow> sys_frame t s"
  by (simp_all add: sys_frame_def sys_erase_def upd_guest_def upd_dbi_def)

lemma sys_frame_dest:
  assumes "sys_frame s s'"
  shows "rip (guest s') = rip (guest s)" "rsp (guest s') = rsp (guest s)"
    "rflags (guest s') = rflags (guest s)" "(guest s')\<lparr>rax := 0\<rparr> = (guest s)\<lparr>rax := 0\<rparr>"
    "dump (dbi s') = dump (dbi s)" "restore (dbi s') = restore (dbi s)"
    "curr_hook (dbi s') = curr_hook (dbi s)" "length_cflow (dbi s') = length_cflow (dbi s)"
    "host_state (dbi s') = host_state (dbi s)" "take_callback (dbi s') = take_callback (dbi s)"
    "hashmap (dbi s') = hashmap (dbi s)" "curr_syscall s' = curr_syscall s"
proof -
  have e: "rip (guest (sys_erase s)) = rip (guest s)" "rsp (guest (sys_erase s)) = rsp (guest s)"
    "rflags (guest (sys_erase s)) = rflags (guest s)"
    "guest (sys_erase s) = (guest s)\<lparr>rax := 0\<rparr>"
    "dump (dbi (sys_erase s)) = dump (dbi s)" "restore (dbi (sys_erase s)) = restore (dbi s)"
    "curr_hook (dbi (sys_erase s)) = curr_hook (dbi s)"
    "length_cflow (dbi (sys_erase s)) = length_cflow (dbi s)"
    "host_state (dbi (sys_erase s)) = host_state (dbi s)"
    "take_callback (dbi (sys_erase s)) = take_callback (dbi s)"
    "hashmap (dbi (sys_erase s)) = hashmap (dbi s)"
    "curr_syscall (sys_erase s) = curr_syscall s" for s
    by (simp_all add: sys_erase_def)
  from assms have eq: "sys_erase s' = sys_erase s" by (simp add: sys_frame_def)
  show "rip (guest s') = rip (guest s)" "rsp (guest s') = rsp (guest s)"
    "rflags (guest s') = rflags (guest s)" "(guest s')\<lparr>rax := 0\<rparr> = (guest s)\<lparr>rax := 0\<rparr>"
    "dump (dbi s') = dump (dbi s)" "restore (dbi s') = restore (dbi s)"
    "curr_hook (dbi s') = curr_hook (dbi s)" "length_cflow (dbi s') = length_cflow (dbi s)"
    "host_state (dbi s') = host_state (dbi s)" "take_callback (dbi s') = take_callback (dbi s)"
    "hashmap (dbi s') = hashmap (dbi s)" "curr_syscall s' = curr_syscall s"
    using e [of s] e [of s'] unfolding eq by auto
qed

text \<open>
  The contract of a lookup of handlers: a handler that returns, returns 0 and respects the frame.
  The client lemma: calling it leaves the guest's program counter, stack pointer and flags and
  every hook descriptor alone, so what the engine computed from them stays valid.
\<close>

locale syscall_dispatch =
  fixes lookup :: "i32 \<Rightarrow> hook_syscall option"
  assumes handler_returns_0: "lookup n = Some h \<Longrightarrow> h K s = Inr (r, s') \<Longrightarrow> r = 0"
    and handler_frame: "lookup n = Some h \<Longrightarrow> h K s = Inr (r, s') \<Longrightarrow> sys_frame s s'"
begin

lemma keeps_hooks:
  assumes "lookup n = Some h" and "h K s = Inr (r, s')"
  shows "dump (dbi s') = dump (dbi s) \<and> restore (dbi s') = restore (dbi s)
    \<and> curr_hook (dbi s') = curr_hook (dbi s) \<and> length_cflow (dbi s') = length_cflow (dbi s)"
  using sys_frame_dest [OF handler_frame [OF assms]] by simp

lemma keeps_registers:
  assumes "lookup n = Some h" and "h K s = Inr (r, s')"
  shows "(guest s')\<lparr>rax := 0\<rparr> = (guest s)\<lparr>rax := 0\<rparr>"
  using sys_frame_dest [OF handler_frame [OF assms]] by simp

end

lemma libc_call_frame: "libc_call K c s = Inr (r, s') \<Longrightarrow> sys_frame s s'"
  by (auto simp: libc_call_shape)

lemma set_fs_gs_frame: "set_fs_gs K f g s = Inr (r, s') \<Longrightarrow> sys_frame s s'"
  by (auto simp: set_fs_gs_def arch_prctl_def syscall_def bindR_eq_Inr libc_call_shape
      split: if_splits)

lemma do_syscall_frame: "do_syscall K nr args s = Inr (u, s') \<Longrightarrow> sys_frame s s'"
  unfolding do_syscall_def syscall_def Let_def
  by (auto simp: bindR_eq_Inr split: if_splits dest!: set_fs_gs_frame libc_call_frame)
    (meson sys_frame_trans)

definition handler_ok :: "hook_syscall \<Rightarrow> bool" where
  "handler_ok h \<longleftrightarrow> (\<forall>K s r s'. h K s = Inr (r, s') \<longrightarrow> r = 0 \<and> sys_frame s s')"

lemma handler_ok_passthru: "handler_ok (passthru nr k)"
  by (auto simp: handler_ok_def passthru_def bindR_eq_Inr dest: do_syscall_frame)

lemma handler_ok_special:
  "handler_ok hook_access" "handler_ok hook_mmap" "handler_ok hook_exit" "handler_ok hook_exit_grp"
  "handler_ok hook_close"
  by (auto simp: handler_ok_def hook_access_def hook_mmap_def hook_exit_def hook_exit_grp_def
      hook_close_def bindR_eq_Inr Let_def split: if_splits dest: do_syscall_frame)

lemma handler_ok_brk: "handler_ok hook_brk"
  by (auto simp: handler_ok_def hook_brk_def bindR_eq_Inr Let_def mmap_def
      split: if_splits dest!: libc_call_frame)

lemma handler_ok_arch_prctl: "handler_ok hook_arch_prctl"
  unfolding handler_ok_def hook_arch_prctl_def Let_def syscall_def
  by (auto simp: bindR_eq_Inr split: if_splits dest!: libc_call_frame set_fs_gs_frame)
    (meson sys_frame_trans)

lemma table_cases:
  assumes "get_syscall_hook n = Some h"
  shows "h \<in> {hook_brk, hook_arch_prctl, hook_access, hook_mmap, hook_exit, hook_exit_grp, hook_close}
    \<or> (\<exists>nr k. h = passthru nr k)"
proof -
  have m: "map_of syscall_table (unat n) = Some h" using assms by (simp add: get_syscall_hook_def)
  then have "unat n \<in> set (map fst syscall_table)" by (force dest: map_of_SomeD)
  moreover have "set (map fst syscall_table) \<subseteq> {12, 158, 21, 9, 60, 231, 3} \<union> set (map fst forwarded)"
    by (simp add: syscall_table_cases forwarded_def)
  ultimately consider "unat n \<in> {12, 158, 21, 9, 60, 231, 3}" | "unat n \<in> set (map fst forwarded)"
    by blast
  then show ?thesis
  proof cases
    case 1
    have "map_of syscall_table 12 = Some hook_brk" "map_of syscall_table 158 = Some hook_arch_prctl"
      "map_of syscall_table 21 = Some hook_access" "map_of syscall_table 9 = Some hook_mmap"
      "map_of syscall_table 60 = Some hook_exit" "map_of syscall_table 231 = Some hook_exit_grp"
      "map_of syscall_table 3 = Some hook_close"
      by (simp_all add: syscall_table_cases)
    with 1 m show ?thesis by auto
  next
    case 2
    then obtain nr k where "(unat n, nr, k) \<in> set forwarded" by auto
    with forwarded_table have "map_of syscall_table (unat n) = Some (passthru nr k)"
      unfolding list_all_iff by fast
    with m show ?thesis by auto
  qed
qed

lemma get_syscall_hook_ok: "get_syscall_hook n = Some h \<Longrightarrow> handler_ok h"
  using table_cases handler_ok_passthru handler_ok_special handler_ok_brk handler_ok_arch_prctl
  by blast

interpretation sysd: syscall_dispatch get_syscall_hook
  by unfold_locales (use get_syscall_hook_ok in \<open>auto simp: handler_ok_def\<close>)

section \<open>Properties\<close>

lemma prctl_works_granting [simp]: "prctl_works granting_kernel"
  by (simp add: prctl_works_def prctl_keeps_bytes_def granting_kernel_def)

text \<open>
  C15: every system call number that the switch forwards reaches the kernel with the first \<open>k\<close>
  argument registers in system call order, between the switch to the guest's segment bases and
  the switch back to the host's; the handler returns 0, the guest's \<^verbatim>\<open>rax\<close> is the C library's
  result, and memory is what the kernel left.  The number passed on is the guest's, except
  that \<^verbatim>\<open>getppid\<close> (110) is answered by \<^verbatim>\<open>getpid\<close> (39) and \<^verbatim>\<open>vfork\<close> (58) by \<^verbatim>\<open>fork\<close> (57).
\<close>

theorem forwarded_syscalls:
  assumes "(n, nr, k) \<in> set forwarded" and "prctl_works K"
  shows "\<exists>h. get_syscall_hook (of_nat n) = Some h \<and>
     h K s = Inr (0, after_syscall K nr (take k (sys_args (guest s))) s) \<and>
     (n = nr \<or> (n, nr) \<in> {(110, 39), (58, 57)})"
proof -
  have "list_all (\<lambda>(n, nr, k). n = nr \<or> (n, nr) \<in> {(110, 39), (58, 57)}) forwarded"
    by (simp add: forwarded_def)
  then have "n = nr \<or> (n, nr) \<in> {(110, 39), (58, 57)}"
    using assms(1) unfolding list_all_iff by fast
  then show ?thesis
    using forwarded_hook [OF assms(1)]
    by (simp add: passthru_def do_syscall_works [OF assms(2)] retR_def)
qed

lemma forwarded_syscalls_witness:
  "\<exists>h. get_syscall_hook 1 = Some h \<and>
     h granting_kernel zero_mach = Inr (0, after_syscall granting_kernel 1 [0, 0, 0] zero_mach)"
proof -
  have "(1, 1, 3) \<in> set forwarded" by (simp add: forwarded_def)
  moreover have "take 3 (sys_args (guest zero_mach)) = [0, 0, 0]"
    by (simp add: sys_args_def zero_mach_def zero_dbi_def calloc_state_def)
  ultimately show ?thesis
    using forwarded_syscalls [of 1 1 3 granting_kernel zero_mach] by auto
qed

text \<open>
  An error of the kernel reaches the guest as \<open>-1\<close>, whatever the error number: a raw
  result from \<open>-4095\<close> to \<open>-1\<close> of the forwarded call leaves \<open>-1\<close> in \<^verbatim>\<open>rax\<close>, every other result
  is passed on unchanged.
\<close>

lemma syscall_error_collapses:
  assumes "prctl_works K" and "(n, nr, k) \<in> set forwarded"
    and "r = k_ret (K (ktrace s @ seg_calls (instrumented_fs (dbi s)) (instrumented_gs (dbi s)))
              (K_syscall nr (take k (sys_args (guest s)))) (mem s))"
  shows "\<exists>h s'. get_syscall_hook (of_nat n) = Some h \<and> h K s = Inr (0, s') \<and>
     rax (guest s') = (if r \<ge> -4095 then -1 else r)"
  using forwarded_hook [OF assms(2)] assms(3)
  by (simp add: passthru_def do_syscall_works [OF assms(1)] retR_def after_syscall_def
      libc_ret_def Let_def)

lemma syscall_error_collapses_witness:
  "\<exists>h s'. get_syscall_hook 3000 = None \<and> get_syscall_hook 137 = Some h
     \<and> h (\<lambda>tr c m. \<lparr>k_ret = (if c = K_syscall 137 [0, 0] then -2 else 0), k_out = 0, k_mem = m\<rparr>) zero_mach
         = Inr (0, s') \<and> rax (guest s') = -1"
proof -
  let ?K = "\<lambda>tr c m. \<lparr>k_ret = (if c = K_syscall 137 [0, 0] then -2 else 0), k_out = 0, k_mem = m\<rparr>"
  have 1: "prctl_works ?K" by (simp add: prctl_works_def prctl_keeps_bytes_def)
  have 2: "(137, 137, 2) \<in> set forwarded" by (simp add: forwarded_def)
  have 3: "take 2 (sys_args (guest zero_mach)) = [0, 0]"
    by (simp add: sys_args_def zero_mach_def zero_dbi_def calloc_state_def)
  have 4: "(-2 :: u64) \<ge> -4095" by simp
  have 5: "get_syscall_hook 3000 = None" by (simp add: get_syscall_hook_def syscall_table_cases)
  show ?thesis
    using syscall_error_collapses [OF 1 2 refl, of zero_mach] 3 4 5 by auto
qed

text \<open>
  C21: the contract of the switch: a handler that returns, returns 0, and leaves every guest
  register but \<^verbatim>\<open>rax\<close>, both hooks, \<^verbatim>\<open>curr_hook\<close> and \<^verbatim>\<open>length_cflow\<close> as they were.
\<close>

theorem handlers_keep_hooks:
  assumes "get_syscall_hook n = Some h" and "h K s = Inr (r, s')"
  shows "r = 0 \<and> (guest s')\<lparr>rax := 0\<rparr> = (guest s)\<lparr>rax := 0\<rparr> \<and>
    dump (dbi s') = dump (dbi s) \<and> restore (dbi s') = restore (dbi s) \<and>
    curr_hook (dbi s') = curr_hook (dbi s) \<and> length_cflow (dbi s') = length_cflow (dbi s)"
  using sysd.handler_returns_0 [OF assms] sysd.keeps_hooks [OF assms] sysd.keeps_registers [OF assms]
  by simp

lemma handlers_keep_hooks_witness:
  "\<exists>s'. hook_brk granting_kernel zero_mach = Inr (0, s') \<and>
     dump (dbi s') = dump (dbi zero_mach) \<and> restore (dbi s') = restore (dbi zero_mach)"
proof -
  have g: "get_syscall_hook 12 = Some hook_brk" by (simp add: get_syscall_hook_def syscall_table_cases)
  have z: "rdi (guest zero_mach) = 0" by (simp add: zero_mach_def zero_dbi_def calloc_state_def)
  then obtain s' where h: "hook_brk granting_kernel zero_mach = Inr (0, s')"
    by (auto simp: hook_brk_def retR_def Let_def)
  from handlers_keep_hooks [OF g h] h show ?thesis by blast
qed

lemma unat_ucast_32_64: "unat (ucast (w :: u32) :: u64) = unat w"
proof -
  have "unat w < 2 ^ 32" using unsigned_less [of w, where ?'a = nat] by simp
  then show ?thesis by (simp add: unsigned_ucast_eq take_bit_nat_eq_self)
qed

lemma unat_brk_length:
  assumes "unat sz < 2 ^ 32 - 4096"
  shows "unat (brk_length sz) = (unat sz div 4096 + 1) * 4096"
proof -
  have m: "take_bit 12 sz = sz AND 0xfff" by (simp add: take_bit_eq_mask mask_eq_exp_minus_1)
  have split: "(sz AND NOT 0xfff) + take_bit 12 sz = sz"
    unfolding m
  proof -
    have "(sz AND NOT 0xfff) + (sz AND 0xfff) = (sz AND NOT 0xfff) OR (sz AND 0xfff)"
      by (rule disjunctive_add) (auto simp: bit_simps)
    also have "\<dots> = sz" by (rule bit_word_eqI) (auto simp: bit_simps)
    finally show "(sz AND NOT 0xfff) + (sz AND 0xfff) = sz" .
  qed
  then have high: "sz AND NOT 0xfff = sz - take_bit 12 sz" by (metis add_diff_cancel_right')
  have low: "unat (take_bit 12 sz) = unat sz mod 4096" by (simp add: take_bit_eq_mod unat_mod)
  have "unat (sz AND NOT 0xfff) = unat sz - unat sz mod 4096"
    unfolding high using low by (simp add: unat_sub word_le_nat_alt)
  then have u: "unat (sz AND NOT 0xfff) = unat sz div 4096 * 4096"
    by (simp add: minus_mod_eq_div_mult)
  have "unat sz div 4096 * 4096 \<le> unat sz" by simp
  with assms have "unat sz div 4096 * 4096 + 4096 < 2 ^ 32" by linarith
  then have "unat ((sz AND NOT 0xfff) + 0xfff + 1) = unat sz div 4096 * 4096 + 4096"
    using u by (simp add: unat_word_ariths)
  then show ?thesis unfolding brk_length_def unat_ucast_32_64 by simp
qed

lemma pages_cover:
  "o' \<le> b \<Longrightarrow> b + d \<le> b - o' + (d div 4096 + 1) * 4096 \<longleftrightarrow> o' + d mod 4096 \<le> (4096 :: nat)"
proof -
  assume le: "o' \<le> b"
  have "d = d div 4096 * 4096 + d mod 4096" by simp
  then obtain q r where d: "d = q * 4096 + r" "d div 4096 = q" "d mod 4096 = r" by blast
  from le obtain c where b: "b = o' + c" by (auto simp: le_iff_add)
  show ?thesis unfolding d(2,3) b by (subst d(1)) simp
qed

lemma libc_ret_success: "x < -4095 \<Longrightarrow> libc_ret x = x \<and> x \<noteq> -1"
proof -
  assume x: "x < -4095"
  have "(-4095 :: u64) \<le> -1" by simp
  with x show ?thesis by (auto simp: libc_ret_def)
qed

lemma hook_brk_returns:
  assumes "hook_brk K s = Inr (r, s')"
  shows "r = 0 \<and> rax (guest s') = vbrk (dbi s') \<and> vbrk (dbi s) \<le> vbrk (dbi s') \<and>
     (vbrk (dbi s') = vbrk (dbi s) \<or> vbrk (dbi s') = rdi (guest s))"
  using assms
  by (auto simp: hook_brk_def bindR_eq_Inr Let_def mmap_def libc_call_shape split: if_splits)


text \<open>
  C22: a request that leaves the break's page, by less than $2^{32} - 4096$ bytes, makes one
  kernel call: an anonymous fixed mapping from the page of the old break on (the part of that
  page already in use included), one page longer than the whole pages of the increment.  The
  break becomes the requested one.  The mapping reaches the new break exactly when the old
  offset in its page and the increment's remainder together fit one page; otherwise the last
  page below the new break is not mapped.
\<close>

theorem brk_mapping:
  assumes "unat (vbrk (dbi s)) < unat (rdi (guest s))"
    and diff: "d = unat (rdi (guest s)) - unat (vbrk (dbi s))" and "d < 2 ^ 32 - 4096"
    and off: "o' = unat (vbrk (dbi s)) mod 4096" and "4096 < o' + d"
    and ok: "k_ret (K (ktrace s) (K_mmap (PAGE_ALIGN (vbrk (dbi s))) (of_nat ((d div 4096 + 1) * 4096)) 3 0x32
                  (-1) 0) (mem s)) < -4095"
  shows "\<exists>s'. hook_brk K s = Inr (0, s') \<and> vbrk (dbi s') = rdi (guest s) \<and> rax (guest s') = rdi (guest s) \<and>
     ktrace s' = ktrace s @ [K_mmap (PAGE_ALIGN (vbrk (dbi s))) (of_nat ((d div 4096 + 1) * 4096)) 3 0x32 (-1) 0] \<and>
     (unat (rdi (guest s)) \<le> unat (PAGE_ALIGN (vbrk (dbi s))) + (d div 4096 + 1) * 4096 \<longleftrightarrow>
        o' + d mod 4096 \<le> 4096)"
proof -
  let ?b = "vbrk (dbi s)" and ?r = "rdi (guest s)"
  have gt: "?b < ?r" and nz: "?r \<noteq> 0" using assms(1) by (auto simp: word_less_nat_alt)
  have d64: "unat (?r - ?b) = d" using gt diff by (simp add: unat_sub word_less_nat_alt word_le_nat_alt)
  have sz: "unat (ucast (?r - ?b) :: u32) = d"
    using d64 assms(3) by (simp add: unsigned_ucast_eq take_bit_nat_eq_self)
  have len: "brk_length (ucast (?r - ?b)) = of_nat ((d div 4096 + 1) * 4096)"
    using unat_brk_length [of "ucast (?r - ?b)"] sz assms(3) by (metis of_nat_unat ucast_id)
  have big: "ucast (ucast (?r - ?b) :: u32) + PAGE_OFFT ?b > PAGE_SZ"
  proof -
    have "unat (ucast (ucast (?r - ?b) :: u32) :: u64) = d" using sz by (simp only: unat_ucast_32_64)
    then have "unat (ucast (ucast (?r - ?b) :: u32) + PAGE_OFFT ?b) = d + o'"
      using assms(3) off unat_PAGE_OFFT [of ?b] by (simp add: unat_word_ariths)
    then show ?thesis using assms(5) by (simp add: word_less_nat_alt)
  qed
  have "unat (PAGE_ALIGN ?b) = unat ?b - o'" "o' \<le> unat ?b" "unat ?r = unat ?b + d"
    using unat_PAGE_ALIGN [of ?b] off diff assms(1) by simp_all
  then have cover: "unat ?r \<le> unat (PAGE_ALIGN ?b) + (d div 4096 + 1) * 4096 \<longleftrightarrow> o' + d mod 4096 \<le> 4096"
    using pages_cover [of o' "unat ?b" d] by (simp only:)
  show ?thesis
    unfolding cover hook_brk_def Let_def
    using gt nz big libc_ret_success [OF ok] by (simp add: len mmap_def libc_call_shape retR_def)
qed

lemma brk_mapping_witness:
  "\<exists>s'. hook_brk granting_kernel (upd_guest (\<lambda>st. st\<lparr>rdi := 0x2100\<rparr>) (upd_dbi (\<lambda>d. d\<lparr>vbrk := 0x800\<rparr>) zero_mach))
       = Inr (0, s') \<and> vbrk (dbi s') = 0x2100 \<and>
     ktrace s' = [K_mmap 0 0x2000 3 0x32 (-1) 0] \<and> \<not> (0x2100 :: nat) \<le> 0 + 0x2000"
proof -
  define s where "s = upd_guest (\<lambda>st. st\<lparr>rdi := 0x2100\<rparr>) (upd_dbi (\<lambda>d. d\<lparr>vbrk := 0x800\<rparr>) zero_mach)"
  have v: "vbrk (dbi s) = 0x800" "rdi (guest s) = 0x2100" "ktrace s = []"
    by (simp_all add: s_def) (simp add: zero_mach_def)
  have al: "PAGE_ALIGN 0x800 = 0" by (simp add: PAGE_ALIGN_def)
  have n: "((0x1900 :: nat) div 4096 + 1) * 4096 = 0x2000" by simp
  have w: "(of_nat 0x2000 :: u64) = 0x2000" by simp
  have neg: "(0 :: u64) < -4095" by code_simp
  have "\<exists>s'. hook_brk granting_kernel s = Inr (0, s') \<and> vbrk (dbi s') = 0x2100 \<and> rax (guest s') = 0x2100 \<and>
     ktrace s' = [] @ [K_mmap 0 0x2000 3 0x32 (-1) 0] \<and>
     (unat (0x2100 :: u64) \<le> unat (0 :: u64) + 0x2000 \<longleftrightarrow> 0x800 + (0x1900 :: nat) mod 4096 \<le> 4096)"
    by (rule brk_mapping [of s "0x1900" "0x800" granting_kernel, unfolded v al n w])
      (simp_all add: granting_kernel_def neg)
  then show ?thesis unfolding s_def by auto
qed

text \<open>
  C24: \<^verbatim>\<open>arch_prctl\<close> by the guest: setting \<^verbatim>\<open>fs\<close> records the base for later switches, executes the
  call and then restores both host segment bases; setting \<^verbatim>\<open>gs\<close> records the base and executes the
  call, and the host's \<^verbatim>\<open>gs\<close> base is not switched back.
\<close>

theorem arch_prctl_segments:
  assumes "prctl_works K" and "rdi (guest s) \<in> {ARCH_SET_FS, ARCH_SET_GS}"
  shows "\<exists>s'. hook_arch_prctl K s = Inr (0, s') \<and> rax (guest s') = 0 \<and> mem s' = mem s \<and>
     (if rdi (guest s) = ARCH_SET_FS
      then instrumented_fs (dbi s') = rsi (guest s) \<and> must_change s' \<and>
        ktrace s' = ktrace s @ K_syscall NR_arch_prctl [ARCH_SET_FS, rsi (guest s)]
          # seg_calls (fs (host_state (dbi s))) (gs (host_state (dbi s)))
      else instrumented_gs (dbi s') = rsi (guest s) \<and>
        ktrace s' = ktrace s @ [K_syscall NR_arch_prctl [ARCH_SET_GS, rsi (guest s)]])"
  using assms
  by (auto simp: hook_arch_prctl_def Let_def syscall_def libc_call_shape libc_ret_def retR_def
      set_fs_gs_works prctl_works_def prctl_keeps_bytes_def)

lemma arch_prctl_segments_witness:
  "\<exists>s'. hook_arch_prctl granting_kernel (upd_guest (\<lambda>st. st\<lparr>rdi := 0x1002, rsi := 0x7000\<rparr>) zero_mach)
       = Inr (0, s') \<and> instrumented_fs (dbi s') = 0x7000"
  using arch_prctl_segments
    [of granting_kernel "upd_guest (\<lambda>st. st\<lparr>rdi := 0x1002, rsi := 0x7000\<rparr>) zero_mach"]
  by auto

end
