(* ===== verification/Analysis.thy ===== *)
theory Analysis
  imports Syscall_Hook
begin

unbundle bit_operations_syntax

text \<open>
  \<^verbatim>\<open>src/analysis.c\<close>: finding the next control-flow instruction, deciding conditional branches from
  the saved flags, and emulating the branch.  The disassembler is not code of the repository: it
  is the parameter \<open>dis\<close>, which for an address and a list of bytes gives the first instruction or
  \<open>None\<close>.  \<open>disasm_ok\<close> states what is documented of it: instructions have 1 to 15 bytes, and an
  instruction is determined by the bytes it consumes.  The theorems show that the page-wise,
  recursive sweep of \<^verbatim>\<open>opcodes_cflow\<close> finds the first control-flow instruction of the plain linear
  sweep, that \<^verbatim>\<open>is_jmp_taken\<close> after a comparison decides the arithmetic relation, and what the
  emulated branches do.
\<close>

section \<open>Decoded instructions\<close>

datatype x86_grp =
    X86_GRP_CALL | X86_GRP_INT | X86_GRP_JUMP | X86_GRP_RET | X86_GRP_BRANCH_RELATIVE
  | X86_GRP_PRIVILEGE | X86_GRP_IRET | X86_GRP_VM | X86_GRP_other nat

datatype x86_insn =
    X86_INS_JE | X86_INS_JNE | X86_INS_JA | X86_INS_JAE | X86_INS_JB | X86_INS_JBE
  | X86_INS_JCXZ | X86_INS_JECXZ | X86_INS_JRCXZ | X86_INS_JG | X86_INS_JGE | X86_INS_JL
  | X86_INS_JLE | X86_INS_JO | X86_INS_JNO | X86_INS_JP | X86_INS_JNP | X86_INS_JS | X86_INS_JNS
  | X86_INS_JMP | X86_INS_other nat

text \<open>
  Operands: a register, an immediate (sign-extended to 64 bits by the disassembler, relative
  branches already resolved against the address it was given), or a memory reference with base,
  index, scale and displacement.
\<close>

datatype (plugins only: code) x86_op =
    X86_OP_INVALID
  | X86_OP_REG x86_reg
  | X86_OP_IMM u64
  | X86_OP_MEM x86_reg x86_reg u64 u64

record cs_insn =
  insn_id :: x86_insn
  insn_size :: nat
  groups :: "x86_grp list"
  operands :: "x86_op list"

type_synonym disassembler = "u64 \<Rightarrow> u8 list \<Rightarrow> cs_insn option"

definition operand0 :: "cs_insn \<Rightarrow> x86_op" where
  "operand0 i = (case operands i of [] \<Rightarrow> X86_OP_INVALID | x # _ \<Rightarrow> x)"

section \<open>Classes of instructions\<close>

definition is_cflow :: "x86_grp \<Rightarrow> bool" where
  "is_cflow g = (case g of X86_GRP_CALL \<Rightarrow> True | X86_GRP_INT \<Rightarrow> True | X86_GRP_JUMP \<Rightarrow> True
     | X86_GRP_RET \<Rightarrow> True | X86_GRP_BRANCH_RELATIVE \<Rightarrow> True | X86_GRP_PRIVILEGE \<Rightarrow> True
     | X86_GRP_IRET \<Rightarrow> True | X86_GRP_VM \<Rightarrow> True | _ \<Rightarrow> False)"

definition is_ret :: "x86_grp \<Rightarrow> bool" where
  "is_ret g = (g = X86_GRP_RET)"

definition is_call :: "x86_grp \<Rightarrow> bool" where
  "is_call g = (g = X86_GRP_CALL)"

definition is_interrupt :: "x86_grp \<Rightarrow> bool" where
  "is_interrupt g = (g = X86_GRP_INT \<or> g = X86_GRP_PRIVILEGE \<or> g = X86_GRP_IRET)"

definition is_syscall :: "x86_grp \<Rightarrow> bool" where
  "is_syscall g = (g = X86_GRP_INT)"

section \<open>The sweep for the next control-flow instruction\<close>

text \<open>
  The loop of \<^verbatim>\<open>opcodes_cflow\<close>.  \<open>buf\<close> is what is left of the buffer, \<open>n\<close> and \<open>beg\<close> are the C
  variables (\<open>n\<close> an \<^verbatim>\<open>int\<close>, compared as a \<^verbatim>\<open>size_t\<close>).  The result is \<open>Inl n\<close> when a control-flow
  instruction was found at offset \<open>n\<close> and \<open>Inr n\<close> when the loop ran out of bytes or of decodable
  instructions.
\<close>

fun cflow_loop :: "nat \<Rightarrow> disassembler \<Rightarrow> u64 \<Rightarrow> u64 \<Rightarrow> u8 list \<Rightarrow> i32 \<Rightarrow> bool \<Rightarrow> mach \<Rightarrow> (i32 + i32) run" where
  "cflow_loop 0 dis saved_size addr buf n beg s = haltR Out_of_fuel s"
| "cflow_loop (Suc fuel) dis saved_size addr buf n beg s =
    (if \<not> scast n < saved_size then retR (Inr n) s
     else case dis addr buf of
        None \<Rightarrow> retR (Inr n) s
      | Some i \<Rightarrow>
          let s = upd_dbi (\<lambda>d. d\<lparr>cps_count := cps_count d + 1\<rparr>) s in
          if list_ex (\<lambda>g. is_cflow g \<and> \<not> (beg \<and> curr_syscall s)) (groups i) then retR (Inl n) s
          else cflow_loop fuel dis saved_size (addr + of_nat (insn_size i)) (drop (insn_size i) buf)
                 (n + of_nat (insn_size i)) False (s\<lparr>curr_syscall := False\<rparr>))"

text \<open>
  The first argument bounds the depth of the recursion.  The inner loop is given one unit per
  byte of the buffer, plus one.
\<close>

fun opcodes_cflow :: "nat \<Rightarrow> kernel \<Rightarrow> disassembler \<Rightarrow> u64 \<Rightarrow> bool \<Rightarrow> mach \<Rightarrow> i32 run" where
  "opcodes_cflow 0 K dis addr beg s = haltR Out_of_fuel s"
| "opcodes_cflow (Suc fuel) K dis addr beg s =
    (if \<not> is_mapped addr s then retR (-1) s
     else bindR (mem_read K (replicate 4096 0) addr PAGE_SZ s) (\<lambda>(r, buf) s.
       if r = -1 then fatal_dump K s
       else bindR (cflow_loop 4097 dis (scast r) addr buf 0 beg s) (\<lambda>res s.
         case res of
           Inl n \<Rightarrow> retR n s
         | Inr n \<Rightarrow>
             if is_mapped (addr + scast n) s \<and> n \<noteq> 0
             then bindR (opcodes_cflow fuel K dis (addr + scast n) True s) (\<lambda>r s. retR (n + r) s)
             else fatal_dump K s)))"

text \<open>\<^verbatim>\<open>cs_malloc\<close> succeeds.\<close>

definition insn_len :: "kernel \<Rightarrow> disassembler \<Rightarrow> u64 \<Rightarrow> mach \<Rightarrow> u64 run" where
  "insn_len K dis target s =
    (if \<not> is_mapped_range s target (of_nat INSTRUCTION_MAX_SZ) then fatal_dump K s
     else bindR (mem_read K (replicate 16 0) target (of_nat INSTRUCTION_MAX_SZ) s) (\<lambda>(r, buf) s.
       if r = -1 then fatal_dump K s
       else case dis target buf of
          Some i \<Rightarrow> retR (of_nat (insn_size i)) s
        | None \<Rightarrow> retR (-1) s))"

section \<open>Flags and conditional branches\<close>

text \<open>Reading a register through a hashmap without an entry is a null dereference.\<close>

definition reg_val :: "x86_reg \<Rightarrow> mach \<Rightarrow> u64 run" where
  "reg_val k s = (case read_reg k (hashmap (dbi s)) (guest s) of None \<Rightarrow> haltR Segfault s | Some v \<Rightarrow> retR v s)"

definition is_set :: "kernel \<Rightarrow> u64 \<Rightarrow> mach \<Rightarrow> bool run" where
  "is_set K flag s =
     bindR (reg_val X86_REG_EFLAGS s) (\<lambda>eflags s.
       if eflags = -1 then fatal_dump K s else retR (eflags AND flag \<noteq> 0) s)"

definition not_set :: "kernel \<Rightarrow> u64 \<Rightarrow> mach \<Rightarrow> bool run" where
  "not_set K flag s = bindR (is_set K flag s) (\<lambda>b s. retR (\<not> b) s)"

definition sf_eq_of :: "kernel \<Rightarrow> mach \<Rightarrow> bool run" where
  "sf_eq_of K s = bindR (is_set K SF s) (\<lambda>a s. bindR (is_set K OF s) (\<lambda>b s. retR (a = b) s))"

fun is_jmp_taken :: "kernel \<Rightarrow> x86_insn \<Rightarrow> mach \<Rightarrow> bool run" where
  "is_jmp_taken K X86_INS_JE s = is_set K ZF s"
| "is_jmp_taken K X86_INS_JNE s = not_set K ZF s"
| "is_jmp_taken K X86_INS_JA s =
     bindR (not_set K CF s) (\<lambda>b s. if b then not_set K ZF s else retR False s)"
| "is_jmp_taken K X86_INS_JAE s = not_set K CF s"
| "is_jmp_taken K X86_INS_JB s = is_set K CF s"
| "is_jmp_taken K X86_INS_JBE s =
     bindR (is_set K CF s) (\<lambda>b s. if b then retR True s else is_set K ZF s)"
| "is_jmp_taken K X86_INS_JCXZ s = bindR (reg_val X86_REG_CX s) (\<lambda>v s. retR (v = 0) s)"
| "is_jmp_taken K X86_INS_JECXZ s = bindR (reg_val X86_REG_ECX s) (\<lambda>v s. retR (v = 0) s)"
| "is_jmp_taken K X86_INS_JRCXZ s = bindR (reg_val X86_REG_RCX s) (\<lambda>v s. retR (v = 0) s)"
| "is_jmp_taken K X86_INS_JG s =
     bindR (not_set K ZF s) (\<lambda>b s. if b then sf_eq_of K s else retR False s)"
| "is_jmp_taken K X86_INS_JGE s = sf_eq_of K s"
| "is_jmp_taken K X86_INS_JL s = bindR (sf_eq_of K s) (\<lambda>b s. retR (\<not> b) s)"
| "is_jmp_taken K X86_INS_JLE s =
     bindR (is_set K ZF s) (\<lambda>b s. if b then retR True s else bindR (sf_eq_of K s) (\<lambda>b s. retR (\<not> b) s))"
| "is_jmp_taken K X86_INS_JO s = is_set K OF s"
| "is_jmp_taken K X86_INS_JNO s = not_set K OF s"
| "is_jmp_taken K X86_INS_JP s = is_set K PF s"
| "is_jmp_taken K X86_INS_JNP s = not_set K PF s"
| "is_jmp_taken K X86_INS_JS s = is_set K SF s"
| "is_jmp_taken K X86_INS_JNS s = not_set K SF s"
| "is_jmp_taken K X86_INS_JMP s = retR True s"
| "is_jmp_taken K (X86_INS_other _) s = fatal_dump K s"

text \<open>
  The disassembler's constants for tested flags are arguments; the parity flag is not among the
  eight that the source lists.
\<close>

definition is_test :: "u64 \<Rightarrow> u64 \<Rightarrow> u64 \<Rightarrow> u64 \<Rightarrow> u64 \<Rightarrow> u64 \<Rightarrow> u64 \<Rightarrow> u64 \<Rightarrow> u64 \<Rightarrow> bool" where
  "is_test test_af test_cf test_df test_if test_of test_sf test_tf test_zf cs_eflags =
     (cs_eflags AND (test_af OR test_cf OR test_df OR test_if OR test_of OR test_sf OR test_tf OR test_zf) \<noteq> 0)"

text \<open>
  \<^verbatim>\<open>1 << (size*8 - 1)\<close> is an \<^verbatim>\<open>int\<close>, sign-extended in the conjunction; \<open>None\<close> where a shift
  amount is outside the width of its operand, which C leaves undefined.
\<close>

definition sign_extend :: "u64 \<Rightarrow> u64 \<Rightarrow> u64 option" where
  "sign_extend sz value =
    (let b = unat sz * 8 - 1 in
     if unat sz = 0 \<or> 32 \<le> b then None
     else Some (push_bit (63 - (unat sz - 1)) (value AND scast (push_bit b (1 :: i32)))
                OR (value AND NOT (scast (push_bit b (0 :: i32))))))"

section \<open>Emulating the branch\<close>

text \<open>
  The memory operand of a branch: both registers have to be readable (the value \<open>-1\<close> counts as
  unreadable), and the eight bytes at the effective address are the target.  The segment of the
  operand is not looked at.
\<close>

definition mem_operand :: "x86_reg \<Rightarrow> x86_reg \<Rightarrow> u64 \<Rightarrow> u64 \<Rightarrow> nat \<Rightarrow> mach \<Rightarrow> u64 run" where
  "mem_operand b ix scale disp sz s =
     bindR (reg_val b s) (\<lambda>vb s.
     bindR (if ix \<noteq> X86_REG_INVALID then reg_val ix s else retR 0 s) (\<lambda>vi s.
       if vb \<noteq> -1 \<and> vi \<noteq> -1
       then let vb = (if b = X86_REG_RIP then vb + of_nat sz else vb)
            in retR (read64 (mem s) (vb + vi * scale + disp)) s
       else retR (-1) s))"

definition eval_target_type :: "x86_op \<Rightarrow> bool \<Rightarrow> nat \<Rightarrow> mach \<Rightarrow> u64 run" where
  "eval_target_type opd is_rel sz s =
     (case opd of
        X86_OP_REG r \<Rightarrow> reg_val r s
      | X86_OP_IMM v \<Rightarrow> if is_rel then retR (v + rip (guest s)) s else retR v s
      | X86_OP_MEM b ix sc disp \<Rightarrow> mem_operand b ix sc disp sz s
      | X86_OP_INVALID \<Rightarrow> retR (-1) s)"

text \<open>
  The loop of \<^verbatim>\<open>__eval_target\<close> over the groups of the instruction; the first group that is a jump, a
  call, a return or a system call decides.  The flag \<^verbatim>\<open>achieve\<close> is false whenever it is read,
  since each branch of the loop body that sets it returns.
\<close>

fun eval_target_groups :: "kernel \<Rightarrow> cs_insn \<Rightarrow> u64 \<Rightarrow> x86_grp list \<Rightarrow> mach \<Rightarrow> u64 run" where
  "eval_target_groups K insn instruction [] s = haltR (Exit 1) s"
| "eval_target_groups K insn instruction (g # rest) s =
    (if g = X86_GRP_JUMP \<or> g = X86_GRP_BRANCH_RELATIVE \<or> is_call g then
       bindR (if is_call g then retR True s else is_jmp_taken K (insn_id insn) s) (\<lambda>taken s.
         if taken then
           let s = (if is_call g
                    then let s = upd_guest (\<lambda>st. st\<lparr>rsp := rsp st - 8\<rparr>) s
                         in s\<lparr>mem := write64 (mem s) (rsp (guest s)) (rip (guest s) + of_nat (insn_size insn))\<rparr>
                    else s)
           in (case operand0 insn of
                 X86_OP_REG r \<Rightarrow> reg_val r s
               | X86_OP_IMM v \<Rightarrow> retR (v + rip (guest s)) s
               | X86_OP_MEM b ix sc disp \<Rightarrow> mem_operand b ix sc disp (insn_size insn) s
               | X86_OP_INVALID \<Rightarrow> retR (-1) s)
         else retR (instruction + of_nat (insn_size insn)) s)
     else if is_ret g then
       let s = upd_guest (\<lambda>st. st\<lparr>rsp := rsp st + 8\<rparr>) s
       in bindR (reg_val X86_REG_RSP s) (\<lambda>v s. retR (read64 (mem s) (v - 8)) s)
     else if is_syscall g then
       (case get_syscall_hook (ucast (rax (guest s))) of
          Some sys_callback \<Rightarrow>
            bindR (set_fs_gs K (instrumented_fs (dbi s)) (instrumented_gs (dbi s)) s) (\<lambda>_ s.
            bindR (sys_callback K s) (\<lambda>ret s.
            bindR (set_fs_gs K (fs (host_state (dbi s))) (gs (host_state (dbi s))) s) (\<lambda>r s.
              if r \<noteq> 0 then fatal_dump K s
              else if ret \<noteq> 0 then retR ret s
              else retR (instruction + of_nat (insn_size insn)) s)))
        | None \<Rightarrow> retR instruction (s\<lparr>curr_syscall := True\<rparr>))
     else eval_target_groups K insn instruction rest s)"

definition eval_target_insn :: "kernel \<Rightarrow> cs_insn \<Rightarrow> u64 \<Rightarrow> mach \<Rightarrow> u64 run" where
  "eval_target_insn K insn instruction s = eval_target_groups K insn instruction (groups insn) s"

text \<open>
  The disassembler is given the address 0, so that an immediate is relative to the instruction.
  When it fails, the instruction pointer it leaves is null and \<^verbatim>\<open>__eval_target\<close> dereferences it.
\<close>

definition eval_target :: "kernel \<Rightarrow> disassembler \<Rightarrow> u64 \<Rightarrow> mach \<Rightarrow> u64 run" where
  "eval_target K dis instruction s =
     bindR (mem_read K (replicate 16 0) instruction (of_nat INSTRUCTION_MAX_SZ) s) (\<lambda>(r, buf) s.
       if r = -1 then retR (-1) s
       else case dis 0 buf of
          None \<Rightarrow> haltR Segfault s
        | Some insn \<Rightarrow>
            eval_target_insn K insn instruction (upd_dbi (\<lambda>d. d\<lparr>cps_count := cps_count d + 1\<rparr>) s))"

section \<open>The linear sweep\<close>

definition disasm_ok :: "disassembler \<Rightarrow> bool" where
  "disasm_ok dis \<longleftrightarrow> (\<forall>a bs i. dis a bs = Some i \<longrightarrow>
     0 < insn_size i \<and> insn_size i \<le> 15 \<and> insn_size i \<le> length bs \<and>
     (\<forall>b cs2. take (insn_size i) cs2 = take (insn_size i) bs \<longrightarrow>
        (\<exists>j. dis b cs2 = Some j \<and> insn_size j = insn_size i \<and> groups j = groups i)))"

definition decode :: "disassembler \<Rightarrow> memory \<Rightarrow> u64 \<Rightarrow> cs_insn option" where
  "decode dis m a = dis a (read_bytes m a INSTRUCTION_MAX_SZ)"

text \<open>
  The specification: \<open>cflow_at dis m a n\<close> says that decoding instruction after instruction from \<open>a\<close>
  meets the first control-flow instruction at \<open>a + n\<close>.
\<close>

inductive cflow_at :: "disassembler \<Rightarrow> memory \<Rightarrow> u64 \<Rightarrow> nat \<Rightarrow> bool" for dis m where
  here: "decode dis m a = Some i \<Longrightarrow> list_ex is_cflow (groups i) \<Longrightarrow> cflow_at dis m a 0"
| further: "decode dis m a = Some i \<Longrightarrow> \<not> list_ex is_cflow (groups i) \<Longrightarrow>
    cflow_at dis m (a + of_nat (insn_size i)) n \<Longrightarrow> cflow_at dis m a (insn_size i + n)"

inductive_cases cflow_atE: "cflow_at dis m a n"

lemma disasm_sizes:
  assumes "disasm_ok dis" and "dis a bs = Some i"
  shows "0 < insn_size i" "insn_size i \<le> 15" "insn_size i \<le> length bs"
  using assms unfolding disasm_ok_def by blast+

lemma disasm_determined:
  assumes "disasm_ok dis" and "dis a bs = Some i" and "take (insn_size i) cs2 = take (insn_size i) bs"
  obtains j where "dis b cs2 = Some j" "insn_size j = insn_size i" "groups j = groups i"
  using assms unfolding disasm_ok_def by blast

lemma decode_buffer:
  assumes dis: "disasm_ok dis" and i: "dis b (read_bytes m a r) = Some i"
  obtains j where "decode dis m a = Some j" "insn_size j = insn_size i" "groups j = groups i"
proof -
  have "insn_size i \<le> r" "insn_size i \<le> 15" using disasm_sizes [OF dis i] by simp_all
  then have "take (insn_size i) (read_bytes m a 16) = take (insn_size i) (read_bytes m a r)"
    by (simp add: take_read_bytes)
  from disasm_determined [OF dis i this, of a] that show thesis by (auto simp: decode_def)
qed

lemma buffer_decode:
  assumes dis: "disasm_ok dis" and j: "decode dis m a = Some j" and r: "insn_size j \<le> r"
  obtains i where "dis b (read_bytes m a r) = Some i" "insn_size i = insn_size j" "groups i = groups j"
proof -
  have j': "dis a (read_bytes m a 16) = Some j" using j by (simp add: decode_def)
  have "insn_size j \<le> 15" using disasm_sizes [OF dis j'] by simp
  then have "take (insn_size j) (read_bytes m a r) = take (insn_size j) (read_bytes m a 16)"
    using r by (simp add: take_read_bytes)
  from disasm_determined [OF dis j' this, of b] that show thesis by blast
qed

lemma decode_size: "disasm_ok dis \<Longrightarrow> decode dis m a = Some j \<Longrightarrow> 0 < insn_size j \<and> insn_size j \<le> 15"
  unfolding decode_def using disasm_sizes by blast

lemma cflow_at_decodes: "cflow_at dis m a n \<Longrightarrow> \<exists>j. decode dis m a = Some j"
  by (erule cflow_atE) auto

text \<open>What the sweep may change: the instruction count, the trace and \<^verbatim>\<open>curr_syscall\<close>.\<close>

definition scan_erase :: "mach \<Rightarrow> mach" where
  "scan_erase s = (upd_dbi (\<lambda>d. d\<lparr>cps_count := 0\<rparr>) s)\<lparr>ktrace := [], curr_syscall := False\<rparr>"

definition scan_frame :: "mach \<Rightarrow> mach \<Rightarrow> bool" where
  "scan_frame s s' \<longleftrightarrow> scan_erase s' = scan_erase s"

lemma scan_frame_refl [simp, intro]: "scan_frame s s"
  by (simp add: scan_frame_def)

lemma scan_frame_trans [trans]: "scan_frame s t \<Longrightarrow> scan_frame t u \<Longrightarrow> scan_frame s u"
  by (simp add: scan_frame_def)

lemma scan_frame_updates [simp]:
  "scan_frame s (t\<lparr>ktrace := tr\<rparr>) \<longleftrightarrow> scan_frame s t"
  "scan_frame s (t\<lparr>curr_syscall := c\<rparr>) \<longleftrightarrow> scan_frame s t"
  "scan_frame s (upd_dbi (\<lambda>d. d\<lparr>cps_count := f d\<rparr>) t) \<longleftrightarrow> scan_frame s t"
  "scan_frame (t\<lparr>ktrace := tr\<rparr>) s \<longleftrightarrow> scan_frame t s"
  "scan_frame (t\<lparr>curr_syscall := c\<rparr>) s \<longleftrightarrow> scan_frame t s"
  "scan_frame (upd_dbi (\<lambda>d. d\<lparr>cps_count := f d\<rparr>) t) s \<longleftrightarrow> scan_frame t s"
  by (simp_all add: scan_frame_def scan_erase_def upd_dbi_def)

lemma of_nat_less_small:
  assumes "k \<le> 4096" and "S \<le> 4096"
  shows "(scast (of_nat k :: i32) :: u64) < of_nat S \<longleftrightarrow> k < S"
  using assms by (simp add: scast_of_nat word_less_nat_alt unat_of_nat_64)

text \<open>One turn of the sweep: \<open>k\<close> bytes of the page are behind it and the next instruction does not end the block.\<close>

abbreviation count_insn :: "mach \<Rightarrow> mach" where
  "count_insn s \<equiv> upd_dbi (\<lambda>d. d\<lparr>cps_count := cps_count d + 1\<rparr>) s"

lemma cflow_loop_passes:
  assumes "k \<le> 4096" "k < S" "S \<le> 4096" and i: "dis (a + of_nat k) (read_bytes m (a + of_nat k) (4096 - k)) = Some i" "insn_size i \<le> 4096 - k"
    and "\<not> list_ex (\<lambda>g. is_cflow g \<and> \<not> (beg \<and> curr_syscall s)) (groups i)"
  shows "cflow_loop (Suc fuel) dis (of_nat S) (a + of_nat k) (read_bytes m (a + of_nat k) (4096 - k)) (of_nat k) beg s =
    cflow_loop fuel dis (of_nat S) (a + of_nat (k + insn_size i)) (read_bytes m (a + of_nat (k + insn_size i)) (4096 - (k + insn_size i)))
      (of_nat (k + insn_size i)) False ((count_insn s)\<lparr>curr_syscall := False\<rparr>)"
proof -
  have "drop (insn_size i) (read_bytes m (a + of_nat k) (4096 - k)) = read_bytes m (a + of_nat (k + insn_size i)) (4096 - (k + insn_size i))"
    using i(2) by (simp add: drop_read_bytes add.assoc)
  then show ?thesis using of_nat_less_small [OF assms(1,3)] assms by (simp add: add.assoc Let_def)
qed

text \<open>Where an instruction is, the disassembler fails only on a buffer that may cut it.\<close>

lemma cflow_loop_cut:
  assumes "disasm_ok dis" "cflow_at dis m (a + of_nat k) d" "dis (a + of_nat k) (read_bytes m (a + of_nat k) (4096 - k)) = None"
  shows "\<not> k + 15 \<le> 4096"
proof
  assume "k + 15 \<le> 4096"
  with cflow_at_decodes [OF assms(2)] decode_size [OF assms(1)] obtain j
    where "decode dis m (a + of_nat k) = Some j" "insn_size j \<le> 4096 - k" by fastforce
  from buffer_decode [OF assms(1) this, of "a + of_nat k"] assms(3) show False by auto
qed

lemma cflow_loop_sweeps:
  assumes dis: "disasm_ok dis" and S: "S \<le> 4096"
    and at: "cflow_at dis m (a + of_nat k) d" and k: "k \<le> 4096" and fuel: "4096 - k < fuel"
    and skip: "\<not> (beg \<and> curr_syscall s)"
  shows "\<exists>s'. scan_frame s s' \<and> (curr_syscall s' \<longrightarrow> curr_syscall s) \<and>
    (cflow_loop fuel dis (of_nat S) (a + of_nat k) (read_bytes m (a + of_nat k) (4096 - k)) (of_nat k) beg s
       = Inr (Inl (of_nat (k + d)), s')
     \<or> (\<exists>k'. cflow_loop fuel dis (of_nat S) (a + of_nat k) (read_bytes m (a + of_nat k) (4096 - k)) (of_nat k) beg s
               = Inr (Inr (of_nat k'), s')
           \<and> k \<le> k' \<and> k' \<le> k + d \<and> k' \<le> 4096 \<and> cflow_at dis m (a + of_nat k') (k + d - k')
           \<and> (k < S \<and> k + 15 \<le> 4096 \<longrightarrow> k < k') \<and> (k < k' \<longrightarrow> \<not> curr_syscall s')))"
  using at k fuel skip
proof (induction fuel arbitrary: k d s beg)
  case (Suc fuel)
  let ?buf = "read_bytes m (a + of_nat k) (4096 - k)"
  note lt = of_nat_less_small [OF Suc.prems(2) S]
  show ?case
  proof (cases "k < S")
    case False
    then show ?thesis using lt Suc.prems(1,2) by (intro exI [of _ s]) (auto simp: retR_def)
  next
    case True
    show ?thesis
    proof (cases "dis (a + of_nat k) ?buf")
      case None
      with cflow_loop_cut [OF dis Suc.prems(1)] show ?thesis
        using lt True Suc.prems(1,2) by (intro exI [of _ s]) (auto simp: retR_def)
    next
      case (Some i)
      obtain j where j: "decode dis m (a + of_nat k) = Some j" "insn_size j = insn_size i" "groups j = groups i"
        by (rule decode_buffer [OF dis Some])
      have sz: "0 < insn_size i" "insn_size i \<le> 4096 - k" using disasm_sizes [OF dis Some] by simp_all
      from Suc.prems(1) show ?thesis
      proof (cases rule: cflow_at.cases)
        case (here i')
        then have "list_ex is_cflow (groups i)" using j by simp
        then have "list_ex (\<lambda>g. is_cflow g \<and> \<not> (beg \<and> curr_syscall s)) (groups i)"
          using Suc.prems(4) by (simp add: list_ex_iff)
        with here(1) show ?thesis
          using lt True Some by (intro exI [of _ "count_insn s"]) (auto simp: retR_def)
      next
        case (further i' n)
        then have ncf: "\<not> list_ex (\<lambda>g. is_cflow g \<and> \<not> (beg \<and> curr_syscall s)) (groups i)"
          using j by (simp add: list_ex_iff)
        have d: "d = insn_size i + n" using further j by simp
        have at: "cflow_at dis m (a + of_nat (k + insn_size i)) n"
          using further j by (simp add: add.assoc)
        note step = cflow_loop_passes [where dis = dis, OF Suc.prems(2) True S Some sz(2) ncf]
        have "k + insn_size i \<le> 4096" "4096 - (k + insn_size i) < fuel"
          using sz Suc.prems(2,3) by linarith+
        from Suc.IH [OF at this, of False "(count_insn s)\<lparr>curr_syscall := False\<rparr>"] obtain s' where
          s': "scan_frame s s'" "\<not> curr_syscall s'" and
          res: "cflow_loop (Suc fuel) dis (of_nat S) (a + of_nat k) ?buf (of_nat k) beg s
                  = Inr (Inl (of_nat (k + insn_size i + n)), s')
             \<or> (\<exists>k'. cflow_loop (Suc fuel) dis (of_nat S) (a + of_nat k) ?buf (of_nat k) beg s
                  = Inr (Inr (of_nat k'), s') \<and> k + insn_size i \<le> k' \<and> k' \<le> k + insn_size i + n \<and>
                  k' \<le> 4096 \<and> cflow_at dis m (a + of_nat k') (k + insn_size i + n - k'))"
          unfolding step [symmetric] by auto
        show ?thesis
          using res s' sz d by (intro exI [of _ s']) (auto simp: add.assoc)
      qed
    qed
  qed
qed simp


text \<open>
  When \<^verbatim>\<open>curr_syscall\<close> is set, a system call without handler stands at the start and is left to run:
  the sweep starts behind it.
\<close>

definition sweep :: "disassembler \<Rightarrow> memory \<Rightarrow> u64 \<Rightarrow> bool \<Rightarrow> nat \<Rightarrow> bool" where
  "sweep dis m a skip n =
     (if skip then \<exists>i d. decode dis m a = Some i \<and> n = insn_size i + d \<and>
                         cflow_at dis m (a + of_nat (insn_size i)) d
      else cflow_at dis m a n)"

lemma cflow_loop_start:
  assumes dis: "disasm_ok dis" and S: "0 < S" "S \<le> 4096"
    and sw: "sweep dis m a (beg \<and> curr_syscall s) d"
  shows "\<exists>s'. scan_frame s s' \<and> (curr_syscall s' \<longrightarrow> curr_syscall s \<and> \<not> beg) \<and>
    (cflow_loop 4097 dis (of_nat S) a (read_bytes m a 4096) 0 beg s = Inr (Inl (of_nat d), s')
     \<or> (\<exists>k. cflow_loop 4097 dis (of_nat S) a (read_bytes m a 4096) 0 beg s = Inr (Inr (of_nat k), s')
           \<and> 0 < k \<and> k \<le> d \<and> k \<le> 4096 \<and> \<not> curr_syscall s' \<and> cflow_at dis m (a + of_nat k) (d - k)))"
proof (cases "beg \<and> curr_syscall s")
  case False
  then show ?thesis
    using cflow_loop_sweeps [OF dis S(2), of m a 0 d 4097 beg s] sw S(1)
    by (auto simp: sweep_def)
next
  case True
  then obtain j n where j: "decode dis m a = Some j" "d = insn_size j + n"
    and at: "cflow_at dis m (a + of_nat (insn_size j)) n" using sw by (auto simp: sweep_def)
  have szj: "0 < insn_size j" "insn_size j \<le> 15" using decode_size [OF dis j(1)] by simp_all
  obtain i where i: "dis a (read_bytes m a 4096) = Some i" "insn_size i = insn_size j"
    by (rule buffer_decode [OF dis j(1), of 4096 a]) (use szj in auto)
  let ?s = "(count_insn s)\<lparr>curr_syscall := False\<rparr>"
  have "\<not> list_ex (\<lambda>g. is_cflow g \<and> \<not> (beg \<and> curr_syscall s)) (groups i)" using True by (simp add: list_ex_iff)
  then have step: "cflow_loop (Suc 4096) dis (of_nat S) a (read_bytes m a 4096) 0 beg s =
      cflow_loop 4096 dis (of_nat S) (a + of_nat (insn_size j))
        (read_bytes m (a + of_nat (insn_size j)) (4096 - insn_size j)) (of_nat (insn_size j)) False ?s"
    using cflow_loop_passes [of 0 S dis a m i beg s 4096] S i szj by simp
  have f: "Suc 4096 = 4097" by simp
  have "\<exists>s'. scan_frame ?s s' \<and> (curr_syscall s' \<longrightarrow> curr_syscall ?s) \<and>
    (cflow_loop 4097 dis (of_nat S) a (read_bytes m a 4096) 0 beg s = Inr (Inl (of_nat (insn_size j + n)), s')
     \<or> (\<exists>k'. cflow_loop 4097 dis (of_nat S) a (read_bytes m a 4096) 0 beg s = Inr (Inr (of_nat k'), s')
           \<and> insn_size j \<le> k' \<and> k' \<le> insn_size j + n \<and> k' \<le> 4096
           \<and> cflow_at dis m (a + of_nat k') (insn_size j + n - k')))"
    using cflow_loop_sweeps [OF dis S(2) at, of 4096 False ?s] szj
    unfolding step [unfolded f] by fastforce
  with True j(2) szj show ?thesis by fastforce
qed

lemma scan_frame_mem: "scan_frame s s' \<Longrightarrow> mem s' = mem s"
proof -
  have "mem (scan_erase t) = mem t" for t by (simp add: scan_erase_def)
  then show "scan_frame s s' \<Longrightarrow> mem s' = mem s" by (metis scan_frame_def)
qed

lemma opcodes_cflow_sweeps:
  assumes K: "grants K" and dis: "disasm_ok dis"
    and sw: "sweep dis (mem s) a (beg \<and> curr_syscall s) d" and fuel: "d < fuel"
  shows "\<exists>s'. opcodes_cflow fuel K dis a beg s = Inr (of_nat d, s') \<and> scan_frame s s' \<and>
     (curr_syscall s' \<longrightarrow> curr_syscall s \<and> \<not> beg)"
  using sw fuel
proof (induction fuel arbitrary: a d s beg)
  case (Suc fuel)
  define S where "S = last_chunk (unat a mod 4096) 4096"
  have S: "0 < S" "S \<le> 4096" unfolding S_def using last_chunk_bounds [of 4096] by simp_all
  obtain tr where rd: "mem_read K (replicate 4096 0) a PAGE_SZ s =
     Inr ((of_nat S, read_bytes (mem s) a 4096), s\<lparr>ktrace := ktrace s @ tr\<rparr>)"
    using mem_read_granted [OF grants_ready(2) [OF K], of PAGE_SZ "replicate 4096 0" a s] by (auto simp: S_def)
  have nm: "(of_nat S :: i32) \<noteq> -1" by (rule small_not_minus_one) (use S in simp)
  have sc: "(scast (of_nat S :: i32) :: u64) = of_nat S" by (rule scast_of_nat) (use S in simp)
  let ?s = "s\<lparr>ktrace := ktrace s @ tr\<rparr>"
  have "sweep dis (mem s) a (beg \<and> curr_syscall ?s) d" using Suc.prems(1) by simp
  from cflow_loop_start [OF dis S this] obtain s1
    where s1: "scan_frame s s1" "curr_syscall s1 \<longrightarrow> curr_syscall s \<and> \<not> beg" and
      res: "cflow_loop 4097 dis (of_nat S) a (read_bytes (mem s) a 4096) 0 beg ?s = Inr (Inl (of_nat d), s1)
        \<or> (\<exists>k. cflow_loop 4097 dis (of_nat S) a (read_bytes (mem s) a 4096) 0 beg ?s = Inr (Inr (of_nat k), s1)
           \<and> 0 < k \<and> k \<le> d \<and> k \<le> 4096 \<and> \<not> curr_syscall s1 \<and> cflow_at dis (mem s) (a + of_nat k) (d - k))"
    by auto
  from res show ?case
  proof (elim disjE exE conjE)
    assume "cflow_loop 4097 dis (of_nat S) a (read_bytes (mem s) a 4096) 0 beg ?s = Inr (Inl (of_nat d), s1)"
    then show ?thesis using rd nm sc s1 by (simp add: is_mapped_def retR_def)
  next
    fix k assume loop: "cflow_loop 4097 dis (of_nat S) a (read_bytes (mem s) a 4096) 0 beg ?s = Inr (Inr (of_nat k), s1)"
      and k: "0 < k" "k \<le> d" "k \<le> 4096" and cur: "\<not> curr_syscall s1"
      and at: "cflow_at dis (mem s) (a + of_nat k) (d - k)"
    have sw': "sweep dis (mem s1) (a + of_nat k) (True \<and> curr_syscall s1) (d - k)"
      using at cur scan_frame_mem [OF s1(1)] by (simp add: sweep_def)
    have fl: "d - k < fuel" using k Suc.prems(2) by linarith
    obtain s2 where s2: "opcodes_cflow fuel K dis (a + of_nat k) True s1 = Inr (of_nat (d - k), s2)"
      "scan_frame s1 s2" "\<not> curr_syscall s2"
      using Suc.IH [OF sw' fl] cur by blast
    have nz: "(of_nat k :: i32) \<noteq> 0"
    proof
      assume "(of_nat k :: i32) = 0"
      then have "unat (of_nat k :: i32) = 0" by simp
      then show False using k by (simp add: unat_of_nat take_bit_nat_eq_self)
    qed
    have sk: "(scast (of_nat k :: i32) :: u64) = of_nat k" by (rule scast_of_nat) (use k in simp)
    have sum: "of_nat k + of_nat (d - k) = (of_nat d :: i32)" using k by (metis le_add_diff_inverse of_nat_add)
    show ?thesis
      using rd nm sc loop nz sk s2 scan_frame_trans [OF s1(1) s2(2)]
      by (simp add: is_mapped_def retR_def sum del: of_nat_diff)
  qed
qed simp

lemma insn_len_decodes:
  assumes K: "grants K" and j: "decode dis (mem s) a = Some j"
  shows "\<exists>tr. insn_len K dis a s = Inr (of_nat (insn_size j), s\<lparr>ktrace := ktrace s @ tr\<rparr>)"
proof -
  have d: "dis a (read_bytes (mem s) a 16) = Some j" using j by (simp add: decode_def)
  obtain r tr where "r \<noteq> -1" "mem_read K (replicate 16 0) a 16 s =
      Inr ((r, read_bytes (mem s) a 16), s\<lparr>ktrace := ktrace s @ tr\<rparr>)"
    using bm.rd_ok [OF grants_ready(2) [OF K], of 16 "replicate 16 0" a s] by auto
  with d show ?thesis by (auto simp: insn_len_def retR_def)
qed

section \<open>Conditional branches\<close>

text \<open>The flags that \<^verbatim>\<open>cmp a, b\<close> leaves, for 64-bit operands.\<close>

definition flags_of_cmp :: "u64 \<Rightarrow> u64 \<Rightarrow> u64 \<Rightarrow> bool" where
  "flags_of_cmp a b fl \<longleftrightarrow>
     (fl AND CF \<noteq> 0 \<longleftrightarrow> a < b) \<and> (fl AND ZF \<noteq> 0 \<longleftrightarrow> a = b) \<and>
     (fl AND SF \<noteq> 0 \<longleftrightarrow> sint (a - b) < 0) \<and> (fl AND OF \<noteq> 0 \<longleftrightarrow> sint a - sint b \<noteq> sint (a - b))"

lemma is_set_flag:
  assumes "hashmap (dbi s) = init_hashmap" and "flag AND 0xFCFFFF = flag"
  shows "is_set K flag s = Inr (rflags (guest s) AND flag \<noteq> 0, s)"
proof -
  have v: "reg_val X86_REG_EFLAGS s = Inr (rflags (guest s) AND 0xFCFFFF, s)"
    using assms(1) by (simp add: reg_val_def read_reg_def deref_def retR_def)
  have "\<not> bit (rflags (guest s) AND 0xFCFFFF) 63" by (simp add: bit_simps)
  moreover have "bit (-1 :: u64) 63" by simp
  ultimately have "rflags (guest s) AND 0xFCFFFF \<noteq> -1" by metis
  moreover have "(rflags (guest s) AND 0xFCFFFF) AND flag = rflags (guest s) AND flag"
    using assms(2) by (metis and.assoc and.commute)
  ultimately show ?thesis by (simp add: is_set_def v retR_def)
qed

lemma sint_less_flags:
  fixes a b :: u64
  shows "(sint (a - b) < 0) \<noteq> (sint a - sint b \<noteq> sint (a - b)) \<longleftrightarrow> sint a < sint b"
proof -
  define x where "x = sint a - sint b"
  have ra: "- (2 ^ 63) \<le> sint a" "sint a < 2 ^ 63" and rb: "- (2 ^ 63) \<le> sint b" "sint b < 2 ^ 63"
    using sint_greater_eq [of a] sint_less [of a] sint_greater_eq [of b] sint_less [of b] by simp_all
  have y: "sint (a - b) = (x + 2 ^ 63) mod 2 ^ 64 - 2 ^ 63"
    by (simp add: sint_word_ariths x_def signed_take_bit_eq_take_bit_shift take_bit_eq_mod)
  consider "x < - (2 ^ 63)" | "- (2 ^ 63) \<le> x \<and> x < 2 ^ 63" | "2 ^ 63 \<le> x" by linarith
  then show ?thesis
  proof cases
    case 1
    then have "(x + 2 ^ 63) mod 2 ^ 64 = x + 2 ^ 63 + 2 ^ 64"
      using ra rb by (subst mod_add_self2 [symmetric]) (rule mod_pos_pos_trivial; simp add: x_def)
    with 1 y ra rb show ?thesis by (simp add: x_def)
  next
    case 2
    then have "(x + 2 ^ 63) mod 2 ^ 64 = x + 2 ^ 63" by (intro mod_pos_pos_trivial) auto
    with 2 y show ?thesis by (simp add: x_def)
  next
    case 3
    then have "(x + 2 ^ 63) mod 2 ^ 64 = x + 2 ^ 63 - 2 ^ 64"
      using ra rb by (subst minus_mod_self2 [symmetric]) (rule mod_pos_pos_trivial; simp add: x_def)
    with 3 y ra rb show ?thesis by (simp add: x_def)
  qed
qed

lemma branch_conditions:
  assumes h: "hashmap (dbi s) = init_hashmap" and f: "flags_of_cmp a b (rflags (guest s))"
  shows "is_jmp_taken K X86_INS_JE s = Inr (a = b, s)" "is_jmp_taken K X86_INS_JNE s = Inr (a \<noteq> b, s)"
    "is_jmp_taken K X86_INS_JA s = Inr (b < a, s)" "is_jmp_taken K X86_INS_JAE s = Inr (b \<le> a, s)"
    "is_jmp_taken K X86_INS_JB s = Inr (a < b, s)" "is_jmp_taken K X86_INS_JBE s = Inr (a \<le> b, s)"
    "is_jmp_taken K X86_INS_JG s = Inr (sint b < sint a, s)" "is_jmp_taken K X86_INS_JGE s = Inr (sint b \<le> sint a, s)"
    "is_jmp_taken K X86_INS_JL s = Inr (sint a < sint b, s)" "is_jmp_taken K X86_INS_JLE s = Inr (sint a \<le> sint b, s)"
proof -
  have m: "CF AND 0xFCFFFF = CF" "ZF AND 0xFCFFFF = ZF" "SF AND 0xFCFFFF = SF" "OF AND 0xFCFFFF = OF"
    by simp_all
  have fl: "is_set K CF s = Inr (a < b, s)" "is_set K ZF s = Inr (a = b, s)"
    "is_set K SF s = Inr (sint (a - b) < 0, s)" "is_set K OF s = Inr (sint a - sint b \<noteq> sint (a - b), s)"
    using f unfolding flags_of_cmp_def by (simp_all only: is_set_flag [OF h] m)
  have eq: "sf_eq_of K s = Inr (\<not> sint a < sint b, s)"
    using sint_less_flags [of a b] by (auto simp: sf_eq_of_def fl retR_def simp del: SF_def OF_def)
  have se: "sint a = sint b \<longleftrightarrow> a = b" by (metis signed_word_eqI)
  show "is_jmp_taken K X86_INS_JE s = Inr (a = b, s)" "is_jmp_taken K X86_INS_JNE s = Inr (a \<noteq> b, s)"
    "is_jmp_taken K X86_INS_JA s = Inr (b < a, s)" "is_jmp_taken K X86_INS_JAE s = Inr (b \<le> a, s)"
    "is_jmp_taken K X86_INS_JB s = Inr (a < b, s)" "is_jmp_taken K X86_INS_JBE s = Inr (a \<le> b, s)"
    "is_jmp_taken K X86_INS_JG s = Inr (sint b < sint a, s)" "is_jmp_taken K X86_INS_JGE s = Inr (sint b \<le> sint a, s)"
    "is_jmp_taken K X86_INS_JL s = Inr (sint a < sint b, s)" "is_jmp_taken K X86_INS_JLE s = Inr (sint a \<le> sint b, s)"
    using se by (auto simp: fl eq not_set_def retR_def simp del: CF_def ZF_def SF_def OF_def)
qed

section \<open>Emulated branches\<close>

lemma eval_target_decodes:
  assumes K: "grants K" and i: "dis 0 (read_bytes (mem s) a 16) = Some i"
  shows "\<exists>tr. eval_target K dis a s = eval_target_insn K i a
     (upd_dbi (\<lambda>d. d\<lparr>cps_count := cps_count d + 1\<rparr>) (s\<lparr>ktrace := ktrace s @ tr\<rparr>))"
proof -
  obtain r tr where "r \<noteq> -1" "mem_read K (replicate 16 0) a 16 s =
      Inr ((r, read_bytes (mem s) a 16), s\<lparr>ktrace := ktrace s @ tr\<rparr>)"
    using bm.rd_ok [OF grants_ready(2) [OF K], of 16 "replicate 16 0" a s] by auto
  with i show ?thesis by (auto simp: eval_target_def)
qed

lemma take_bit_64 [simp]: "take_bit 64 v = (v :: u64)"
  by (rule bit_word_eqI) (auto simp: bit_simps)

lemma reg_val_rsp: "hashmap (dbi s) = init_hashmap \<Longrightarrow> reg_val X86_REG_RSP s = Inr (rsp (guest s), s)"
  by (simp add: reg_val_def read_reg_by_view view_val_def retR_def)

lemma eval_call:
  assumes K: "grants K" and i: "dis 0 (read_bytes (mem s) p 16) = Some i"
    and g: "groups i = X86_GRP_CALL # rest" and o': "operand0 i = X86_OP_IMM v"
  shows "\<exists>s'. eval_target K dis p s = Inr (v + rip (guest s), s') \<and>
     mem s' = write64 (mem s) (rsp (guest s) - 8) (rip (guest s) + of_nat (insn_size i)) \<and>
     guest s' = (guest s)\<lparr>rsp := rsp (guest s) - 8\<rparr>"
proof -
  obtain tr where "eval_target K dis p s = eval_target_insn K i p
     (upd_dbi (\<lambda>d. d\<lparr>cps_count := cps_count d + 1\<rparr>) (s\<lparr>ktrace := ktrace s @ tr\<rparr>))"
    using eval_target_decodes [where K = K and dis = dis, OF K i] by blast
  then show ?thesis using g o' by (simp add: eval_target_insn_def is_call_def retR_def Let_def)
qed

lemma eval_ret:
  assumes K: "grants K" and i: "dis 0 (read_bytes (mem s) p 16) = Some i"
    and g: "groups i = X86_GRP_RET # rest" and h: "hashmap (dbi s) = init_hashmap"
  shows "\<exists>s'. eval_target K dis p s = Inr (read64 (mem s) (rsp (guest s)), s') \<and>
     mem s' = mem s \<and> guest s' = (guest s)\<lparr>rsp := rsp (guest s) + 8\<rparr>"
proof -
  obtain tr where "eval_target K dis p s = eval_target_insn K i p
     (upd_dbi (\<lambda>d. d\<lparr>cps_count := cps_count d + 1\<rparr>) (s\<lparr>ktrace := ktrace s @ tr\<rparr>))"
    using eval_target_decodes [where K = K and dis = dis, OF K i] by blast
  then show ?thesis
    using g h by (simp add: eval_target_insn_def is_call_def is_ret_def retR_def Let_def reg_val_rsp)
qed

section \<open>A concrete disassembler\<close>

text \<open>One-byte \<^verbatim>\<open>nop\<close> and \<^verbatim>\<open>ret\<close>, two-byte \<^verbatim>\<open>syscall\<close>, five-byte relative \<^verbatim>\<open>call\<close> with a non-negative distance.\<close>

definition toy_dis :: disassembler where
  "toy_dis a bs = (case bs of [] \<Rightarrow> None | b # rest \<Rightarrow>
     if b = 0x90 then Some \<lparr>insn_id = X86_INS_other 0, insn_size = 1, groups = [], operands = []\<rparr>
     else if b = 0xc3
     then Some \<lparr>insn_id = X86_INS_other 1, insn_size = 1, groups = [X86_GRP_RET], operands = []\<rparr>
     else if b = 0x0f \<and> rest \<noteq> [] \<and> hd rest = 5
     then Some \<lparr>insn_id = X86_INS_other 2, insn_size = 2, groups = [X86_GRP_INT], operands = []\<rparr>
     else if b = 0xe8 \<and> 4 \<le> length rest
     then Some \<lparr>insn_id = X86_INS_other 3, insn_size = 5, groups = [X86_GRP_CALL, X86_GRP_BRANCH_RELATIVE],
                operands = [X86_OP_IMM (a + 5 + le_val (take 4 rest))]\<rparr>
     else None)"

lemma toy_dis_ok: "disasm_ok toy_dis"
proof -
  have hd: "\<exists>r. cs' = b # r \<and> take k r = take k rest"
    if "take (Suc k) cs' = take (Suc k) (b # rest)" for k b and rest cs' :: "u8 list"
    using that by (cases cs') auto
  have "\<exists>j. toy_dis b cs' = Some j \<and> insn_size j = insn_size i \<and> groups j = groups i"
    if "toy_dis a bs = Some i" "take (insn_size i) cs' = take (insn_size i) bs" for a b bs i and cs' :: "u8 list"
  proof -
    note T = that(1)
    obtain x rest where bs: "bs = x # rest" using T by (cases bs) (auto simp: toy_dis_def)
    consider "x = 0x90" | "x = 0xc3" | "x = 0x0f" "rest \<noteq> []" "hd rest = 5" | "x = 0xe8" "4 \<le> length rest"
      using T bs by (auto simp: toy_dis_def split: if_splits)
    then show ?thesis
    proof cases
      case 1
      then show ?thesis using that hd [of 0 cs' x rest] bs by (auto simp: toy_dis_def split: list.splits)
    next
      case 2
      then show ?thesis using that hd [of 0 cs' x rest] bs by (auto simp: toy_dis_def split: list.splits)
    next
      case 3
      then have "insn_size i = Suc 1" using T bs by (auto simp: toy_dis_def)
      with that(2) bs obtain r where c: "cs' = x # r" "take 1 r = take 1 rest" using hd [of 1 cs' x rest] by auto
      from c(2) 3 have "r \<noteq> []" "hd r = 5" by (cases rest; cases r; simp)+
      with 3 T bs c(1) show ?thesis by (auto simp: toy_dis_def)
    next
      case 4
      then have "insn_size i = Suc 4" using T bs by (auto simp: toy_dis_def)
      with that(2) bs obtain r where c: "cs' = x # r" "take 4 r = take 4 rest" using hd [of 4 cs' x rest] by auto
      from c(2) 4 have "4 \<le> length r" by (metis length_take min.absorb2 min.cobounded1)
      with 4 T bs c(1) show ?thesis by (auto simp: toy_dis_def)
    qed
  qed
  moreover have "0 < insn_size i \<and> insn_size i \<le> 15 \<and> insn_size i \<le> length bs"
    if "toy_dis a bs = Some i" for a bs i
  proof (cases bs)
    case (Cons x rest)
    have "rest \<noteq> [] \<Longrightarrow> 1 \<le> length rest" by (cases rest) auto
    with that Cons show ?thesis by (auto simp: toy_dis_def split: if_splits)
  qed (use that in \<open>simp add: toy_dis_def\<close>)
  ultimately show ?thesis unfolding disasm_ok_def by blast
qed

lemma read_bytes_Suc: "read_bytes m a (Suc n) = m a # read_bytes m (a + 1) n"
  using read_bytes_append [of m a 1 n] by (simp add: read_bytes_def)

section \<open>Properties\<close>

text \<open>
  C9: \<^verbatim>\<open>opcodes_cflow\<close> implements the linear sweep: with enough depth it returns the distance of
  the first control-flow instruction, although it reads page-sized buffers, may cut an
  instruction at the end of a buffer, and trusts the length of the last chunk read as the
  number of bytes to sweep.  If \<^verbatim>\<open>curr_syscall\<close> is set on the initial call, the first instruction is
  passed over.  Guest memory, the registers and the hooks are untouched, and \<^verbatim>\<open>curr_syscall\<close> is
  clear afterwards when the sweep began with \<open>beg\<close>.
\<close>

theorem opcodes_cflow_finds:
  assumes "grants K" and "disasm_ok dis"
    and "sweep dis (mem s) a (beg \<and> curr_syscall s) d" and "d < fuel"
  shows "\<exists>s'. opcodes_cflow fuel K dis a beg s = Inr (of_nat d, s') \<and> scan_frame s s' \<and>
     (curr_syscall s' \<longrightarrow> curr_syscall s \<and> \<not> beg)"
  using assms by (rule opcodes_cflow_sweeps)

definition nop_ret :: mach where
  "nop_ret = zero_mach\<lparr>mem := (\<lambda>x. if x = 0x401003 then 0xc3 else 0x90)\<rparr>"

lemma nop_ret_cflow: "cflow_at toy_dis (mem nop_ret) 0x401001 2"
proof -
  let ?m = "\<lambda>x :: u64. if x = 0x401003 then 0xc3 else 0x90 :: u8"
  let ?nop = "\<lparr>insn_id = X86_INS_other 0, insn_size = 1, groups = [], operands = []\<rparr>"
  have w: "read_bytes m a 16 = m a # read_bytes m (a + 1) 15" for m a
    using read_bytes_Suc [of m a 15] by simp
  have "decode toy_dis ?m 0x401003 = Some \<lparr>insn_id = X86_INS_other 1, insn_size = 1, groups = [X86_GRP_RET], operands = []\<rparr>"
    by (simp add: decode_def w toy_dis_def)
  then have "cflow_at toy_dis ?m 0x401003 0" by (rule cflow_at.here) (simp add: is_cflow_def)
  then have "cflow_at toy_dis ?m (0x401002 + of_nat (insn_size ?nop)) 0" by simp
  moreover have "decode toy_dis ?m 0x401002 = Some ?nop" by (simp add: decode_def w toy_dis_def)
  ultimately have "cflow_at toy_dis ?m 0x401002 (insn_size ?nop + 0)" by (intro cflow_at.further) simp_all
  then have "cflow_at toy_dis ?m (0x401001 + of_nat (insn_size ?nop)) 1" by simp
  moreover have "decode toy_dis ?m 0x401001 = Some ?nop" by (simp add: decode_def w toy_dis_def)
  ultimately have "cflow_at toy_dis ?m 0x401001 (insn_size ?nop + 1)" by (intro cflow_at.further) simp_all
  then show ?thesis by (simp add: nop_ret_def numeral_eq_Suc)
qed

lemma opcodes_cflow_finds_witness:
  "\<exists>s'. opcodes_cflow 3 granting_kernel toy_dis 0x401001 True nop_ret = Inr (2, s') \<and> scan_frame nop_ret s'"
proof -
  have c: "\<not> curr_syscall nop_ret" by (simp add: nop_ret_def zero_mach_def)
  then have "sweep toy_dis (mem nop_ret) 0x401001 (True \<and> curr_syscall nop_ret) 2"
    using nop_ret_cflow by (simp add: sweep_def)
  from opcodes_cflow_finds [OF grants_granting toy_dis_ok this, of 3] show ?thesis by auto
qed

text \<open>
  C13: after a comparison of two 64-bit values the emulated conditional branches decide the
  arithmetic relations: \<^verbatim>\<open>ja\<close>, \<^verbatim>\<open>jae\<close>, \<^verbatim>\<open>jb\<close>, \<^verbatim>\<open>jbe\<close> the unsigned ones, \<^verbatim>\<open>jg\<close>, \<^verbatim>\<open>jge\<close>, \<^verbatim>\<open>jl\<close>, \<^verbatim>\<open>jle\<close> the
  signed ones, \<^verbatim>\<open>je\<close> and \<^verbatim>\<open>jne\<close> equality; nothing is changed.
\<close>

theorem branch_after_cmp:
  assumes "hashmap (dbi s) = init_hashmap" and "flags_of_cmp a b (rflags (guest s))"
  shows "is_jmp_taken K X86_INS_JE s = Inr (a = b, s) \<and> is_jmp_taken K X86_INS_JNE s = Inr (a \<noteq> b, s) \<and>
    is_jmp_taken K X86_INS_JA s = Inr (b < a, s) \<and> is_jmp_taken K X86_INS_JAE s = Inr (b \<le> a, s) \<and>
    is_jmp_taken K X86_INS_JB s = Inr (a < b, s) \<and> is_jmp_taken K X86_INS_JBE s = Inr (a \<le> b, s) \<and>
    is_jmp_taken K X86_INS_JG s = Inr (sint b < sint a, s) \<and> is_jmp_taken K X86_INS_JGE s = Inr (sint b \<le> sint a, s) \<and>
    is_jmp_taken K X86_INS_JL s = Inr (sint a < sint b, s) \<and> is_jmp_taken K X86_INS_JLE s = Inr (sint a \<le> sint b, s)"
  by (intro conjI branch_conditions [OF assms])

lemma branch_after_cmp_witness:
  "is_jmp_taken granting_kernel X86_INS_JL (upd_guest (\<lambda>st. st\<lparr>rflags := 0x80\<rparr>) zero_mach)
     = Inr (True, upd_guest (\<lambda>st. st\<lparr>rflags := 0x80\<rparr>) zero_mach)"
proof -
  let ?s = "upd_guest (\<lambda>st. st\<lparr>rflags := 0x80\<rparr>) zero_mach"
  have "hashmap (dbi ?s) = init_hashmap" by (simp add: zero_mach_def zero_dbi_def)
  moreover have "flags_of_cmp (-2) 1 (rflags (guest ?s))" by (simp add: flags_of_cmp_def)
  ultimately have "is_jmp_taken granting_kernel X86_INS_JL ?s = Inr (sint (-2 :: u64) < sint (1 :: u64), ?s)"
    by (rule branch_after_cmp [THEN conjunct2, THEN conjunct2, THEN conjunct2, THEN conjunct2,
          THEN conjunct2, THEN conjunct2, THEN conjunct2, THEN conjunct2, THEN conjunct1])
  then show ?thesis by simp
qed

text \<open>
  C14: an emulated relative call and the emulated return that answers it: the call goes to the
  immediate relative to the guest's \<^verbatim>\<open>rip\<close>, stores the address behind the call instruction below
  the stack pointer and moves it down by 8; a later return, in any state with that stack pointer
  and that return address still stored, goes to the address behind the call and moves the stack
  pointer back to where it was before the call.
\<close>

theorem call_then_ret:
  assumes "grants K" and "dis 0 (read_bytes (mem s) p 16) = Some c"
    and "groups c = X86_GRP_CALL # rest" and "operand0 c = X86_OP_IMM v"
    and "eval_target K dis p s = Inr (w, s')"
    and "hashmap (dbi t) = init_hashmap" and "rsp (guest t) = rsp (guest s')"
    and "read64 (mem t) (rsp (guest t)) = read64 (mem s') (rsp (guest s'))"
    and "dis 0 (read_bytes (mem t) q 16) = Some r" and "groups r = X86_GRP_RET # rest'"
  shows "w = v + rip (guest s) \<and> guest s' = (guest s)\<lparr>rsp := rsp (guest s) - 8\<rparr> \<and>
    (\<exists>t'. eval_target K dis q t = Inr (rip (guest s) + of_nat (insn_size c), t') \<and>
          rsp (guest t') = rsp (guest s) \<and> mem t' = mem t)"
proof -
  from eval_call [where K = K and dis = dis, OF assms(1-4)] assms(5)
  have w: "w = v + rip (guest s)" and g: "guest s' = (guest s)\<lparr>rsp := rsp (guest s) - 8\<rparr>"
    and m: "mem s' = write64 (mem s) (rsp (guest s) - 8) (rip (guest s) + of_nat (insn_size c))" by auto
  have "read64 (mem t) (rsp (guest t)) = rip (guest s) + of_nat (insn_size c)"
    using assms(8) by (simp add: m g)
  moreover have "rsp (guest t) + 8 = rsp (guest s)" using assms(7) by (simp add: g)
  ultimately show ?thesis
    using w g eval_ret [where K = K and dis = dis, OF assms(1,9,10,6)] by auto
qed

definition call_mach :: mach where
  "call_mach = upd_guest (\<lambda>st. st\<lparr>rip := 0x401000, rsp := 0x7000\<rparr>)
     (zero_mach\<lparr>mem := (\<lambda>x. if x = 0x401000 then 0xe8 else if x = 0x402000 then 0xc3 else 0)\<rparr>)"

lemma call_then_ret_witness:
  "\<exists>s' t'. eval_target granting_kernel toy_dis 0x401000 call_mach = Inr (0x401005, s') \<and>
     eval_target granting_kernel toy_dis 0x402000 s' = Inr (0x401005, t') \<and> rsp (guest t') = 0x7000"
proof -
  let ?m = "\<lambda>x :: u64. if x = 0x401000 then 0xe8 else if x = 0x402000 then 0xc3 else 0 :: u8"
  let ?c = "\<lparr>insn_id = X86_INS_other 3, insn_size = 5, groups = [X86_GRP_CALL, X86_GRP_BRANCH_RELATIVE],
     operands = [X86_OP_IMM 5]\<rparr>"
  let ?r = "\<lparr>insn_id = X86_INS_other 1, insn_size = 1, groups = [X86_GRP_RET], operands = []\<rparr>"
  have w: "read_bytes m a 16 = m a # read_bytes m (a + 1) 15" for m a
    using read_bytes_Suc [of m a 15] by simp
  have z: "read_bytes ?m 0x401001 4 = [0, 0, 0, 0]" by (simp add: read_bytes_def upt_rec)
  have v: "mem call_mach = ?m" "rip (guest call_mach) = 0x401000" "rsp (guest call_mach) = 0x7000"
    "hashmap (dbi call_mach) = init_hashmap"
    by (simp_all add: call_mach_def) (simp add: zero_mach_def zero_dbi_def)
  have c: "toy_dis 0 (read_bytes (mem call_mach) 0x401000 16) = Some ?c"
    unfolding v by (simp add: w toy_dis_def take_read_bytes z)
  obtain s' where s': "eval_target granting_kernel toy_dis 0x401000 call_mach = Inr (5 + 0x401000, s')"
    and m': "mem s' = write64 ?m 0x6ff8 (0x401000 + of_nat 5)"
    and g': "guest s' = (guest call_mach)\<lparr>rsp := 0x6ff8\<rparr>"
    and d: "hashmap (dbi s') = init_hashmap"
    using eval_target_decodes [where K = granting_kernel and dis = toy_dis, OF grants_granting c]
    by (auto simp: eval_target_insn_def is_call_def retR_def Let_def v operand0_def)
  have "mem s' 0x402000 = 0xc3" unfolding m' write64_def by (simp add: write_bytes_outside)
  then have r: "toy_dis 0 (read_bytes (mem s') 0x402000 16) = Some ?r"
    by (simp add: w toy_dis_def)
  have "\<exists>t'. eval_target granting_kernel toy_dis 0x402000 s' = Inr (rip (guest call_mach) + of_nat (insn_size ?c), t')
     \<and> rsp (guest t') = rsp (guest call_mach) \<and> mem t' = mem s'"
    by (rule call_then_ret [where dis = toy_dis and rest = "[X86_GRP_BRANCH_RELATIVE]" and v = 5
          and rest' = "[]", OF grants_granting c _ _ s' d refl refl r, THEN conjunct2, THEN conjunct2])
      (simp_all add: operand0_def)
  with s' show ?thesis by (auto simp: v)
qed

lemma eval_syscall_insn:
  assumes "grants K" and "dis 0 (read_bytes (mem s) p 16) = Some i" and "groups i = X86_GRP_INT # rest"
  shows "\<exists>tr c. eval_target K dis p s =
    (let s = upd_dbi (\<lambda>d. d\<lparr>cps_count := c\<rparr>) (s\<lparr>ktrace := ktrace s @ tr\<rparr>)
     in case get_syscall_hook (ucast (rax (guest s))) of
          Some sys_callback \<Rightarrow>
            bindR (set_fs_gs K (instrumented_fs (dbi s)) (instrumented_gs (dbi s)) s) (\<lambda>_ s.
            bindR (sys_callback K s) (\<lambda>ret s.
            bindR (set_fs_gs K (fs (host_state (dbi s))) (gs (host_state (dbi s))) s) (\<lambda>r s.
              if r \<noteq> 0 then fatal_dump K s
              else if ret \<noteq> 0 then retR ret s
              else retR (p + of_nat (insn_size i)) s)))
        | None \<Rightarrow> retR p (s\<lparr>curr_syscall := True\<rparr>))"
proof -
  obtain tr where "eval_target K dis p s = eval_target_insn K i p
     (upd_dbi (\<lambda>d. d\<lparr>cps_count := cps_count d + 1\<rparr>) (s\<lparr>ktrace := ktrace s @ tr\<rparr>))"
    using eval_target_decodes [where K = K and dis = dis, OF assms(1,2)] by blast
  moreover have "upd_dbi (\<lambda>d. d\<lparr>cps_count := cps_count d + 1\<rparr>) u
      = upd_dbi (\<lambda>d. d\<lparr>cps_count := cps_count (dbi u) + 1\<rparr>) u" for u
    by (simp add: upd_dbi_def)
  ultimately show ?thesis
    using assms(3) by (auto simp: eval_target_insn_def is_call_def is_ret_def is_syscall_def Let_def)
qed

text \<open>
  C19: a system call that the switch forwards is executed on the guest's behalf and the guest
  continues behind it: its memory is what the kernel left, of its registers only \<^verbatim>\<open>rax\<close> changes.
\<close>

theorem syscall_continues:
  assumes "grants K" and "prctl_works K" and "dis 0 (read_bytes (mem s) p 16) = Some i"
    and "groups i = X86_GRP_INT # rest"
    and "(n, nr, k) \<in> set forwarded" and "ucast (rax (guest s)) = (of_nat n :: i32)"
  shows "\<exists>s' tr rep. eval_target K dis p s = Inr (p + of_nat (insn_size i), s') \<and>
     rep = K (ktrace s @ tr) (K_syscall nr (take k (sys_args (guest s)))) (mem s) \<and>
     guest s' = (guest s)\<lparr>rax := libc_ret (k_ret rep)\<rparr> \<and> mem s' = k_mem rep"
proof -
  obtain tr c where ev: "eval_target K dis p s =
    (let s = upd_dbi (\<lambda>d. d\<lparr>cps_count := c\<rparr>) (s\<lparr>ktrace := ktrace s @ tr\<rparr>)
     in case get_syscall_hook (ucast (rax (guest s))) of
          Some sys_callback \<Rightarrow>
            bindR (set_fs_gs K (instrumented_fs (dbi s)) (instrumented_gs (dbi s)) s) (\<lambda>_ s.
            bindR (sys_callback K s) (\<lambda>ret s.
            bindR (set_fs_gs K (fs (host_state (dbi s))) (gs (host_state (dbi s))) s) (\<lambda>r s.
              if r \<noteq> 0 then fatal_dump K s
              else if ret \<noteq> 0 then retR ret s
              else retR (p + of_nat (insn_size i)) s)))
        | None \<Rightarrow> retR p (s\<lparr>curr_syscall := True\<rparr>))"
    using eval_syscall_insn [where K = K and dis = dis, OF assms(1,3,4)] by blast
  show ?thesis
    unfolding ev using forwarded_hook [OF assms(5)] assms(6)
    by (simp add: Let_def set_fs_gs_works [OF assms(2)] passthru_def do_syscall_works [OF assms(2)]
        after_syscall_def retR_def) (metis append.assoc)
qed

definition sys_mach :: mach where
  "sys_mach = upd_guest (\<lambda>st. st\<lparr>rax := 39\<rparr>)
     (zero_mach\<lparr>mem := (\<lambda>x. if x = 0x401000 then 0x0f else if x = 0x401001 then 5 else 0xc3)\<rparr>)"

lemma sys_mach_decodes:
  "toy_dis b (read_bytes (mem sys_mach) 0x401000 16) =
     Some \<lparr>insn_id = X86_INS_other 2, insn_size = 2, groups = [X86_GRP_INT], operands = []\<rparr>"
proof -
  have w: "read_bytes m a 16 = m a # m (a + 1) # read_bytes m (2 + a) 14" for m a
    using read_bytes_Suc [of m a 15] read_bytes_Suc [of m "a + 1" 14] by (simp add: add.commute)
  have m: "mem sys_mach = (\<lambda>x. if x = 0x401000 then 0x0f else if x = 0x401001 then 5 else 0xc3)"
    by (simp add: sys_mach_def)
  show ?thesis unfolding m by (simp add: w toy_dis_def)
qed

lemma syscall_continues_witness:
  "\<exists>s'. eval_target granting_kernel toy_dis 0x401000 sys_mach = Inr (0x401002, s') \<and> rax (guest s') = 0"
proof -
  have "(39, 39, 0) \<in> set forwarded" by (simp add: forwarded_def)
  moreover have "(ucast (rax (guest sys_mach)) :: i32) = of_nat 39" by (simp add: sys_mach_def)
  ultimately show ?thesis
    using syscall_continues [where dis = toy_dis and K = granting_kernel, OF _ _ sys_mach_decodes]
    by (fastforce simp: granting_kernel_def libc_ret_def)
qed

text \<open>
  C20: a system call without handler is left to the guest: the engine takes the instruction
  itself as the target and raises \<^verbatim>\<open>curr_syscall\<close>, and the sweep that then starts at this
  instruction passes over it and finds the first control-flow instruction behind it, so the
  guest executes the call natively before the next hook.
\<close>

theorem unknown_syscall_runs_natively:
  assumes "grants K" and "disasm_ok dis" and "dis 0 (read_bytes (mem s) p 16) = Some i"
    and "groups i = X86_GRP_INT # rest" and "get_syscall_hook (ucast (rax (guest s))) = None"
    and "cflow_at dis (mem s) (p + of_nat (insn_size i)) d" and "insn_size i + d < fuel"
  shows "\<exists>s' s''. eval_target K dis p s = Inr (p, s') \<and> scan_frame s s' \<and> curr_syscall s' \<and>
     opcodes_cflow fuel K dis p True s' = Inr (of_nat (insn_size i + d), s'') \<and> scan_frame s s'' \<and>
     \<not> curr_syscall s''"
proof -
  obtain tr c where "eval_target K dis p s =
     retR p ((upd_dbi (\<lambda>d. d\<lparr>cps_count := c\<rparr>) (s\<lparr>ktrace := ktrace s @ tr\<rparr>))\<lparr>curr_syscall := True\<rparr>)"
    using eval_syscall_insn [where K = K and dis = dis, OF assms(1,3,4)] assms(5) by (auto simp: Let_def)
  then obtain s' where s': "eval_target K dis p s = Inr (p, s')" "scan_frame s s'" "curr_syscall s'"
    by (simp add: retR_def)
  obtain j where j: "decode dis (mem s) p = Some j" "insn_size j = insn_size i"
    by (rule decode_buffer [OF assms(2,3)]) auto
  have "sweep dis (mem s') p (True \<and> curr_syscall s') (insn_size i + d)"
    using s' j assms(6) by (auto simp: sweep_def scan_frame_mem)
  from opcodes_cflow_sweeps [OF assms(1,2) this assms(7)] obtain s''
    where "opcodes_cflow fuel K dis p True s' = Inr (of_nat (insn_size i + d), s'')"
      "scan_frame s' s''" "\<not> curr_syscall s''" by auto
  with s' show ?thesis using scan_frame_trans by blast
qed

lemma unknown_syscall_runs_natively_witness:
  "\<exists>s' s''. eval_target granting_kernel toy_dis 0x401000 (upd_guest (\<lambda>st. st\<lparr>rax := 1000\<rparr>) sys_mach) = Inr (0x401000, s')
     \<and> curr_syscall s' \<and> opcodes_cflow 4 granting_kernel toy_dis 0x401000 True s' = Inr (2, s'')"
proof -
  let ?s = "upd_guest (\<lambda>st. st\<lparr>rax := 1000\<rparr>) sys_mach"
  let ?i = "\<lparr>insn_id = X86_INS_other 2, insn_size = 2, groups = [X86_GRP_INT], operands = []\<rparr>"
  let ?r = "\<lparr>insn_id = X86_INS_other 1, insn_size = 1, groups = [X86_GRP_RET], operands = []\<rparr>"
  have i: "toy_dis 0 (read_bytes (mem ?s) 0x401000 16) = Some ?i" using sys_mach_decodes by simp
  have n: "get_syscall_hook (ucast (rax (guest ?s))) = None"
    by (simp add: get_syscall_hook_def syscall_table_cases)
  have w: "read_bytes m a 16 = m a # read_bytes m (a + 1) 15" for m a
    using read_bytes_Suc [of m a 15] by simp
  have "decode toy_dis (mem ?s) (0x401000 + of_nat (insn_size ?i)) = Some ?r"
    by (simp add: decode_def w toy_dis_def sys_mach_def)
  then have "cflow_at toy_dis (mem ?s) (0x401000 + of_nat (insn_size ?i)) 0"
    by (rule cflow_at.here) (simp add: is_cflow_def)
  from unknown_syscall_runs_natively [where dis = toy_dis, OF grants_granting toy_dis_ok i _ n this, of "[]" 4]
  show ?thesis by auto
qed

text \<open>
  \<^verbatim>\<open>sign_extend\<close> does not extend: on every operand size for which its shifts are defined
  (1 to 4 bytes) it returns the value it was given.
\<close>

lemma sign_extend_identity:
  "sign_extend sz v = (if 1 \<le> unat sz \<and> unat sz \<le> 4 then Some v else None)"
proof (cases "1 \<le> unat sz \<and> unat sz \<le> 4")
  case True
  define k where "k = unat sz"
  from True have k: "1 \<le> k" "k \<le> 4" by (simp_all add: k_def)
  have "push_bit (63 - (k - 1)) (v AND scast (push_bit (k * 8 - 1) (1 :: i32))) = 0"
  proof (rule bit_word_eqI)
    fix n assume "n < LENGTH(64)"
    then have "min 31 (n - (63 - (k - 1))) < k * 8 - 1" using k by auto
    then have "\<not> bit (push_bit (k * 8 - 1) (1 :: i32)) (min 31 (n - (63 - (k - 1))))"
      unfolding bit_push_bit_iff by linarith
    then show "bit (push_bit (63 - (k - 1)) (v AND scast (push_bit (k * 8 - 1) (1 :: i32)))) n = bit (0 :: u64) n"
      by (simp add: bit_push_bit_iff bit_and_iff bit_signed_iff)
  qed
  then show ?thesis using k by (simp add: sign_extend_def Let_def flip: k_def)
next
  case False
  then show ?thesis by (auto simp: sign_extend_def Let_def)
qed

end
