(* ===== verification/Engine.thy ===== *)
theory Engine
  imports Analysis
begin

unbundle bit_operations_syntax

text \<open>
  The instrumentation cycle of \<^verbatim>\<open>src/engine.c\<close>: a basic block is framed by two patches, the restore
  hook in front of it and the dump hook over its control-flow instruction; when the dump hook
  fires, the dispatcher undoes both, emulates the branch and frames the next block.  The user's
  callback is the parameter \<open>cb\<close>.  The theorems show that the dispatcher sees the guest's own
  bytes, that it frames the block the guest would have executed, that the patches are exactly
  undone, and, over a step relation in which the guest runs between two calls of the dispatcher,
  that the process simulates the guest alone in its memory.
\<close>

section \<open>Hooks\<close>

text \<open>The two \<^verbatim>\<open>hook_t\<close> that a \<^verbatim>\<open>hook_t *\<close> argument can point to.\<close>

datatype which = Dump | Restore

fun the_hook :: "which \<Rightarrow> dbi_instr_t \<Rightarrow> hook_t" where
  "the_hook Dump d = dump d"
| "the_hook Restore d = restore d"

fun upd_hook :: "which \<Rightarrow> (hook_t \<Rightarrow> hook_t) \<Rightarrow> dbi_instr_t \<Rightarrow> dbi_instr_t" where
  "upd_hook Dump f d = d\<lparr>dump := f (dump d)\<rparr>"
| "upd_hook Restore f d = d\<lparr>restore := f (restore d)\<rparr>"

definition hookof :: "which \<Rightarrow> mach \<Rightarrow> hook_t" where
  "hookof w s = the_hook w (dbi s)"

definition set_hook :: "which \<Rightarrow> (hook_t \<Rightarrow> hook_t) \<Rightarrow> mach \<Rightarrow> mach" where
  "set_hook w f = upd_dbi (upd_hook w f)"

text \<open>The kinds of request: every block, the block of an address.\<close>

definition INSTRUMENT_BBL :: nat where [simp]: "INSTRUMENT_BBL = 0"
definition INSTRUMENT_ADDR :: nat where [simp]: "INSTRUMENT_ADDR = 1"
definition PERSISTENT_FIND_SPACE :: nat where [simp]: "PERSISTENT_FIND_SPACE = 4"

definition parse_request :: "mach \<Rightarrow> request_t \<Rightarrow> u64 \<Rightarrow> bool" where
  "parse_request s req base_bbl =
     (if rtype req = INSTRUMENT_ADDR then raddress req \<ge> base_bbl \<and> raddress req \<le> jmp (dump (dbi s))
      else if rtype req = INSTRUMENT_BBL then True else False)"

definition log_persistent_hook :: "mach \<Rightarrow> u64 \<Rightarrow> i32 \<times> mach" where
  "log_persistent_hook s a =
     (0, upd_dbi (\<lambda>d. d\<lparr>persistent_hook := \<lparr>pstate = PERSISTENT_FIND_SPACE, paddress = a\<rparr>\<rparr>) s)"

definition write_hook :: "kernel \<Rightarrow> which \<Rightarrow> mach \<Rightarrow> i32 run" where
  "write_hook K w s =
     bindR (if \<not> is_mapped (PAGE_ALIGN (jmp (hookof w s))) s
            then bindR (map_page K (PAGE_ALIGN (jmp (hookof w s))) (PROT_EXEC OR PROT_READ) s) (\<lambda>r s.
              if r = -1 then fatal_dump K s
              else retR () (set_hook w (\<lambda>h. h\<lparr>to_unmap := PAGE_ALIGN (jmp h)\<rparr>) s))
            else if \<not> is_mapped (jmp (hookof w s) + hlength (hookof w s)) s
            then bindR (map_page K (jmp (hookof w s) + hlength (hookof w s)) (PROT_EXEC OR PROT_READ) s) (\<lambda>r s.
              if r = -1 then fatal_dump K s
              else retR () (set_hook w (\<lambda>h. h\<lparr>to_unmap := PAGE_ALIGN (jmp h + hlength h)\<rparr>) s))
            else retR () s) (\<lambda>_ s.
     bindR (mem_read K (orig_bytes (hookof w s)) (jmp (hookof w s)) (hlength (hookof w s)) s) (\<lambda>(r, buf) s.
       let s = set_hook w (\<lambda>h. h\<lparr>orig_bytes := buf\<rparr>) s in
       if r = -1 then fatal_dump K s
       else bindR (mem_write K (jmp (hookof w s)) (code (hookof w s)) (hlength (hookof w s)) s) (\<lambda>r s.
         if r = -1 then fatal_dump K s
         else if get_prot s (jmp (hookof w s)) AND PROT_EXEC = 0
         then bindR (make_executable K (PAGE_ALIGN (jmp (hookof w s))) PAGE_SZ s) (\<lambda>r s.
                if r = -1 then fatal_dump K s else retR 0 s)
         else retR 0 s)))"

definition restore_bytes :: "kernel \<Rightarrow> which \<Rightarrow> mach \<Rightarrow> i32 run" where
  "restore_bytes K w s =
    (if \<not> is_mapped (jmp (hookof w s)) s then fatal_dump K s
     else bindR (mem_write K (jmp (hookof w s)) (orig_bytes (hookof w s)) (hlength (hookof w s)) s) (\<lambda>r s.
       if r = -1 then fatal_dump K s else retR 0 s))"

section \<open>Framing a basic block\<close>

text \<open>\<^verbatim>\<open>fuel\<close> is the depth left to \<^verbatim>\<open>opcodes_cflow\<close>.\<close>

definition instrument_bbl :: "nat \<Rightarrow> kernel \<Rightarrow> disassembler \<Rightarrow> which \<Rightarrow> u64 \<Rightarrow> mach \<Rightarrow> u64 run" where
  "instrument_bbl fuel K dis w bbl s =
     bindR (opcodes_cflow fuel K dis bbl True s) (\<lambda>r s.
       let off_cflow = (scast r :: u64) in
       if off_cflow = -1 then fatal_dump K s
       else let s = set_hook Dump (\<lambda>h. h\<lparr>jmp := bbl + off_cflow\<rparr>) s in
       bindR (insn_len K dis (bbl + off_cflow) s) (\<lambda>l s.
         let s = upd_dbi (\<lambda>d. d\<lparr>length_cflow := l\<rparr>) s in
         bindR (write_hook K w s) (\<lambda>r s.
           if r \<noteq> 0 then fatal_dump K s else retR off_cflow s)))"

definition instrument_request :: "nat \<Rightarrow> kernel \<Rightarrow> disassembler \<Rightarrow> u64 \<Rightarrow> mach \<Rightarrow> i32 run" where
  "instrument_request fuel K dis base_bbl s =
     bindR (instrument_bbl fuel K dis Dump base_bbl s) (\<lambda>off s.
       let s = upd_dbi (\<lambda>d. d\<lparr>curr_hook := base_bbl + off\<rparr>) s;
           s = set_hook Restore (\<lambda>h. h\<lparr>jmp := base_bbl - hlength h\<rparr>) s;
           s = upd_dbi (\<lambda>d. d\<lparr>curr_hook := jmp (dump d)\<rparr>) s
       in bindR (write_hook K Restore s) (\<lambda>r s.
            if r = -1 then fatal_dump K s else retR 0 s))"

section \<open>The dispatcher\<close>

definition br_emulation :: "kernel \<Rightarrow> disassembler \<Rightarrow> u64 \<Rightarrow> mach \<Rightarrow> u64 run" where
  "br_emulation K dis a s =
     bindR (eval_target K dis a s) (\<lambda>target s.
       if target = -1 then fatal_dump K s else retR target s)"

definition get_bbl_base :: "kernel \<Rightarrow> disassembler \<Rightarrow> mach \<Rightarrow> u64 run" where
  "get_bbl_base K dis s = br_emulation K dis (curr_hook (dbi s)) s"

text \<open>The value of \<^verbatim>\<open>continue_exec\<close> is the address it jumps to.\<close>

definition continue_exec :: "kernel \<Rightarrow> mach \<Rightarrow> u64 run" where
  "continue_exec K s =
     bindR (set_fs_gs K (instrumented_fs (dbi s)) (instrumented_gs (dbi s)) s) (\<lambda>_ s.
       retR (restore_stub (dbi s)) s)"

text \<open>
  What the dispatcher does with one hook: write the saved bytes back and drop the page that was
  mapped for the hook, if any (\<^verbatim>\<open>PAGE_ALIGN\<close> of an aligned address for the dump hook).
\<close>

definition undo_hook :: "kernel \<Rightarrow> which \<Rightarrow> mach \<Rightarrow> unit run" where
  "undo_hook K w s =
     bindR (restore_bytes K w s) (\<lambda>r s.
       if r = -1 then fatal_dump K s
       else if to_unmap (hookof w s) \<noteq> 0
       then bindR (unmap K (case w of Restore \<Rightarrow> to_unmap (hookof w s) | Dump \<Rightarrow> PAGE_ALIGN (to_unmap (hookof w s)))
                     PAGE_SZ s) (\<lambda>r s. if r = -1 then fatal_dump K s else retR () s)
       else retR () s)"

definition dispatcher_fn :: "nat \<Rightarrow> kernel \<Rightarrow> disassembler \<Rightarrow> (mach \<Rightarrow> mach) \<Rightarrow> mach \<Rightarrow> u64 run" where
  "dispatcher_fn fuel K dis cb s =
     bindR (save_fs_gs K s) (\<lambda>(r, f, g) s.
       let s = upd_dbi (\<lambda>d. d\<lparr>instrumented_fs := (case f of Some v \<Rightarrow> v | None \<Rightarrow> instrumented_fs d),
                              instrumented_gs := (case g of Some v \<Rightarrow> v | None \<Rightarrow> instrumented_gs d)\<rparr>) s in
     bindR (if r = -1 then fatal_dump K s
            else bindR (set_fs_gs K (fs (host_state (dbi s))) (gs (host_state (dbi s))) s) (\<lambda>r s.
              if r = -1 then fatal_dump K s else retR () s)) (\<lambda>_ s.
       let s = (if take_callback (dbi s) then cb s else s) in
     bindR (if jmp (restore (dbi s)) \<noteq> 0 then undo_hook K Restore s else retR () s) (\<lambda>_ s.
       let s = set_hook Restore (\<lambda>h. h\<lparr>to_unmap := 0\<rparr>) s in
     bindR (undo_hook K Dump s) (\<lambda>_ s.
       let s = set_hook Dump (\<lambda>h. h\<lparr>to_unmap := 0\<rparr>) s in
     bindR (get_bbl_base K dis s) (\<lambda>base_bbl s.
       if base_bbl = -1 then fatal_dump K s
       else bindR (instrument_request fuel K dis base_bbl s) (\<lambda>r s.
         if r = -1 then fatal_dump K s
         else continue_exec K (upd_guest (\<lambda>st. st\<lparr>rip := base_bbl - hlength (restore (dbi s))\<rparr>) s)))))))"

section \<open>Access to the hooks\<close>

lemma hookof_set_hook [simp]: "hookof w (set_hook w' f s) = (if w = w' then f (hookof w s) else hookof w s)"
  by (cases w; cases w') (simp_all add: hookof_def set_hook_def)

lemma hookof_frame [simp]:
  "hookof w (s\<lparr>mem := m\<rparr>) = hookof w s" "hookof w (s\<lparr>ktrace := tr\<rparr>) = hookof w s"
  "hookof w (s\<lparr>curr_syscall := c\<rparr>) = hookof w s" "hookof w (s\<lparr>bbl_count := b\<rparr>) = hookof w s"
  "hookof w (upd_dbi (\<lambda>d. d\<lparr>curr_hook := x d\<rparr>) s) = hookof w s"
  "hookof w (upd_dbi (\<lambda>d. d\<lparr>length_cflow := x d\<rparr>) s) = hookof w s"
  "hookof w (upd_guest g s) = hookof w s"
  by (cases w; simp add: hookof_def)+

lemma set_hook_frame [simp]:
  "mem (set_hook w f s) = mem s" "ktrace (set_hook w f s) = ktrace s"
  "curr_syscall (set_hook w f s) = curr_syscall s" "guest (set_hook w f s) = guest s"
  "curr_hook (dbi (set_hook w f s)) = curr_hook (dbi s)"
  "length_cflow (dbi (set_hook w f s)) = length_cflow (dbi s)"
  "hashmap (dbi (set_hook w f s)) = hashmap (dbi s)"
  "restore_stub (dbi (set_hook w f s)) = restore_stub (dbi s)"
  by (cases w; simp add: set_hook_def)+

lemma set_hook_commute:
  "set_hook w f (s\<lparr>mem := m\<rparr>) = (set_hook w f s)\<lparr>mem := m\<rparr>"
  "set_hook w f (s\<lparr>ktrace := tr\<rparr>) = (set_hook w f s)\<lparr>ktrace := tr\<rparr>"
  by (simp_all add: set_hook_def upd_dbi_commute)

lemma hookof_dump: "hookof Dump s = dump (dbi s)" and hookof_restore: "hookof Restore s = restore (dbi s)"
  by (simp_all add: hookof_def)

text \<open>
  A hook that can be installed: its length is that of its code and fits the 64 bytes kept for the
  original bytes.
\<close>

definition hook_wf :: "hook_t \<Rightarrow> bool" where
  "hook_wf h \<longleftrightarrow> 0 < unat (hlength h) \<and> unat (hlength h) \<le> 64 \<and> length (orig_bytes h) = 64 \<and>
     unat (hlength h) \<le> length (code h) \<and> to_unmap h = 0"

definition hook_len :: "hook_t \<Rightarrow> nat" where
  "hook_len h = unat (hlength h)"

definition hook_code :: "hook_t \<Rightarrow> u8 list" where
  "hook_code h = take (hook_len h) (code h)"

lemma length_hook_code [simp]: "hook_wf h \<Longrightarrow> length (hook_code h) = hook_len h"
  by (simp add: hook_wf_def hook_code_def hook_len_def)

lemma write_hook_installs:
  assumes K: "ready K (jmp h) (Suc n)" and wf: "hook_wf (hookof w s)" and h: "h = hookof w s" and n: "n = hook_len h"
  shows "\<exists>tr. write_hook K w s = Inr (0,
     (set_hook w (\<lambda>h. h\<lparr>orig_bytes := read_bytes (mem s) (jmp h) n @ drop n (orig_bytes h)\<rparr>) s)
       \<lparr>mem := write_bytes (mem s) (jmp h) (hook_code h), ktrace := ktrace s @ tr\<rparr>)"
proof -
  have sz: "0 < unat (hlength h)" "unat (hlength h) \<le> length (orig_bytes h)" "unat (hlength h) < 2 ^ 31"
    "unat (hlength h) \<le> length (code h)" using wf h by (simp_all add: hook_wf_def)
  have R: "ready K (jmp h) (unat (hlength h))" "ready K (jmp h) (Suc (unat (hlength h)))"
    using ready_dest(3) [OF K] K unfolding n hook_len_def by simp_all
  obtain r tr where rd: "r \<noteq> -1" "mem_read K (orig_bytes h) (jmp h) (hlength h) s =
     Inr ((r, read_bytes (mem s) (jmp h) n @ drop n (orig_bytes h)), s\<lparr>ktrace := ktrace s @ tr\<rparr>)"
    unfolding n hook_len_def by (rule bm.read_ok [OF R(1) sz(1,2)])
  define t where "t = set_hook w (\<lambda>h. h\<lparr>orig_bytes := read_bytes (mem s) (jmp h) n @ drop n (orig_bytes h)\<rparr>)
     (s\<lparr>ktrace := ktrace s @ tr\<rparr>)"
  have t': "set_hook w (\<lambda>h'. h'\<lparr>orig_bytes := read_bytes (mem s) (jmp h) n @ drop n (orig_bytes h)\<rparr>)
     (s\<lparr>ktrace := ktrace s @ tr\<rparr>) = t"
    unfolding t_def h by (cases w) (simp_all add: set_hook_def upd_dbi_def hookof_def)
  obtain r2 tr2 where wr: "r2 \<noteq> -1" "mem_write K (jmp h) (code h) (hlength h) t =
     Inr (r2, t\<lparr>mem := write_bytes (mem t) (jmp h) (take (unat (hlength h)) (code h)), ktrace := ktrace t @ tr2\<rparr>)"
    by (rule bm.write_ok [OF R(2) sz(3,4)])
  have ht: "jmp (hookof w t) = jmp h" "code (hookof w t) = code h" "hlength (hookof w t) = hlength h"
    by (simp_all add: t_def h)
  show ?thesis
    using rd wr unfolding write_hook_def h [symmetric]
    by (auto simp: is_mapped_def h [symmetric] t' Let_def ht get_prot_7 retR_def hook_code_def hook_len_def)
      (auto simp: t_def set_hook_commute)
qed

lemma restore_bytes_writes:
  assumes K: "ready K (jmp h) (Suc (hook_len h))" and wf: "hook_wf (hookof w s)" and h: "h = hookof w s"
  shows "\<exists>tr. restore_bytes K w s =
     Inr (0, s\<lparr>mem := write_bytes (mem s) (jmp h) (take (hook_len h) (orig_bytes h)), ktrace := ktrace s @ tr\<rparr>)"
proof -
  have sz: "unat (hlength h) < 2 ^ 31" "unat (hlength h) \<le> length (orig_bytes h)"
    using wf h by (simp_all add: hook_wf_def)
  obtain r tr where "r \<noteq> -1" "mem_write K (jmp h) (orig_bytes h) (hlength h) s =
     Inr (r, s\<lparr>mem := write_bytes (mem s) (jmp h) (take (unat (hlength h)) (orig_bytes h)), ktrace := ktrace s @ tr\<rparr>)"
    by (rule bm.write_ok [OF K [unfolded hook_len_def] sz])
  then show ?thesis by (auto simp: restore_bytes_def is_mapped_def h [symmetric] hook_len_def retR_def)
qed

lemma undo_hook_writes:
  assumes K: "ready K (jmp h) (Suc (hook_len h))" and wf: "hook_wf (hookof w s)" and h: "h = hookof w s"
  shows "\<exists>tr. undo_hook K w s =
     Inr ((), s\<lparr>mem := write_bytes (mem s) (jmp h) (take (hook_len h) (orig_bytes h)), ktrace := ktrace s @ tr\<rparr>)"
  using restore_bytes_writes [OF assms] wf by (auto simp: undo_hook_def hook_wf_def retR_def)

text \<open>
  A page that is refused ends the process.  The read of \<^verbatim>\<open>write_hook\<close> can come back short and unnoticed, but the write to the same
  range then fails.
\<close>

lemma fatal_dump_exits: "\<exists>c s'. fatal_dump K s = Inl (Exit c, s')"
  by (simp add: fatal_dump_def default_dtor_def haltR_def split: sum.splits)

lemma write_hook_ready:
  assumes K: "steady K" and wf: "hook_wf (hookof w s)" and run: "write_hook K w s = Inr y"
  shows "ready K (jmp (hookof w s)) (Suc (hook_len (hookof w s)))"
proof -
  define h where "h = hookof w s"
  have sz: "0 < unat (hlength h)" "unat (hlength h) \<le> length (orig_bytes h)" "unat (hlength h) < 2 ^ 31"
    "unat (hlength h) \<le> length (code h)" using wf h_def by (simp_all add: hook_wf_def)
  obtain r b tr where rd: "mem_read K (orig_bytes h) (jmp h) (hlength h) s = Inr ((r, b), s\<lparr>ktrace := ktrace s @ tr\<rparr>)"
    using gm.rd_returns [OF K sz(1,2)] by blast
  define t where "t = set_hook w (\<lambda>h. h\<lparr>orig_bytes := b\<rparr>) (s\<lparr>ktrace := ktrace s @ tr\<rparr>)"
  have ht: "jmp (hookof w t) = jmp h" "code (hookof w t) = code h" "hlength (hookof w t) = hlength h"
    by (simp_all add: t_def h_def)
  obtain q t' where "mem_write K (jmp h) (code h) (hlength h) t = Inr (q, t')" "q \<noteq> -1"
    using run rd unfolding write_hook_def h_def [symmetric]
    by (auto simp: is_mapped_def h_def [symmetric] t_def [symmetric] Let_def ht bindR_eq_Inr split: if_splits)
  from gm.written_open [OF K sz(3,4) this] show ?thesis unfolding h_def hook_len_def .
qed

lemma undo_hook_refused:
  assumes K: "steady K" and wf: "hook_wf (hookof w s)" and no: "\<not> ready K (jmp (hookof w s)) (Suc (hook_len (hookof w s)))"
  shows "\<exists>c s'. undo_hook K w s = Inl (Exit c, s')"
proof -
  obtain t' where "mem_write K (jmp (hookof w s)) (orig_bytes (hookof w s)) (hlength (hookof w s)) s = Inr (-1, t')"
    using gm.wr_refuses [OF K, of "hlength (hookof w s)" "orig_bytes (hookof w s)"] wf no by (fastforce simp: hook_wf_def hook_len_def)
  then show ?thesis by (simp add: undo_hook_def restore_bytes_def is_mapped_def fatal_dump_exits)
qed

section \<open>Framed blocks\<close>

text \<open>
  \<open>patched m s\<close>: memory is the image \<open>m\<close> with the dump hook and then the restore hook written over
  it, and each hook holds the bytes it overwrote.
\<close>

definition patched :: "memory \<Rightarrow> mach \<Rightarrow> bool" where
  "patched m s \<longleftrightarrow>
     (let d = hookof Dump s; r = hookof Restore s; m1 = write_bytes m (jmp d) (hook_code d)
      in hook_wf d \<and> hook_wf r \<and> jmp r \<noteq> 0 \<and>
         take (hook_len d) (orig_bytes d) = read_bytes m (jmp d) (hook_len d) \<and>
         take (hook_len r) (orig_bytes r) = read_bytes m1 (jmp r) (hook_len r) \<and>
         mem s = write_bytes m1 (jmp r) (hook_code r))"

text \<open>What framing a block may change.\<close>

definition hook_erase :: "hook_t \<Rightarrow> hook_t" where
  "hook_erase h = h\<lparr>orig_bytes := [], jmp := 0, to_unmap := 0\<rparr>"

definition eng_erase :: "mach \<Rightarrow> mach" where
  "eng_erase s = (upd_dbi (\<lambda>d. d\<lparr>dump := hook_erase (dump d), restore := hook_erase (restore d),
       curr_hook := 0, length_cflow := 0, cps_count := 0\<rparr>) s)
     \<lparr>mem := (\<lambda>_. 0), ktrace := [], curr_syscall := False\<rparr>"

definition eng_frame :: "mach \<Rightarrow> mach \<Rightarrow> bool" where
  "eng_frame s s' \<longleftrightarrow> eng_erase s' = eng_erase s"

lemma eng_frame_refl [simp, intro]: "eng_frame s s"
  by (simp add: eng_frame_def)

lemma eng_frame_trans [trans]: "eng_frame s t \<Longrightarrow> eng_frame t u \<Longrightarrow> eng_frame s u"
  by (simp add: eng_frame_def)

lemma eng_erase_updates [simp]:
  "eng_erase (t\<lparr>mem := m\<rparr>) = eng_erase t"
  "eng_erase (t\<lparr>ktrace := tr\<rparr>) = eng_erase t"
  "eng_erase (t\<lparr>curr_syscall := c\<rparr>) = eng_erase t"
  "eng_erase (upd_dbi (\<lambda>d. d\<lparr>cps_count := f d\<rparr>) t) = eng_erase t"
  "eng_erase (upd_dbi (\<lambda>d. d\<lparr>curr_hook := f d\<rparr>) t) = eng_erase t"
  "eng_erase (upd_dbi (\<lambda>d. d\<lparr>length_cflow := f d\<rparr>) t) = eng_erase t"
  "eng_erase (set_hook w (\<lambda>h. h\<lparr>orig_bytes := b h\<rparr>) t) = eng_erase t"
  "eng_erase (set_hook w (\<lambda>h. h\<lparr>jmp := a h\<rparr>) t) = eng_erase t"
  "eng_erase (set_hook w (\<lambda>h. h\<lparr>to_unmap := a h\<rparr>) t) = eng_erase t"
  by (cases w; simp add: eng_erase_def upd_dbi_def set_hook_def hook_erase_def)+

lemma eng_frame_updates [simp]:
  "eng_frame s (t\<lparr>mem := m\<rparr>) \<longleftrightarrow> eng_frame s t"
  "eng_frame s (t\<lparr>ktrace := tr\<rparr>) \<longleftrightarrow> eng_frame s t"
  "eng_frame s (t\<lparr>curr_syscall := c\<rparr>) \<longleftrightarrow> eng_frame s t"
  "eng_frame s (upd_dbi (\<lambda>d. d\<lparr>cps_count := f d\<rparr>) t) \<longleftrightarrow> eng_frame s t"
  "eng_frame s (upd_dbi (\<lambda>d. d\<lparr>curr_hook := f d\<rparr>) t) \<longleftrightarrow> eng_frame s t"
  "eng_frame s (upd_dbi (\<lambda>d. d\<lparr>length_cflow := f d\<rparr>) t) \<longleftrightarrow> eng_frame s t"
  "eng_frame s (set_hook w (\<lambda>h. h\<lparr>orig_bytes := b h\<rparr>) t) \<longleftrightarrow> eng_frame s t"
  "eng_frame s (set_hook w (\<lambda>h. h\<lparr>jmp := a h\<rparr>) t) \<longleftrightarrow> eng_frame s t"
  "eng_frame s (set_hook w (\<lambda>h. h\<lparr>to_unmap := a h\<rparr>) t) \<longleftrightarrow> eng_frame s t"
  by (simp_all add: eng_frame_def)

lemma scan_frame_eng: "scan_frame s s' \<Longrightarrow> eng_frame s s'"
proof -
  have "eng_erase (scan_erase t) = eng_erase t" for t by (simp add: scan_erase_def)
  then show "scan_frame s s' \<Longrightarrow> eng_frame s s'" by (metis scan_frame_def eng_frame_def)
qed

lemma scan_frame_dest:
  assumes "scan_frame s s'"
  shows "hookof w s' = hookof w s" "mem s' = mem s" "curr_hook (dbi s') = curr_hook (dbi s)"
    "length_cflow (dbi s') = length_cflow (dbi s)" "guest s' = guest s"
proof -
  have e: "hookof w (scan_erase t) = hookof w t" "mem (scan_erase t) = mem t"
    "curr_hook (dbi (scan_erase t)) = curr_hook (dbi t)" "guest (scan_erase t) = guest t"
    "length_cflow (dbi (scan_erase t)) = length_cflow (dbi t)" for t
    by (cases w; simp add: scan_erase_def hookof_def)+
  have eq: "scan_erase s' = scan_erase s" using assms by (simp add: scan_frame_def)
  show "hookof w s' = hookof w s" "mem s' = mem s" "curr_hook (dbi s') = curr_hook (dbi s)"
    "length_cflow (dbi s') = length_cflow (dbi s)" "guest s' = guest s"
    using e [of s] e [of s'] unfolding eq by auto
qed

lemma eng_frame_dest:
  assumes "eng_frame s s'"
  shows "guest s' = guest s" "hashmap (dbi s') = hashmap (dbi s)" "host_state (dbi s') = host_state (dbi s)"
    "take_callback (dbi s') = take_callback (dbi s)" "restore_stub (dbi s') = restore_stub (dbi s)"
    "hook_erase (hookof w s') = hook_erase (hookof w s)" "bbl_count s' = bbl_count s"
    "instrumented_fs (dbi s') = instrumented_fs (dbi s)" "instrumented_gs (dbi s') = instrumented_gs (dbi s)"
proof -
  have e: "guest (eng_erase t) = guest t" "hashmap (dbi (eng_erase t)) = hashmap (dbi t)"
    "host_state (dbi (eng_erase t)) = host_state (dbi t)"
    "take_callback (dbi (eng_erase t)) = take_callback (dbi t)"
    "restore_stub (dbi (eng_erase t)) = restore_stub (dbi t)"
    "hookof w (eng_erase t) = hook_erase (hookof w t)" "bbl_count (eng_erase t) = bbl_count t"
    "instrumented_fs (dbi (eng_erase t)) = instrumented_fs (dbi t)"
    "instrumented_gs (dbi (eng_erase t)) = instrumented_gs (dbi t)" for t
    by (cases w; simp add: eng_erase_def hookof_def)+
  have eq: "eng_erase s' = eng_erase s" using assms by (simp add: eng_frame_def)
  show "guest s' = guest s" "hashmap (dbi s') = hashmap (dbi s)" "host_state (dbi s') = host_state (dbi s)"
    "take_callback (dbi s') = take_callback (dbi s)" "restore_stub (dbi s') = restore_stub (dbi s)"
    "hook_erase (hookof w s') = hook_erase (hookof w s)" "bbl_count s' = bbl_count s"
    "instrumented_fs (dbi s') = instrumented_fs (dbi s)" "instrumented_gs (dbi s') = instrumented_gs (dbi s)"
    using e [of s] e [of s'] unfolding eq by auto
qed

lemma hook_erase_code:
  assumes "hook_erase h' = hook_erase h"
  shows "code h' = code h" "hlength h' = hlength h" "hook_code h' = hook_code h" "hook_len h' = hook_len h"
proof -
  have "code (hook_erase h) = code h" "hlength (hook_erase h) = hlength h" for h
    by (simp_all add: hook_erase_def)
  then show "code h' = code h" "hlength h' = hlength h" by (metis assms)+
  then show "hook_code h' = hook_code h" "hook_len h' = hook_len h" by (simp_all add: hook_code_def hook_len_def)
qed

section \<open>Undoing both hooks\<close>

lemma undo_both_uniform:
  assumes K: "\<And>w. ready K (jmp (hookof w s)) (Suc (hook_len (hookof w s)))" and p: "patched m s"
  shows "\<exists>tr. \<forall>f. bindR (undo_hook K Restore s) (\<lambda>_ s.
            bindR (undo_hook K Dump (set_hook Restore (\<lambda>h. h\<lparr>to_unmap := 0\<rparr>) s)) (\<lambda>_ s.
              f (set_hook Dump (\<lambda>h. h\<lparr>to_unmap := 0\<rparr>) s)))
       = f (s\<lparr>mem := m, ktrace := ktrace s @ tr\<rparr>)"
proof -
  define d where "d = hookof Dump s"
  define r where "r = hookof Restore s"
  define m1 where "m1 = write_bytes m (jmp d) (hook_code d)"
  have wf: "hook_wf d" "hook_wf r" and od: "take (hook_len d) (orig_bytes d) = read_bytes m (jmp d) (hook_len d)"
    and or': "take (hook_len r) (orig_bytes r) = read_bytes m1 (jmp r) (hook_len r)"
    and ms: "mem s = write_bytes m1 (jmp r) (hook_code r)"
    using p by (simp_all add: patched_def Let_def d_def r_def m1_def)
  have tu: "to_unmap d = 0" "to_unmap r = 0" using wf by (simp_all add: hook_wf_def)
  have same: "set_hook Restore (\<lambda>h. h\<lparr>to_unmap := 0\<rparr>) t = t" if "hookof Restore t = r" for t
    using that tu by (simp add: set_hook_def upd_dbi_def hookof_def)
  have same': "set_hook Dump (\<lambda>h. h\<lparr>to_unmap := 0\<rparr>) t = t" if "hookof Dump t = d" for t
    using that tu by (simp add: set_hook_def upd_dbi_def hookof_def)
  have 1: "write_bytes (mem s) (jmp r) (take (hook_len r) (orig_bytes r)) = m1"
    unfolding ms or' using wf by (simp add: write_write_same write_read_same)
  have 2: "write_bytes m1 (jmp d) (take (hook_len d) (orig_bytes d)) = m"
    unfolding m1_def od using wf by (simp add: write_write_same write_read_same)
  obtain tr where u1: "undo_hook K Restore s = Inr ((), s\<lparr>mem := m1, ktrace := ktrace s @ tr\<rparr>)"
    using undo_hook_writes [OF K _ refl, of Restore] wf 1 by (auto simp: r_def)
  let ?t = "s\<lparr>mem := m1, ktrace := ktrace s @ tr\<rparr>"
  obtain tr2 where u2: "undo_hook K Dump ?t = Inr ((), ?t\<lparr>mem := m, ktrace := ktrace ?t @ tr2\<rparr>)"
    using undo_hook_writes [OF _ _ refl, of K Dump ?t] K [of Dump] wf 2 by (auto simp: d_def)
  have "set_hook Restore (\<lambda>h. h\<lparr>to_unmap := 0\<rparr>) ?t = ?t" by (rule same) (simp add: r_def)
  moreover have "set_hook Dump (\<lambda>h. h\<lparr>to_unmap := 0\<rparr>) (?t\<lparr>mem := m, ktrace := ktrace ?t @ tr2\<rparr>)
      = ?t\<lparr>mem := m, ktrace := ktrace ?t @ tr2\<rparr>" by (rule same') (simp add: d_def)
  ultimately show ?thesis using u1 u2 by (intro exI [of _ "tr @ tr2"]) simp
qed

section \<open>Framing a block\<close>

lemma cflow_loop_frame: "cflow_loop fuel dis sz a buf n beg s = Inr (r, s') \<Longrightarrow> scan_frame s s'"
proof (induction fuel arbitrary: a buf n beg s)
  case (Suc fuel)
  show ?case
    using Suc.prems by (auto simp: Let_def split: if_splits option.splits dest!: Suc.IH)
qed simp

lemma mem_read_page:
  assumes "steady K"
  obtains r b tr where "mem_read K (replicate 4096 0) a PAGE_SZ s = Inr ((r, b), s\<lparr>ktrace := ktrace s @ tr\<rparr>)"
  using gm.rd_returns [OF assms, of PAGE_SZ "replicate 4096 0" a s] by auto

lemma mem_read_insn:
  assumes "steady K"
  obtains r b tr where "mem_read K (replicate 16 0) a 16 s = Inr ((r, b), s\<lparr>ktrace := ktrace s @ tr\<rparr>)"
  using gm.rd_returns [OF assms, of 16 "replicate 16 0" a s] by auto

lemma opcodes_cflow_frame:
  assumes K: "steady K"
  shows "opcodes_cflow fuel K dis a beg s = Inr (r, s') \<Longrightarrow> scan_frame s s'"
proof (induction fuel arbitrary: a beg s r s')
  case (Suc fuel)
  obtain x b tr where "mem_read K (replicate 4096 0) a PAGE_SZ s = Inr ((x, b), s\<lparr>ktrace := ktrace s @ tr\<rparr>)"
    by (rule mem_read_page [OF K])
  with Suc.prems obtain res s1 where
    loop: "cflow_loop 4097 dis (scast x) a b 0 beg (s\<lparr>ktrace := ktrace s @ tr\<rparr>) = Inr (res, s1)"
    and k: "(case res of Inl n \<Rightarrow> retR n s1
      | Inr n \<Rightarrow> if is_mapped (a + scast n) s1 \<and> n \<noteq> 0
             then bindR (opcodes_cflow fuel K dis (a + scast n) True s1) (\<lambda>r s. retR (n + r) s)
             else fatal_dump K s1) = Inr (r, s')"
    by (auto simp: is_mapped_def elim: bindR_InrE split: if_splits)
  have "scan_frame s s1" using cflow_loop_frame [OF loop] by simp
  moreover have "scan_frame s1 s'"
    using k by (cases res) (auto simp: bindR_eq_Inr dest: Suc.IH split: if_splits)
  ultimately show ?case by (rule scan_frame_trans)
qed simp

lemma insn_len_frame:
  assumes K: "steady K" and r: "insn_len K dis a s = Inr (l, s')"
  shows "\<exists>tr. s' = s\<lparr>ktrace := ktrace s @ tr\<rparr>"
proof -
  obtain x b tr where "mem_read K (replicate 16 0) a 16 s = Inr ((x, b), s\<lparr>ktrace := ktrace s @ tr\<rparr>)"
    by (rule mem_read_insn [OF K])
  with r show ?thesis by (auto simp: insn_len_def split: option.splits if_splits)
qed

lemma instrument_request_frames:
  assumes K: "steady K" "ready K (bbl + scast r) (Suc (hook_len (hookof Dump s)))"
      "ready K (bbl - hlength (hookof Restore s)) (Suc (hook_len (hookof Restore s)))" and wf: "hook_wf (hookof Dump s)" "hook_wf (hookof Restore s)"
    and scan: "opcodes_cflow fuel K dis bbl True s = Inr (r, s1)" "scan_frame s s1" "(scast r :: u64) \<noteq> -1"
    and len: "insn_len K dis (bbl + scast r) (set_hook Dump (\<lambda>h. h\<lparr>jmp := bbl + scast r\<rparr>) s1) = Inr (l, s2)"
  shows "\<exists>s'. instrument_request fuel K dis bbl s = Inr (0, s') \<and> eng_frame s s' \<and>
     (bbl \<noteq> hlength (hookof Restore s) \<longrightarrow> patched (mem s) s') \<and>
     jmp (hookof Dump s') = bbl + scast r \<and> jmp (hookof Restore s') = bbl - hlength (hookof Restore s) \<and>
     curr_hook (dbi s') = bbl + scast r \<and> length_cflow (dbi s') = l \<and> curr_syscall s' = curr_syscall s1"
proof -
  let ?a = "bbl + scast r"
  define t1 where "t1 = set_hook Dump (\<lambda>h. h\<lparr>jmp := ?a\<rparr>) s1"
  from insn_len_frame [OF K(1) len] obtain tr where s2: "s2 = t1\<lparr>ktrace := ktrace t1 @ tr\<rparr>" by (auto simp: t1_def)
  define t2 where "t2 = upd_dbi (\<lambda>d. d\<lparr>length_cflow := l\<rparr>) s2"
  note sf = scan_frame_dest [OF scan(2)]
  have m2: "mem t2 = mem s" and h2: "hookof Dump t2 = (hookof Dump s)\<lparr>jmp := ?a\<rparr>"
    "hookof Restore t2 = hookof Restore s"
    by (simp_all add: t2_def s2 t1_def sf)
  define d where "d = (hookof Dump s)\<lparr>jmp := ?a, orig_bytes :=
      read_bytes (mem s) ?a (hook_len (hookof Dump s)) @ drop (hook_len (hookof Dump s)) (orig_bytes (hookof Dump s))\<rparr>"
  have wfd: "hook_wf (hookof Dump t2)" using wf(1) h2 by (simp add: hook_wf_def)
  have cd: "hook_code (hookof Dump t2) = hook_code d" "hook_len (hookof Dump t2) = hook_len d" "hook_wf d"
    using wf(1) by (simp_all add: h2 d_def hook_code_def hook_len_def hook_wf_def)
  have rd: "ready K (jmp (hookof Dump t2)) (Suc (hook_len (hookof Dump t2)))" using K(2) by (simp add: h2 hook_len_def)
  obtain tr3 t3 where w3: "write_hook K Dump t2 = Inr (0, t3)" and
    t3: "t3 = (set_hook Dump (\<lambda>h. h\<lparr>orig_bytes := read_bytes (mem t2) (jmp h) (hook_len (hookof Dump t2)) @
        drop (hook_len (hookof Dump t2)) (orig_bytes h)\<rparr>) t2)
       \<lparr>mem := write_bytes (mem t2) (jmp (hookof Dump t2)) (hook_code (hookof Dump t2)), ktrace := ktrace t2 @ tr3\<rparr>"
    using write_hook_installs [OF rd wfd refl refl] by auto
  have bbl: "instrument_bbl fuel K dis Dump bbl s = Inr (scast r, t3)"
    using scan len w3 by (simp add: instrument_bbl_def Let_def t2_def retR_def)
  define r0 where "r0 = hookof Restore s"
  define t4 where "t4 = upd_dbi (\<lambda>d. d\<lparr>curr_hook := jmp (dump d)\<rparr>)
     (set_hook Restore (\<lambda>h. h\<lparr>jmp := bbl - hlength h\<rparr>) (upd_dbi (\<lambda>d. d\<lparr>curr_hook := bbl + scast r\<rparr>) t3))"
  have h3: "hookof Dump t3 = d" "hookof Restore t3 = r0"
    by (simp_all add: t3 h2 d_def r0_def m2 hook_len_def)
  have h4: "hookof Dump t4 = d" "hookof Restore t4 = r0\<lparr>jmp := bbl - hlength r0\<rparr>"
    by (simp_all add: t4_def h3)
  have m4: "mem t4 = write_bytes (mem s) ?a (hook_code d)" by (simp add: t4_def t3 m2 h2 cd [simplified h2])
  have wfr: "hook_wf (hookof Restore t4)" using wf(2) by (simp add: h4 hook_wf_def r0_def)
  have rr: "ready K (jmp (hookof Restore t4)) (Suc (hook_len (hookof Restore t4)))" using K(3) by (simp add: h4 r0_def hook_len_def)
  obtain tr5 t5 where w5: "write_hook K Restore t4 = Inr (0, t5)" and
    t5: "t5 = (set_hook Restore (\<lambda>h. h\<lparr>orig_bytes := read_bytes (mem t4) (jmp h) (hook_len (hookof Restore t4)) @
        drop (hook_len (hookof Restore t4)) (orig_bytes h)\<rparr>) t4)
       \<lparr>mem := write_bytes (mem t4) (jmp (hookof Restore t4)) (hook_code (hookof Restore t4)), ktrace := ktrace t4 @ tr5\<rparr>"
    using write_hook_installs [OF rr wfr refl refl] by auto
  have run: "instrument_request fuel K dis bbl s = Inr (0, t5)"
    using bbl w5 by (simp add: instrument_request_def Let_def t4_def retR_def)
  have "bbl \<noteq> hlength (hookof Restore s) \<longrightarrow> patched (mem s) t5"
    unfolding patched_def Let_def
    using wf(2) wfr cd(3)
    by (simp add: t5 h4 m4 d_def r0_def hook_wf_def hook_len_def hook_code_def)
  moreover have "eng_frame s t5"
    using scan_frame_eng [OF scan(2)] by (simp add: t5 t4_def t3 t2_def s2 t1_def)
  moreover have "curr_hook (dbi t5) = jmp d" by (simp add: t5 t4_def h3 [unfolded hookof_dump] set_hook_def)
  moreover have "length_cflow (dbi t5) = l" "curr_syscall t5 = curr_syscall s1"
    by (simp_all add: t5 t4_def t3 t2_def s2 t1_def set_hook_def)
  ultimately show ?thesis using run by (simp add: t5 h4 d_def r0_def)
qed

text \<open>Framing that returns has found the pages of both hooks admitted.\<close>

lemma instrument_request_ready:
  assumes K: "steady K" and wf: "hook_wf (hookof Dump s)" "hook_wf (hookof Restore s)" and run: "instrument_request fuel K dis bbl s = Inr (x, v)"
  shows "\<exists>r s1 l s2. opcodes_cflow fuel K dis bbl True s = Inr (r, s1) \<and> (scast r :: u64) \<noteq> -1 \<and>
     insn_len K dis (bbl + scast r) (set_hook Dump (\<lambda>h. h\<lparr>jmp := bbl + scast r\<rparr>) s1) = Inr (l, s2) \<and>
     ready K (bbl + scast r) (Suc (hook_len (hookof Dump s))) \<and> ready K (bbl - hlength (hookof Restore s)) (Suc (hook_len (hookof Restore s)))"
proof -
  obtain r s1 l s2 y t3 where sc: "opcodes_cflow fuel K dis bbl True s = Inr (r, s1)" "(scast r :: u64) \<noteq> -1"
    and len: "insn_len K dis (bbl + scast r) (set_hook Dump (\<lambda>h. h\<lparr>jmp := bbl + scast r\<rparr>) s1) = Inr (l, s2)"
    and w3: "write_hook K Dump (upd_dbi (\<lambda>d. d\<lparr>length_cflow := l\<rparr>) s2) = Inr (y, t3)"
    and w4: "\<exists>z. write_hook K Restore (upd_dbi (\<lambda>d. d\<lparr>curr_hook := jmp (dump d)\<rparr>)
     (set_hook Restore (\<lambda>h. h\<lparr>jmp := bbl - hlength h\<rparr>) (upd_dbi (\<lambda>d. d\<lparr>curr_hook := bbl + scast r\<rparr>) t3))) = Inr z"
    using run by (auto simp: instrument_request_def instrument_bbl_def bindR_eq_Inr Let_def split: if_splits)
  define t2 where "t2 = upd_dbi (\<lambda>d. d\<lparr>length_cflow := l\<rparr>) s2"
  obtain tr where s2: "s2 = (set_hook Dump (\<lambda>h. h\<lparr>jmp := bbl + scast r\<rparr>) s1)\<lparr>ktrace := tr\<rparr>" using insn_len_frame [OF K len] by auto
  have h2: "hookof Dump t2 = (hookof Dump s)\<lparr>jmp := bbl + scast r\<rparr>" "hookof Restore t2 = hookof Restore s"
    by (simp_all add: t2_def s2 scan_frame_dest [OF opcodes_cflow_frame [OF K sc(1)]])
  have wf2: "hook_wf (hookof Dump t2)" using wf(1) by (simp add: h2 hook_wf_def)
  note rd = write_hook_ready [OF K wf2 w3 [folded t2_def]]
  from write_hook_installs [OF rd wf2 refl refl] w3 have h3: "hookof Restore t3 = hookof Restore s" by (auto simp: t2_def [symmetric] h2)
  obtain z where "write_hook K Restore (upd_dbi (\<lambda>d. d\<lparr>curr_hook := jmp (dump d)\<rparr>)
     (set_hook Restore (\<lambda>h. h\<lparr>jmp := bbl - hlength h\<rparr>) (upd_dbi (\<lambda>d. d\<lparr>curr_hook := bbl + scast r\<rparr>) t3))) = Inr z"
    using w4 by blast
  from write_hook_ready [OF K _ this] have "ready K (bbl - hlength (hookof Restore s)) (Suc (hook_len (hookof Restore s)))"
    using wf(2) by (simp add: h3 hook_wf_def hook_len_def)
  moreover have "ready K (bbl + scast r) (Suc (hook_len (hookof Dump s)))" using rd by (simp add: h2 hook_len_def)
  ultimately show ?thesis using sc len by blast
qed

section \<open>Branches keep the hooks\<close>

definition br_erase :: "mach \<Rightarrow> mach" where
  "br_erase s = (upd_dbi (\<lambda>d. d\<lparr>state := calloc_state, instrumented_fs := 0, instrumented_gs := 0,
       vbrk := 0, cps_count := 0\<rparr>) s)
     \<lparr>mem := (\<lambda>_. 0), ktrace := [], must_change := False, curr_syscall := False\<rparr>"

definition br_frame :: "mach \<Rightarrow> mach \<Rightarrow> bool" where
  "br_frame s s' \<longleftrightarrow> br_erase s' = br_erase s"

lemma br_frame_refl [simp, intro]: "br_frame s s"
  by (simp add: br_frame_def)

lemma br_frame_trans [trans]: "br_frame s t \<Longrightarrow> br_frame t u \<Longrightarrow> br_frame s u"
  by (simp add: br_frame_def)

lemma br_erase_updates [simp]:
  "br_erase (t\<lparr>mem := m\<rparr>) = br_erase t" "br_erase (t\<lparr>ktrace := tr\<rparr>) = br_erase t"
  "br_erase (t\<lparr>curr_syscall := c\<rparr>) = br_erase t" "br_erase (upd_guest g t) = br_erase t"
  "br_erase (upd_dbi (\<lambda>d. d\<lparr>cps_count := f d\<rparr>) t) = br_erase t"
  "br_erase (upd_dbi (\<lambda>d. d\<lparr>instrumented_fs := f d, instrumented_gs := h d\<rparr>) t) = br_erase t"
  by (simp_all add: br_erase_def upd_dbi_def upd_guest_def)

lemma sys_frame_br: "sys_frame s s' \<Longrightarrow> br_frame s s'"
proof -
  have "br_erase (sys_erase t) = br_erase t" for t
    by (simp add: sys_erase_def br_erase_def upd_dbi_def)
  then show "sys_frame s s' \<Longrightarrow> br_frame s s'" by (metis sys_frame_def br_frame_def)
qed

lemma br_frame_dest:
  assumes "br_frame s s'"
  shows "hookof w s' = hookof w s" "curr_hook (dbi s') = curr_hook (dbi s)"
    "hashmap (dbi s') = hashmap (dbi s)" "host_state (dbi s') = host_state (dbi s)"
    "take_callback (dbi s') = take_callback (dbi s)" "restore_stub (dbi s') = restore_stub (dbi s)"
proof -
  have e: "hookof w (br_erase t) = hookof w t" "curr_hook (dbi (br_erase t)) = curr_hook (dbi t)"
    "hashmap (dbi (br_erase t)) = hashmap (dbi t)" "host_state (dbi (br_erase t)) = host_state (dbi t)"
    "take_callback (dbi (br_erase t)) = take_callback (dbi t)"
    "restore_stub (dbi (br_erase t)) = restore_stub (dbi t)" for t
    by (cases w; simp add: br_erase_def hookof_def)+
  have eq: "br_erase s' = br_erase s" using assms by (simp add: br_frame_def)
  show "hookof w s' = hookof w s" "curr_hook (dbi s') = curr_hook (dbi s)"
    "hashmap (dbi s') = hashmap (dbi s)" "host_state (dbi s') = host_state (dbi s)"
    "take_callback (dbi s') = take_callback (dbi s)" "restore_stub (dbi s') = restore_stub (dbi s)"
    using e [of s] e [of s'] unfolding eq by auto
qed

lemma reg_val_same: "reg_val k s = Inr (v, s') \<Longrightarrow> s' = s"
  by (auto simp: reg_val_def split: option.splits)

lemma mem_operand_same: "mem_operand b ix sc disp sz s = Inr (v, s') \<Longrightarrow> s' = s"
  by (auto simp: mem_operand_def bindR_eq_Inr Let_def split: if_splits dest!: reg_val_same)

lemma is_set_same: "is_set K f s = Inr (b, s') \<Longrightarrow> s' = s"
  by (auto simp: is_set_def bindR_eq_Inr split: if_splits dest!: reg_val_same)

lemma not_set_same: "not_set K f s = Inr (b, s') \<Longrightarrow> s' = s"
  by (auto simp: not_set_def bindR_eq_Inr dest!: is_set_same)

lemma sf_eq_of_same: "sf_eq_of K s = Inr (b, s') \<Longrightarrow> s' = s"
  by (auto simp: sf_eq_of_def bindR_eq_Inr dest!: is_set_same)

lemma is_jmp_taken_same: "is_jmp_taken K i s = Inr (b, s') \<Longrightarrow> s' = s"
  by (cases i)
    (auto simp: bindR_eq_Inr split: if_splits dest!: is_set_same not_set_same sf_eq_of_same reg_val_same)

lemma eval_operand_frame:
  assumes "(case opd of X86_OP_REG r \<Rightarrow> reg_val r s | X86_OP_IMM v \<Rightarrow> retR (v + rip (guest s)) s
     | X86_OP_MEM b ix sc disp \<Rightarrow> mem_operand b ix sc disp sz s | X86_OP_INVALID \<Rightarrow> retR (-1) s) = Inr (v, s')"
  shows "s' = s"
  using assms by (cases opd) (auto dest: reg_val_same mem_operand_same)

lemma eval_syscall_frame:
  assumes h: "get_syscall_hook n = Some h"
    and r: "bindR (set_fs_gs K f g s) (\<lambda>_ s. bindR (h K s) (\<lambda>ret s.
       bindR (set_fs_gs K (fs (host_state (dbi s))) (gs (host_state (dbi s))) s) (\<lambda>r s.
         if r \<noteq> 0 then fatal_dump K s else if ret \<noteq> 0 then retR ret s else retR x s))) = Inr (v, s')"
  shows "sys_frame s s'"
proof -
  obtain a s1 b s2 c s3 where 1: "set_fs_gs K f g s = Inr (a, s1)" "h K s1 = Inr (b, s2)"
    "set_fs_gs K (fs (host_state (dbi s2))) (gs (host_state (dbi s2))) s2 = Inr (c, s3)"
    and 2: "(if c \<noteq> 0 then fatal_dump K s3 else if b \<noteq> 0 then retR b s3 else retR x s3) = Inr (v, s')"
    using r by (elim bindR_InrE) blast
  from 2 have "s3 = s'" by (auto split: if_splits)
  with set_fs_gs_frame [OF 1(1)] sysd.handler_frame [OF h 1(2)] set_fs_gs_frame [OF 1(3)]
  show ?thesis by (meson sys_frame_trans)
qed

lemma eval_branch_frame:
  assumes "bindR (if call then retR True s else is_jmp_taken K (insn_id i) s) (\<lambda>taken s.
         if taken then
           let s = (if call
                    then let s = upd_guest (\<lambda>st. st\<lparr>rsp := rsp st - 8\<rparr>) s
                         in s\<lparr>mem := write64 (mem s) (rsp (guest s)) (rip (guest s) + of_nat (insn_size i))\<rparr>
                    else s)
           in (case operand0 i of
                 X86_OP_REG r \<Rightarrow> reg_val r s
               | X86_OP_IMM v \<Rightarrow> retR (v + rip (guest s)) s
               | X86_OP_MEM b ix sc disp \<Rightarrow> mem_operand b ix sc disp (insn_size i) s
               | X86_OP_INVALID \<Rightarrow> retR (-1) s)
         else retR (a + of_nat (insn_size i)) s) = Inr (v, s')"
  shows "br_frame s s'"
  using assms
  by (auto simp: bindR_eq_Inr Let_def br_frame_def split: if_splits dest!: is_jmp_taken_same eval_operand_frame)

lemma eval_target_groups_frame:
  "eval_target_groups K i a grps s = Inr (v, s') \<Longrightarrow> br_frame s s'"
proof (induction grps)
  case (Cons g rest)
  consider (branch) "g = X86_GRP_JUMP \<or> g = X86_GRP_BRANCH_RELATIVE \<or> is_call g"
    | (ret) "\<not> (g = X86_GRP_JUMP \<or> g = X86_GRP_BRANCH_RELATIVE \<or> is_call g)" "is_ret g"
    | (sys) "\<not> (g = X86_GRP_JUMP \<or> g = X86_GRP_BRANCH_RELATIVE \<or> is_call g)" "\<not> is_ret g" "is_syscall g"
    | (other) "\<not> (g = X86_GRP_JUMP \<or> g = X86_GRP_BRANCH_RELATIVE \<or> is_call g)" "\<not> is_ret g" "\<not> is_syscall g"
    by blast
  then show ?case
  proof cases
    case branch
    then show ?thesis using Cons.prems by (intro eval_branch_frame [where call = "is_call g" and i = i and a = a and K = K]) simp
  next
    case ret
    with Cons.prems show ?thesis
      by (auto simp: Let_def bindR_eq_Inr br_frame_def dest!: reg_val_same)
  next
    case sys
    then show ?thesis
      using Cons.prems eval_syscall_frame [THEN sys_frame_br]
      by (cases "get_syscall_hook (ucast (rax (guest s)))") (auto simp: br_frame_def)
  next
    case other
    with Cons show ?thesis by simp
  qed
qed simp

lemma eval_target_frame:
  assumes K: "steady K" and r: "eval_target K dis a s = Inr (v, s')"
  shows "br_frame s s'"
proof -
  obtain x b tr where "mem_read K (replicate 16 0) a 16 s = Inr ((x, b), s\<lparr>ktrace := ktrace s @ tr\<rparr>)"
    by (rule mem_read_insn [OF K])
  with r show ?thesis
    by (auto simp: eval_target_def eval_target_insn_def br_frame_def split: option.splits if_splits
        dest!: eval_target_groups_frame)
qed

section \<open>One turn of the dispatcher\<close>

text \<open>The callback that \<^verbatim>\<open>src/main.c\<close> registers.\<close>

definition test_callback :: "mach \<Rightarrow> mach" where
  "test_callback s = s\<lparr>bbl_count := bbl_count s + 1\<rparr>"

text \<open>Documented behaviour of \<^verbatim>\<open>arch_prctl(2)\<close>: reading and setting the segment bases succeeds.\<close>

definition seg_ok :: "kernel \<Rightarrow> bool" where
  "seg_ok K \<longleftrightarrow> prctl_works K \<and>
     (\<forall>tr m. k_ret (K tr (K_syscall NR_arch_prctl [ARCH_GET_FS]) m) = 0 \<and>
             k_ret (K tr (K_syscall NR_arch_prctl [ARCH_GET_GS]) m) = 0)"

lemma save_fs_gs_works:
  assumes "seg_ok K"
  shows "\<exists>f g tr. save_fs_gs K s = Inr ((0, Some f, Some g), s\<lparr>ktrace := ktrace s @ tr\<rparr>)"
  using assms
  by (auto simp: save_fs_gs_def arch_prctl_get_def kern_def Let_def retR_def libc_ret_def seg_ok_def
      prctl_works_def prctl_keeps_bytes_def)

lemma patched_cong:
  assumes "patched m s" and "hookof Dump t = hookof Dump s" and "hookof Restore t = hookof Restore s"
    and "mem t = mem s"
  shows "patched m t"
  using assms by (simp add: patched_def)

text \<open>The emulation and the framing of the next block, what a turn does once both hooks are undone.\<close>

definition turn_on :: "nat \<Rightarrow> kernel \<Rightarrow> disassembler \<Rightarrow> mach \<Rightarrow> u64 run" where
  "turn_on fuel K dis t = bindR (get_bbl_base K dis t) (\<lambda>base_bbl s.
     if base_bbl = -1 then fatal_dump K s
     else bindR (instrument_request fuel K dis base_bbl s) (\<lambda>r s.
       if r = -1 then fatal_dump K s
       else continue_exec K (upd_guest (\<lambda>st. st\<lparr>rip := base_bbl - hlength (restore (dbi s))\<rparr>) s)))"

lemma dispatcher_enters:
  assumes S: "seg_ok K" and nz: "jmp (hookof Restore s) \<noteq> 0"
  shows "\<exists>t. br_frame (s\<lparr>bbl_count := (if take_callback (dbi s) then bbl_count s + 1 else bbl_count s)\<rparr>) t \<and>
     guest t = guest s \<and> mem t = mem s \<and> curr_syscall t = curr_syscall s \<and> (\<forall>w. hookof w t = hookof w s) \<and>
     dispatcher_fn fuel K dis test_callback s = bindR (undo_hook K Restore t) (\<lambda>_ s.
       bindR (undo_hook K Dump (set_hook Restore (\<lambda>h. h\<lparr>to_unmap := 0\<rparr>) s)) (\<lambda>_ s.
         turn_on fuel K dis (set_hook Dump (\<lambda>h. h\<lparr>to_unmap := 0\<rparr>) s)))"
proof -
  obtain f g tr where sv: "save_fs_gs K s = Inr ((0, Some f, Some g), s\<lparr>ktrace := ktrace s @ tr\<rparr>)"
    using save_fs_gs_works [OF S] by blast
  have P: "prctl_works K" using S by (simp add: seg_ok_def)
  define s1 where "s1 = upd_dbi (\<lambda>d. d\<lparr>instrumented_fs := f, instrumented_gs := g\<rparr>) (s\<lparr>ktrace := ktrace s @ tr\<rparr>)"
  define s2 where "s2 = s1\<lparr>ktrace := ktrace s1 @ seg_calls (fs (host_state (dbi s1))) (gs (host_state (dbi s1)))\<rparr>"
  define s3 where "s3 = (if take_callback (dbi s2) then test_callback s2 else s2)"
  have "hookof w s1 = hookof w s" for w by (cases w) (simp_all add: s1_def hookof_def)
  then have h: "hookof w s3 = hookof w s" for w by (simp add: s3_def s2_def test_callback_def)
  have "br_frame (s\<lparr>bbl_count := (if take_callback (dbi s) then bbl_count s + 1 else bbl_count s)\<rparr>) s3"
    by (simp add: s3_def s2_def s1_def test_callback_def br_frame_def br_erase_def upd_dbi_def)
  moreover have "guest s3 = guest s" "mem s3 = mem s" "curr_syscall s3 = curr_syscall s"
    by (simp_all add: s3_def s2_def s1_def test_callback_def)
  moreover have "dispatcher_fn fuel K dis test_callback s = bindR (undo_hook K Restore s3) (\<lambda>_ s.
       bindR (undo_hook K Dump (set_hook Restore (\<lambda>h. h\<lparr>to_unmap := 0\<rparr>) s)) (\<lambda>_ s.
         turn_on fuel K dis (set_hook Dump (\<lambda>h. h\<lparr>to_unmap := 0\<rparr>) s)))"
    unfolding dispatcher_fn_def sv bindR_Inr prod.case option.case Let_def s1_def [symmetric]
      set_fs_gs_works [OF P] s2_def [symmetric] s3_def [symmetric] turn_on_def
    using nz h [of Restore] by (simp add: s2_def [symmetric] s3_def [symmetric] hookof_restore)
  ultimately show ?thesis using h by (intro exI [of _ s3]) simp
qed

lemma dispatcher_restores:
  assumes K: "\<And>w. ready K (jmp (hookof w s)) (Suc (hook_len (hookof w s)))" and S: "seg_ok K" and p: "patched m s"
  shows "\<exists>t. br_frame (s\<lparr>bbl_count := (if take_callback (dbi s) then bbl_count s + 1 else bbl_count s)\<rparr>) t \<and>
     guest t = guest s \<and> mem t = m \<and> curr_syscall t = curr_syscall s \<and> dispatcher_fn fuel K dis test_callback s = turn_on fuel K dis t"
proof -
  have nz: "jmp (hookof Restore s) \<noteq> 0" using p by (simp add: patched_def Let_def)
  obtain s3 where s3: "br_frame (s\<lparr>bbl_count := (if take_callback (dbi s) then bbl_count s + 1 else bbl_count s)\<rparr>) s3"
      "guest s3 = guest s" "mem s3 = mem s" "curr_syscall s3 = curr_syscall s" "\<forall>w. hookof w s3 = hookof w s"
    and run: "dispatcher_fn fuel K dis test_callback s = bindR (undo_hook K Restore s3) (\<lambda>_ s.
       bindR (undo_hook K Dump (set_hook Restore (\<lambda>h. h\<lparr>to_unmap := 0\<rparr>) s)) (\<lambda>_ s.
         turn_on fuel K dis (set_hook Dump (\<lambda>h. h\<lparr>to_unmap := 0\<rparr>) s)))"
    using dispatcher_enters [OF S nz, of fuel dis] by (elim exE conjE)
  have "patched m s3" using p by (rule patched_cong) (simp_all add: s3)
  moreover have "ready K (jmp (hookof w s3)) (Suc (hook_len (hookof w s3)))" for w using K [of w] s3(5) by simp
  ultimately obtain tr2 where u: "\<And>f. bindR (undo_hook K Restore s3) (\<lambda>_ s.
            bindR (undo_hook K Dump (set_hook Restore (\<lambda>h. h\<lparr>to_unmap := 0\<rparr>) s)) (\<lambda>_ s.
              f (set_hook Dump (\<lambda>h. h\<lparr>to_unmap := 0\<rparr>) s)))
       = (f (s3\<lparr>mem := m, ktrace := ktrace s3 @ tr2\<rparr>) :: u64 run)"
    using undo_both_uniform [of K s3 m] by blast
  show ?thesis
    unfolding run u [of "turn_on fuel K dis"] using s3 by (intro exI [of _ "s3\<lparr>mem := m, ktrace := ktrace s3 @ tr2\<rparr>"]) (simp add: br_frame_def)
qed

text \<open>A turn that cannot write its hooks back ends the process.\<close>

lemma dispatcher_refused:
  assumes K: "steady K" and S: "seg_ok K" and p: "patched m s" and no: "\<not> ready K (jmp (hookof w s)) (Suc (hook_len (hookof w s)))"
  shows "\<exists>c s'. dispatcher_fn fuel K dis test_callback s = Inl (Exit c, s')"
proof -
  have wf: "hook_wf (hookof w s)" for w using p by (cases w) (simp_all add: patched_def Let_def)
  have nz: "jmp (hookof Restore s) \<noteq> 0" using p by (simp add: patched_def Let_def)
  obtain t where h: "\<forall>w. hookof w t = hookof w s"
    and run: "dispatcher_fn fuel K dis test_callback s = bindR (undo_hook K Restore t) (\<lambda>_ s.
       bindR (undo_hook K Dump (set_hook Restore (\<lambda>h. h\<lparr>to_unmap := 0\<rparr>) s)) (\<lambda>_ s.
         turn_on fuel K dis (set_hook Dump (\<lambda>h. h\<lparr>to_unmap := 0\<rparr>) s)))"
    using dispatcher_enters [OF S nz, of fuel dis] by (elim exE conjE)
  show ?thesis
  proof (cases "ready K (jmp (hookof Restore t)) (Suc (hook_len (hookof Restore t)))")
    case False
    then obtain c s' where "undo_hook K Restore t = Inl (Exit c, s')" using undo_hook_refused [OF K, of Restore t] wf h by auto
    then show ?thesis unfolding run by simp
  next
    case True
    then obtain t' where u: "undo_hook K Restore t = Inr ((), t')" and h': "hookof Dump t' = hookof Dump s"
      using undo_hook_writes [OF True _ refl] wf h by auto
    have "w = Dump" using no True h by (cases w) auto
    then obtain c s' where "undo_hook K Dump (set_hook Restore (\<lambda>h. h\<lparr>to_unmap := 0\<rparr>) t') = Inl (Exit c, s')"
      using undo_hook_refused [OF K, of Dump "set_hook Restore (\<lambda>h. h\<lparr>to_unmap := 0\<rparr>) t'"] no wf h' by auto
    then show ?thesis unfolding run using u by simp
  qed
qed

lemma cflow_at_found:
  "cflow_at dis m a n \<Longrightarrow> \<exists>i. decode dis m (a + of_nat n) = Some i \<and> list_ex is_cflow (groups i)"
  by (induction rule: cflow_at.induct) (auto simp: add.assoc)

lemma continue_exec_jumps:
  assumes "prctl_works K"
  shows "continue_exec K s = Inr (restore_stub (dbi s),
     s\<lparr>ktrace := ktrace s @ seg_calls (instrumented_fs (dbi s)) (instrumented_gs (dbi s))\<rparr>)"
  by (simp add: continue_exec_def set_fs_gs_works [OF assms] retR_def)

text \<open>
  The effect of the control-flow instruction at \<open>p\<close> on a guest with registers \<open>st\<close> and memory \<open>m\<close>,
  independent of the rest of the process: the next block, registers and memory.
\<close>

definition branches :: "kernel \<Rightarrow> disassembler \<Rightarrow> u64 \<Rightarrow> state_rtime_t \<Rightarrow> memory \<Rightarrow> u64 \<Rightarrow> state_rtime_t \<Rightarrow> memory \<Rightarrow> bool" where
  "branches K dis p st m bbl st' m' \<longleftrightarrow>
     (\<forall>s. guest s = st \<and> mem s = m \<and> hashmap (dbi s) = init_hashmap \<and> \<not> curr_syscall s \<longrightarrow>
        (\<exists>s'. eval_target K dis p s = Inr (bbl, s') \<and> guest s' = st' \<and> mem s' = m' \<and> \<not> curr_syscall s'))"

lemma instrument_request_total:
  assumes K: "grants K" and dis: "disasm_ok dis" and wf: "hook_wf (hookof Dump s)" "hook_wf (hookof Restore s)"
    and sw: "cflow_at dis (mem s) bbl off" "\<not> curr_syscall s" and off: "off < fuel" "off < 2 ^ 31"
    and nz: "bbl \<noteq> hlength (hookof Restore s)"
  shows "\<exists>s'. instrument_request fuel K dis bbl s = Inr (0, s') \<and> patched (mem s) s' \<and> eng_frame s s' \<and>
     jmp (hookof Dump s') = bbl + of_nat off \<and> jmp (hookof Restore s') = bbl - hlength (hookof Restore s) \<and>
     curr_hook (dbi s') = bbl + of_nat off \<and> \<not> curr_syscall s'"
proof -
  have "sweep dis (mem s) bbl (True \<and> curr_syscall s) off" using sw by (simp add: sweep_def)
  from opcodes_cflow_sweeps [OF K dis this off(1)] obtain s1 where
    s1: "opcodes_cflow fuel K dis bbl True s = Inr (of_nat off, s1)" "scan_frame s s1" "\<not> curr_syscall s1"
    by auto
  have sc: "(scast (of_nat off :: i32) :: u64) = of_nat off" by (rule scast_of_nat [OF off(2)])
  have nm: "(of_nat off :: u64) \<noteq> -1"
  proof
    assume "(of_nat off :: u64) = -1"
    then have "unat (of_nat off :: u64) = unat (-1 :: u64)" by simp
    also have "unat (-1 :: u64) = 2 ^ 64 - 1" by (simp only: unsigned_minus_1_eq_mask mask_eq_exp_minus_1) simp
    finally show False using off(2) by (simp add: unat_of_nat_64)
  qed
  let ?t = "set_hook Dump (\<lambda>h. h\<lparr>jmp := bbl + of_nat off\<rparr>) s1"
  obtain i where "decode dis (mem s) (bbl + of_nat off) = Some i" using cflow_at_found [OF sw(1)] by blast
  then have "decode dis (mem ?t) (bbl + of_nat off) = Some i" using scan_frame_dest(2) [OF s1(2)] by simp
  from insn_len_decodes [OF K this] obtain l s2 where len: "insn_len K dis (bbl + of_nat off) ?t = Inr (l, s2)"
    by blast
  from instrument_request_frames [OF grants_ready(1) [OF K] _ _ wf s1(1,2), unfolded sc, OF _ _ nm len] grants_ready(2) [OF K] nz s1(3) show ?thesis by blast
qed

lemma br_frame_same_hooks: "br_frame s t \<Longrightarrow> hookof w t = hookof w s"
  by (rule br_frame_dest(1))

lemma dispatcher_turn:
  assumes K: "grants K" and S: "seg_ok K" and dis: "disasm_ok dis" and p: "patched m s"
    and h: "hashmap (dbi s) = init_hashmap" and c: "\<not> curr_syscall s"
    and br: "branches K dis (curr_hook (dbi s)) (guest s) m bbl st' m'"
    and at: "cflow_at dis m' bbl off" and off: "off < fuel" "off < 2 ^ 31"
    and nz: "bbl \<noteq> -1" "bbl \<noteq> hlength (hookof Restore s)"
  shows "\<exists>s'. dispatcher_fn fuel K dis test_callback s = Inr (restore_stub (dbi s), s') \<and> patched m' s' \<and>
     jmp (hookof Dump s') = bbl + of_nat off \<and> curr_hook (dbi s') = bbl + of_nat off \<and>
     jmp (hookof Restore s') = bbl - hlength (hookof Restore s) \<and>
     guest s' = st'\<lparr>rip := bbl - hlength (hookof Restore s)\<rparr> \<and>
     hashmap (dbi s') = init_hashmap \<and> \<not> curr_syscall s' \<and>
     (\<forall>w. hlength (hookof w s') = hlength (hookof w s) \<and> hook_len (hookof w s') = hook_len (hookof w s))"
proof -
  let ?b = "s\<lparr>bbl_count := (if take_callback (dbi s) then bbl_count s + 1 else bbl_count s)\<rparr>"
  have P: "prctl_works K" using S by (simp add: seg_ok_def)
  obtain t where t: "br_frame ?b t" "guest t = guest s" "mem t = m" "curr_syscall t = curr_syscall s"
    and run: "dispatcher_fn fuel K dis test_callback s = turn_on fuel K dis t"
    using dispatcher_restores [OF grants_ready(2) [OF K] S p] by blast
  note tf = br_frame_dest [OF t(1)]
  obtain u where u: "eval_target K dis (curr_hook (dbi s)) t = Inr (bbl, u)" "guest u = st'" "mem u = m'" "\<not> curr_syscall u"
    using br t tf h c unfolding branches_def by auto
  note uf = br_frame_dest [OF eval_target_frame [OF grants_ready(1) [OF K] u(1)]]
  have hu: "hookof w u = hookof w s" for w using uf(1) [of w] tf(1) [of w] by simp
  have wf: "hook_wf (hookof Dump u)" "hook_wf (hookof Restore u)"
    using p by (simp_all add: hu patched_def Let_def)
  obtain v where v: "instrument_request fuel K dis bbl u = Inr (0, v)" "patched m' v" "eng_frame u v"
    "jmp (hookof Dump v) = bbl + of_nat off" "jmp (hookof Restore v) = bbl - hlength (hookof Restore u)"
    "curr_hook (dbi v) = bbl + of_nat off" "\<not> curr_syscall v"
    using instrument_request_total [OF K dis wf _ u(4) off, of bbl] at nz(2) u(3) hu by auto
  note vf = eng_frame_dest [OF v(3)]
  have hv: "hlength (hookof w v) = hlength (hookof w s)" "hook_len (hookof w v) = hook_len (hookof w s)" for w
    using hook_erase_code(2,4) [OF vf(6), of w] hu [of w] by simp_all
  have hl: "hlength (restore (dbi v)) = hlength (hookof Restore s)"
    using hv(1) [of Restore] by (simp add: hookof_restore)
  define x where "x = upd_guest (\<lambda>st. st\<lparr>rip := bbl - hlength (hookof Restore s)\<rparr>) v"
  have rs: "restore_stub (dbi x) = restore_stub (dbi s)" using vf(5) uf(6) tf(6) by (simp add: x_def)
  have "dispatcher_fn fuel K dis test_callback s = continue_exec K x"
    using run u(1) v(1) nz(1) tf(2) by (simp add: turn_on_def get_bbl_base_def br_emulation_def retR_def hl x_def)
  also have "\<dots> = Inr (restore_stub (dbi s),
     x\<lparr>ktrace := ktrace x @ seg_calls (instrumented_fs (dbi x)) (instrumented_gs (dbi x))\<rparr>)"
    unfolding continue_exec_jumps [OF P] rs ..
  finally show ?thesis
    using v hu [of Restore] u(2) vf(1,2) uf(3) tf(3) h hv
    by (auto simp: x_def intro: patched_cong [OF v(2)])
qed

text \<open>
  What a turn of the dispatcher does to the guest: on a state whose memory is the image, the control-flow
  instruction is emulated, and the image that results is what the next hooks are written over.
\<close>

lemma dispatcher_emulates:
  assumes K: "steady K" and S: "seg_ok K" and p: "patched m s"
    and r: "dispatcher_fn fuel K dis test_callback s = Inr (a, s')" and nz: "jmp (hookof Restore s') \<noteq> 0"
  shows "\<exists>t bbl u. guest t = guest s \<and> mem t = m \<and> hashmap (dbi t) = hashmap (dbi s) \<and> eval_target K dis (curr_hook (dbi s)) t = Inr (bbl, u) \<and>
     patched (mem u) s' \<and> guest s' = (guest u)\<lparr>rip := jmp (hookof Restore s')\<rparr> \<and>
     bbl = jmp (hookof Restore s') + hlength (hookof Restore s') \<and> hashmap (dbi s') = hashmap (dbi s) \<and>
     (\<forall>w. ready K (jmp (hookof w s')) (Suc (hook_len (hookof w s'))))"
proof -
  let ?b = "s\<lparr>bbl_count := (if take_callback (dbi s) then bbl_count s + 1 else bbl_count s)\<rparr>"
  have P: "prctl_works K" using S by (simp add: seg_ok_def)
  have rd: "ready K (jmp (hookof w s)) (Suc (hook_len (hookof w s)))" for w
    by (rule ccontr) (use dispatcher_refused [OF K S p, of w fuel dis] r in auto)
  obtain t where t: "br_frame ?b t" "guest t = guest s" "mem t = m" and eq: "dispatcher_fn fuel K dis test_callback s = turn_on fuel K dis t"
    using dispatcher_restores [OF rd S p] by blast
  note tf = br_frame_dest [OF t(1)]
  from r obtain bbl u v x where u: "eval_target K dis (curr_hook (dbi t)) t = Inr (bbl, u)"
    and v: "instrument_request fuel K dis bbl u = Inr (x, v)"
    and c: "continue_exec K (upd_guest (\<lambda>st. st\<lparr>rip := bbl - hlength (restore (dbi v))\<rparr>) v) = Inr (a, s')"
    unfolding eq by (auto simp: turn_on_def get_bbl_base_def br_emulation_def bindR_eq_Inr split: if_splits)
  have hu: "hookof w u = hookof w s" for w
    using br_frame_dest(1) [OF eval_target_frame [OF K u]] tf(1) by simp
  have wf: "hook_wf (hookof Dump u)" "hook_wf (hookof Restore u)"
    using p by (simp_all add: hu patched_def Let_def)
  obtain r0 s1 l s2 where sc: "opcodes_cflow fuel K dis bbl True u = Inr (r0, s1)" "(scast r0 :: u64) \<noteq> -1"
    and len: "insn_len K dis (bbl + scast r0) (set_hook Dump (\<lambda>h. h\<lparr>jmp := bbl + scast r0\<rparr>) s1) = Inr (l, s2)"
    and rd': "ready K (bbl + scast r0) (Suc (hook_len (hookof Dump u)))" "ready K (bbl - hlength (hookof Restore u)) (Suc (hook_len (hookof Restore u)))"
    using instrument_request_ready [OF K wf v] by blast
  have s': "hookof w s' = hookof w v" "mem s' = mem v" "guest s' = (guest v)\<lparr>rip := bbl - hlength (hookof Restore v)\<rparr>" for w
    using c by (auto simp: continue_exec_jumps [OF P] hookof_restore)
  from instrument_request_frames [OF K rd' wf sc(1) opcodes_cflow_frame [OF K sc(1)] sc(2) len] v
  have pv: "bbl \<noteq> hlength (hookof Restore u) \<longrightarrow> patched (mem u) v" and fv: "eng_frame u v"
    and jv: "jmp (hookof Restore v) = bbl - hlength (hookof Restore u)" and jd: "jmp (hookof Dump v) = bbl + scast r0" by auto
  have hl: "hlength (hookof Restore v) = hlength (hookof Restore u)" using hook_erase_code(2) [OF eng_frame_dest(6) [OF fv]] .
  have "patched (mem u) v" using pv jv nz s'(1) [of Restore] by auto
  then have "patched (mem u) s'" by (rule patched_cong) (simp_all add: s')
  moreover have "guest s' = (guest u)\<lparr>rip := jmp (hookof Restore s')\<rparr>" using s' jv hl eng_frame_dest(1) [OF fv] by simp
  moreover have "bbl = jmp (hookof Restore s') + hlength (hookof Restore s')" using s'(1) jv hl by simp
  moreover have "hashmap (dbi t) = hashmap (dbi s)" "curr_hook (dbi t) = curr_hook (dbi s)" using tf by simp_all
  moreover have "hashmap (dbi s') = hashmap (dbi s)"
    using c eng_frame_dest(2) [OF fv] br_frame_dest(3) [OF eval_target_frame [OF K u]] tf(3) by (auto simp: continue_exec_jumps [OF P])
  moreover have "ready K (jmp (hookof w s')) (Suc (hook_len (hookof w s')))" for w
    using rd' hook_erase_code(4) [OF eng_frame_dest(6) [OF fv], of w] by (cases w) (simp_all add: s' jv jd)
  ultimately show ?thesis using u t(2,3) by metis
qed

section \<open>The guest between two turns\<close>

definition in_range :: "u64 \<Rightarrow> nat \<Rightarrow> u64 \<Rightarrow> bool" where
  "in_range a n x \<longleftrightarrow> unat (x - a) < n"

definition in_hooks :: "mach \<Rightarrow> u64 \<Rightarrow> bool" where
  "in_hooks s x \<longleftrightarrow> (\<exists>w. in_range (jmp (hookof w s)) (hook_len (hookof w s)) x)"

lemma read_bytes_cong:
  assumes "\<And>x. in_range a n x \<Longrightarrow> m x = m' x" and "n < 2 ^ 64"
  shows "read_bytes m a n = read_bytes m' a n"
proof (rule nth_equalityI)
  fix i assume "i < length (read_bytes m a n)"
  then have i: "i < n" by simp
  then have "in_range a n (a + of_nat i)" using assms(2) by (simp add: in_range_def unat_of_nat_64)
  with i assms(1) show "read_bytes m a n ! i = read_bytes m' a n ! i" by simp
qed simp

lemma write_bytes_in: "write_bytes m a bs x = (if in_range a (length bs) x then bs ! unat (x - a) else m x)"
  by (simp add: write_bytes_def in_range_def)

lemma hook_len_small: "hook_wf h \<Longrightarrow> hook_len h < 2 ^ 64"
  by (simp add: hook_wf_def hook_len_def)

text \<open>
  A guest that does not write to the two patched ranges changes the image outside them, and the
  patches stay what they are.
\<close>

lemma patched_guest_run:
  assumes p: "patched m s" and keep: "\<And>x. in_hooks s x \<Longrightarrow> m' x = mem s x"
  shows "patched (\<lambda>x. if in_hooks s x then m x else m' x) ((upd_guest (\<lambda>_. st) s)\<lparr>mem := m'\<rparr>)"
proof -
  define d where "d = hookof Dump s"
  define r where "r = hookof Restore s"
  let ?m = "\<lambda>x. if in_hooks s x then m x else m' x"
  have wf: "hook_wf d" "hook_wf r" and nz: "jmp r \<noteq> 0"
    and od: "take (hook_len d) (orig_bytes d) = read_bytes m (jmp d) (hook_len d)"
    and or': "take (hook_len r) (orig_bytes r) = read_bytes (write_bytes m (jmp d) (hook_code d)) (jmp r) (hook_len r)"
    and ms: "mem s = write_bytes (write_bytes m (jmp d) (hook_code d)) (jmp r) (hook_code r)"
    using p by (simp_all add: patched_def Let_def d_def r_def)
  have hd: "in_hooks s x" if "in_range (jmp d) (hook_len d) x" for x
    using that unfolding in_hooks_def d_def by blast
  have hr: "in_hooks s x" if "in_range (jmp r) (hook_len r) x" for x
    using that unfolding in_hooks_def r_def by blast
  have "read_bytes m (jmp d) (hook_len d) = read_bytes ?m (jmp d) (hook_len d)"
    using hook_len_small [OF wf(1)] by (intro read_bytes_cong) (simp_all add: hd)
  moreover have "read_bytes (write_bytes m (jmp d) (hook_code d)) (jmp r) (hook_len r)
     = read_bytes (write_bytes ?m (jmp d) (hook_code d)) (jmp r) (hook_len r)"
    using hook_len_small [OF wf(2)] by (intro read_bytes_cong) (simp_all add: hr write_bytes_in)
  moreover have "m' = write_bytes (write_bytes ?m (jmp d) (hook_code d)) (jmp r) (hook_code r)"
  proof
    fix x
    show "m' x = write_bytes (write_bytes ?m (jmp d) (hook_code d)) (jmp r) (hook_code r) x"
    proof (cases "in_hooks s x")
      case True
      then have "m' x = mem s x" by (rule keep)
      with True show ?thesis by (simp add: ms write_bytes_in)
    next
      case False
      with hd hr show ?thesis by (auto simp: write_bytes_in wf)
    qed
  qed
  ultimately show ?thesis
    using wf nz od or' by (simp add: patched_def Let_def d_def [symmetric] r_def [symmetric])
qed

text \<open>
  The events of a run: the guest executes, writing the bytes \<open>ws\<close> and leaving the registers \<open>st\<close> that the dump stub saves; or the
  dispatcher runs for the hook at \<open>p\<close>, finds that the guest goes on at \<open>bbl\<close> and resumes it at \<open>a\<close>.
\<close>

datatype event = Ran state_rtime_t "u64 \<rightharpoonup> u8" | Turned u64 u64 u64

definition overlay :: "memory \<Rightarrow> (u64 \<rightharpoonup> u8) \<Rightarrow> memory" where
  "overlay m ws x = (case ws x of None \<Rightarrow> m x | Some b \<Rightarrow> b)"

text \<open>The specification: a guest that is alone in its memory, and whose control-flow instructions are emulated one by one.\<close>

inductive guest_step :: "kernel \<Rightarrow> disassembler \<Rightarrow> event \<Rightarrow> state_rtime_t \<times> memory \<Rightarrow> state_rtime_t \<times> memory \<Rightarrow> bool" for K dis where
  "guest_step K dis (Ran st ws) (st0, m) (st, overlay m ws)"
| "eval_target K dis p t = Inr (bbl, u) \<Longrightarrow> hashmap (dbi t) = init_hashmap \<Longrightarrow>
    guest_step K dis (Turned p bbl a) (guest t, mem t) ((guest u)\<lparr>rip := a\<rparr>, mem u)"

text \<open>The engine: guest code runs in patched memory and does not write to the two patches.\<close>

inductive engine_step :: "kernel \<Rightarrow> disassembler \<Rightarrow> nat \<Rightarrow> event \<Rightarrow> mach \<Rightarrow> mach \<Rightarrow> bool" for K dis fuel where
  guest_runs: "(\<And>x. in_hooks s x \<Longrightarrow> ws x = None) \<Longrightarrow>
    engine_step K dis fuel (Ran st ws) s ((upd_guest (\<lambda>_. st) s)\<lparr>mem := overlay (mem s) ws\<rparr>)"
| dispatch: "dispatcher_fn fuel K dis test_callback s = Inr (r, s') \<Longrightarrow> a = jmp (hookof Restore s') \<Longrightarrow> a \<noteq> 0 \<Longrightarrow>
    engine_step K dis fuel (Turned (curr_hook (dbi s)) (a + hlength (hookof Restore s')) a) s s'"

inductive_cases engine_stepE: "engine_step K dis fuel e s s'"

inductive steps :: "('e \<Rightarrow> 's \<Rightarrow> 's \<Rightarrow> bool) \<Rightarrow> 'e list \<Rightarrow> 's \<Rightarrow> 's \<Rightarrow> bool" for R where
  none: "steps R [] s s"
| more: "R e s t \<Longrightarrow> steps R evs t u \<Longrightarrow> steps R (e # evs) s u"

text \<open>A simulation of single steps carries over to runs.\<close>

locale forward_simulation =
  fixes step :: "'e \<Rightarrow> 's \<Rightarrow> 's \<Rightarrow> bool"
    and spec :: "'e \<Rightarrow> 'a \<Rightarrow> 'a \<Rightarrow> bool"
    and sim :: "'s \<Rightarrow> 'a \<Rightarrow> bool"
  assumes simulates: "step e s s' \<Longrightarrow> sim s a \<Longrightarrow> \<exists>a'. spec e a a' \<and> sim s' a'"
begin

lemma run_simulates: "steps step evs s s' \<Longrightarrow> sim s a \<Longrightarrow> \<exists>a'. steps spec evs a a' \<and> sim s' a'"
proof (induction arbitrary: a rule: steps.induct)
  case (none s)
  then show ?case by (blast intro: steps.none)
next
  case (more e s t evs u)
  then obtain b where "spec e a b" "sim t b" using simulates by blast
  with more.IH show ?case by (blast intro: steps.more)
qed

end

definition guest_sim :: "kernel \<Rightarrow> mach \<Rightarrow> state_rtime_t \<times> memory \<Rightarrow> bool" where
  "guest_sim K s a \<longleftrightarrow> steady K \<and> seg_ok K \<and> hashmap (dbi s) = init_hashmap \<and> fst a = guest s \<and> patched (snd a) s"

lemma patched_outside: "patched m s \<Longrightarrow> \<not> in_hooks s x \<Longrightarrow> mem s x = m x"
  by (auto simp: patched_def Let_def in_hooks_def write_bytes_in)

lemma patched_overlay:
  assumes "patched m s" and "\<And>x. in_hooks s x \<Longrightarrow> ws x = None"
  shows "patched (overlay m ws) ((upd_guest (\<lambda>_. st) s)\<lparr>mem := overlay (mem s) ws\<rparr>)"
proof -
  have "overlay m ws = (\<lambda>x. if in_hooks s x then m x else overlay (mem s) ws x)"
    using assms patched_outside [OF assms(1)] by (auto simp: overlay_def fun_eq_iff split: option.splits)
  moreover have "patched (\<lambda>x. if in_hooks s x then m x else overlay (mem s) ws x) ((upd_guest (\<lambda>_. st) s)\<lparr>mem := overlay (mem s) ws\<rparr>)"
    by (rule patched_guest_run [OF assms(1)]) (simp add: overlay_def assms(2))
  ultimately show ?thesis by simp
qed

interpretation gs_sim: forward_simulation "engine_step K dis fuel" "guest_step K dis" "guest_sim K" for K dis fuel
proof
  fix e s s' a
  assume step: "engine_step K dis fuel e s s'" and sim: "guest_sim K s a"
  obtain m where a: "a = (guest s, m)" and p: "patched m s" and K: "steady K" "seg_ok K" and h: "hashmap (dbi s) = init_hashmap"
    using sim by (cases a) (auto simp: guest_sim_def)
  show "\<exists>a'. guest_step K dis e a a' \<and> guest_sim K s' a'"
    using step
  proof cases
    case (guest_runs ws st)
    have "patched (overlay m ws) s'" unfolding guest_runs(2) by (rule patched_overlay [OF p guest_runs(3)])
    then have "guest_sim K s' (st, overlay m ws)" using K h by (simp add: guest_sim_def guest_runs(2))
    then show ?thesis unfolding a guest_runs(1) by (blast intro: guest_step.intros)
  next
    case (dispatch r x)
    obtain t bbl u where "guest t = guest s" "mem t = m" "hashmap (dbi t) = init_hashmap" "eval_target K dis (curr_hook (dbi s)) t = Inr (bbl, u)"
      "patched (mem u) s'" "guest s' = (guest u)\<lparr>rip := x\<rparr>" "bbl = x + hlength (hookof Restore s')" "hashmap (dbi s') = init_hashmap"
      using dispatcher_emulates [OF K p dispatch(2)] dispatch(3,4) h by auto
    moreover from this have "guest_sim K s' ((guest u)\<lparr>rip := x\<rparr>, mem u)"
      using K by (simp add: guest_sim_def)
    ultimately show ?thesis unfolding a dispatch(1) using guest_step.intros(2) [of K dis "curr_hook (dbi s)" t bbl u x] by metis
  qed
qed

section \<open>Branches of single instructions\<close>

lemma branches_ret:
  assumes K: "grants K" and i: "dis 0 (read_bytes m p 16) = Some i" and g: "groups i = X86_GRP_RET # rest"
  shows "branches K dis p st m (read64 m (rsp st)) (st\<lparr>rsp := rsp st + 8\<rparr>) m"
  unfolding branches_def
proof (intro allI impI)
  fix s assume s: "guest s = st \<and> mem s = m \<and> hashmap (dbi s) = init_hashmap \<and> \<not> curr_syscall s"
  then have i': "dis 0 (read_bytes (mem s) p 16) = Some i" using i by simp
  obtain tr where "eval_target K dis p s = eval_target_insn K i p
     (upd_dbi (\<lambda>d. d\<lparr>cps_count := cps_count d + 1\<rparr>) (s\<lparr>ktrace := ktrace s @ tr\<rparr>))"
    using eval_target_decodes [where K = K and dis = dis, OF K i'] by blast
  then show "\<exists>s'. eval_target K dis p s = Inr (read64 m (rsp st), s') \<and>
      guest s' = st\<lparr>rsp := rsp st + 8\<rparr> \<and> mem s' = m \<and> \<not> curr_syscall s'"
    using g s by (simp add: eval_target_insn_def is_call_def is_ret_def retR_def Let_def reg_val_rsp)
qed

lemma branches_call:
  assumes K: "grants K" and i: "dis 0 (read_bytes m p 16) = Some i" and g: "groups i = X86_GRP_CALL # rest"
    and o': "operand0 i = X86_OP_IMM v"
  shows "branches K dis p st m (v + rip st) (st\<lparr>rsp := rsp st - 8\<rparr>)
     (write64 m (rsp st - 8) (rip st + of_nat (insn_size i)))"
  unfolding branches_def
proof (intro allI impI)
  fix s assume s: "guest s = st \<and> mem s = m \<and> hashmap (dbi s) = init_hashmap \<and> \<not> curr_syscall s"
  then have i': "dis 0 (read_bytes (mem s) p 16) = Some i" using i by simp
  obtain tr where "eval_target K dis p s = eval_target_insn K i p
     (upd_dbi (\<lambda>d. d\<lparr>cps_count := cps_count d + 1\<rparr>) (s\<lparr>ktrace := ktrace s @ tr\<rparr>))"
    using eval_target_decodes [where K = K and dis = dis, OF K i'] by blast
  then show "\<exists>s'. eval_target K dis p s = Inr (v + rip st, s') \<and> guest s' = st\<lparr>rsp := rsp st - 8\<rparr> \<and>
      mem s' = write64 m (rsp st - 8) (rip st + of_nat (insn_size i)) \<and> \<not> curr_syscall s'"
    using g s o' by (auto simp: eval_target_insn_def is_call_def retR_def Let_def)
qed

section \<open>A concrete framed block\<close>

definition framed :: "memory \<Rightarrow> u64 \<Rightarrow> u64 \<Rightarrow> mach" where
  "framed m a b =
    (let m1 = write_bytes m a (replicate 12 0xcc);
         d = \<lparr>code = replicate 12 0xcc, orig_bytes = read_bytes m a 12 @ replicate 52 0, hlength = 12,
              jmp = a, to_unmap = 0, prot_restore = 0\<rparr>;
         r = \<lparr>code = replicate 10 0xaa, orig_bytes = read_bytes m1 b 10 @ replicate 54 0, hlength = 10,
              jmp = b, to_unmap = 0, prot_restore = 0\<rparr>
     in (upd_dbi (\<lambda>x. x\<lparr>dump := d, restore := r, curr_hook := a, restore_stub := 0xdf1d000\<rparr>)
          (upd_guest (\<lambda>st. st\<lparr>rsp := 0x7000\<rparr>) zero_mach))\<lparr>mem := write_bytes m1 b (replicate 10 0xaa)\<rparr>)"

lemma framed_patched: "b \<noteq> 0 \<Longrightarrow> patched m (framed m a b)"
  by (simp add: patched_def framed_def Let_def hookof_def hook_wf_def hook_len_def hook_code_def)

lemma seg_ok_granting [simp]: "seg_ok granting_kernel"
  by (simp add: seg_ok_def granting_kernel_def)

section \<open>Properties\<close>

definition demo_mem :: memory where
  "demo_mem x = (if x = 0x402000 \<or> x = 0x401003 then 0xc3 else if x = 0x7000 then 2 else if x = 0x7001 then 0x10
     else if x = 0x7002 then 0x40 else if in_range 0x7000 8 x then 0 else 0x90)"

lemma demo_cflow: "cflow_at toy_dis demo_mem 0x401002 1"
proof -
  let ?nop = "\<lparr>insn_id = X86_INS_other 0, insn_size = 1, groups = [], operands = []\<rparr>"
  have w: "read_bytes m a 16 = m a # read_bytes m (a + 1) 15" for m a
    using read_bytes_Suc [of m a 15] by simp
  have "decode toy_dis demo_mem 0x401003 = Some \<lparr>insn_id = X86_INS_other 1, insn_size = 1, groups = [X86_GRP_RET], operands = []\<rparr>"
    by (simp add: decode_def w toy_dis_def demo_mem_def)
  then have "cflow_at toy_dis demo_mem 0x401003 0" by (rule cflow_at.here) (simp add: is_cflow_def)
  then have "cflow_at toy_dis demo_mem (0x401002 + of_nat (insn_size ?nop)) 0" by simp
  moreover have "decode toy_dis demo_mem 0x401002 = Some ?nop"
    by (simp add: decode_def w toy_dis_def demo_mem_def in_range_def)
  ultimately have "cflow_at toy_dis demo_mem 0x401002 (insn_size ?nop + 0)" by (intro cflow_at.further) simp_all
  then show ?thesis by simp
qed

lemma demo_framed:
  "hashmap (dbi (framed m a b)) = init_hashmap" "\<not> curr_syscall (framed m a b)" "curr_hook (dbi (framed m a b)) = a"
  "rsp (guest (framed m a b)) = 0x7000" "hlength (hookof Restore (framed m a b)) = 10" "restore_stub (dbi (framed m a b)) = 0xdf1d000"
  by (simp_all add: framed_def Let_def hookof_def) (simp_all add: zero_mach_def zero_dbi_def)

lemma demo_branches:
  assumes "rsp st = 0x7000"
  shows "branches granting_kernel toy_dis 0x402000 st demo_mem 0x401002 (st\<lparr>rsp := 0x7008\<rparr>) demo_mem"
proof -
  have w: "read_bytes m a 16 = m a # read_bytes m (a + 1) 15" for m a
    using read_bytes_Suc [of m a 15] by simp
  let ?r = "\<lparr>insn_id = X86_INS_other 1, insn_size = 1, groups = [X86_GRP_RET], operands = []\<rparr>"
  have i: "toy_dis 0 (read_bytes demo_mem 0x402000 16) = Some ?r"
    by (simp add: w toy_dis_def demo_mem_def)
  have "read64 demo_mem 0x7000 = 0x401002"
    by (simp add: read64_def read_bytes_def upt_rec demo_mem_def in_range_def)
  then show ?thesis
    using branches_ret [where dis = toy_dis and rest = "[]" and st = st, OF grants_granting i] assms by simp
qed

lemma demo_turn:
  "\<exists>s'. dispatcher_fn 5 granting_kernel toy_dis test_callback (framed demo_mem 0x402000 0x401ff6) = Inr (0xdf1d000, s') \<and>
     jmp (hookof Restore s') = 0x400ff8"
  using dispatcher_turn [where off = 1 and fuel = 5 and s = "framed demo_mem 0x402000 0x401ff6", OF grants_granting seg_ok_granting toy_dis_ok framed_patched
      demo_framed(1,2), unfolded demo_framed(3), OF _ demo_branches [OF demo_framed(4)]] demo_cflow by (auto simp: demo_framed)

text \<open>
  C1: one turn of the dispatcher.  Starting from a framed block (memory is the guest's image \<open>m\<close>
  under the two hooks) whose control-flow instruction, executed on the image and the dumped
  registers, goes to \<open>bbl\<close>, the dispatcher ends by jumping to the restore stub in a state that
  again is a framed block: the image is the one the instruction left, the dump hook stands on the
  first control-flow instruction from \<open>bbl\<close> on, the restore hook directly in front of \<open>bbl\<close>,
  \<^verbatim>\<open>rip\<close> is the address of the restore hook, and all other guest registers are those the
  instruction left.
\<close>

theorem dispatcher_frames_next_block:
  assumes "grants K" and "seg_ok K" and "disasm_ok dis" and "patched m s"
    and "hashmap (dbi s) = init_hashmap" and "\<not> curr_syscall s"
    and "branches K dis (curr_hook (dbi s)) (guest s) m bbl st' m'"
    and "cflow_at dis m' bbl off" and "off < fuel" and "off < 2 ^ 31"
    and "bbl \<noteq> -1" and "bbl \<noteq> hlength (hookof Restore s)"
  shows "\<exists>s'. dispatcher_fn fuel K dis test_callback s = Inr (restore_stub (dbi s), s') \<and> patched m' s' \<and>
     jmp (hookof Dump s') = bbl + of_nat off \<and> curr_hook (dbi s') = bbl + of_nat off \<and>
     jmp (hookof Restore s') = bbl - hlength (hookof Restore s) \<and>
     guest s' = st'\<lparr>rip := bbl - hlength (hookof Restore s)\<rparr> \<and>
     hashmap (dbi s') = init_hashmap \<and> \<not> curr_syscall s'"
  using dispatcher_turn [OF assms] by blast

lemma dispatcher_frames_next_block_witness:
  "\<exists>s'. dispatcher_fn 5 granting_kernel toy_dis test_callback (framed demo_mem 0x402000 0x401ff6)
       = Inr (0xdf1d000, s') \<and>
     jmp (hookof Dump s') = 0x401003 \<and> rip (guest s') = 0x401002 - 10 \<and> rsp (guest s') = 0x7008"
  using dispatcher_frames_next_block [where off = 1 and fuel = 5 and s = "framed demo_mem 0x402000 0x401ff6", OF grants_granting seg_ok_granting toy_dis_ok framed_patched
      demo_framed(1,2), unfolded demo_framed(3), OF _ demo_branches [OF demo_framed(4)]] demo_cflow by (auto simp: demo_framed)

text \<open>
  C12: the two hooks are undone exactly: writing back the bytes saved by the restore hook and
  then those saved by the dump hook gives the guest's image, also where the two patches
  overlap, and nothing else of the process changes.
\<close>

theorem hooks_undone:
  assumes "grants K" and "patched m s"
  shows "\<exists>tr. bindR (undo_hook K Restore s) (\<lambda>_ s.
            bindR (undo_hook K Dump (set_hook Restore (\<lambda>h. h\<lparr>to_unmap := 0\<rparr>) s)) (\<lambda>_ s.
              retR () (set_hook Dump (\<lambda>h. h\<lparr>to_unmap := 0\<rparr>) s)))
       = Inr ((), s\<lparr>mem := m, ktrace := ktrace s @ tr\<rparr>)"
  using undo_both_uniform [OF grants_ready(2) [OF assms(1)] assms(2)] by (metis retR_def)

lemma hooks_undone_witness:
  "\<exists>tr. bindR (undo_hook granting_kernel Restore (framed demo_mem 0x402000 0x401ff6)) (\<lambda>_ s.
            bindR (undo_hook granting_kernel Dump (set_hook Restore (\<lambda>h. h\<lparr>to_unmap := 0\<rparr>) s)) (\<lambda>_ s.
              retR () (set_hook Dump (\<lambda>h. h\<lparr>to_unmap := 0\<rparr>) s)))
       = Inr ((), (framed demo_mem 0x402000 0x401ff6)\<lparr>mem := demo_mem,
            ktrace := ktrace (framed demo_mem 0x402000 0x401ff6) @ tr\<rparr>)"
  by (rule hooks_undone [OF grants_granting framed_patched]) simp

text \<open>
  C2: the engine is transparent.  Over any sequence of guest runs and dispatcher turns the process does what the guest alone
  would do: there is a run of the guest in its own memory with the same events, that is the same bytes written by its code
  and the same control transfers, and at its end the process has the registers of that run in the saved state and
  its memory under the two hooks, each of which keeps the bytes it covers.  The kernel may refuse
  changes of protection, as long as its answer for a page is always the same: a turn that returns has done its work.
\<close>

theorem engine_refines_guest:
  assumes "steps (engine_step K dis fuel) evs s s'" and "patched m s" and "hashmap (dbi s) = init_hashmap" and "steady K" and "seg_ok K"
  shows "\<exists>m'. steps (guest_step K dis) evs (guest s, m) (guest s', m') \<and> patched m' s'"
  using gs_sim.run_simulates [OF assms(1), of "(guest s, m)"] assms(2-5) by (auto simp: guest_sim_def)

lemma engine_refines_guest_witness:
  "\<exists>s' m' bbl. steps (guest_step granting_kernel toy_dis) [Ran (guest (framed demo_mem 0x402000 0x401ff6)) [0x8000 \<mapsto> 0x90], Turned 0x402000 bbl 0x400ff8]
      (guest (framed demo_mem 0x402000 0x401ff6), demo_mem) (guest s', m') \<and> patched m' s'"
proof -
  let ?s = "framed demo_mem 0x402000 0x401ff6" and ?ws = "[0x8000 \<mapsto> 0x90] :: u64 \<rightharpoonup> u8"
  have "\<not> in_hooks ?s 0x8000"
  proof
    assume "in_hooks ?s 0x8000"
    then obtain w where "in_range (jmp (hookof w ?s)) (hook_len (hookof w ?s)) 0x8000" by (auto simp: in_hooks_def)
    then show False by (cases w) (simp_all add: framed_def Let_def hookof_def in_range_def hook_len_def)
  qed
  then have nw: "\<And>x. in_hooks ?s x \<Longrightarrow> ?ws x = None" by auto
  have same: "(upd_guest (\<lambda>_. guest ?s) ?s)\<lparr>mem := overlay (mem ?s) ?ws\<rparr> = ?s"
  proof -
    have "mem ?s 0x8000 = 0x90" by (simp add: framed_def Let_def write_bytes_in in_range_def demo_mem_def)
    then have "overlay (mem ?s) ?ws = mem ?s" by (auto simp: overlay_def fun_eq_iff)
    then show ?thesis by (simp add: upd_guest_def upd_dbi_def)
  qed
  have run: "engine_step granting_kernel toy_dis 5 (Ran (guest ?s) ?ws) ?s ?s"
    using engine_step.guest_runs [where s = ?s and ws = ?ws and K = granting_kernel and dis = toy_dis and fuel = 5 and st = "guest ?s", OF nw] unfolding same .
  obtain s' where s': "dispatcher_fn 5 granting_kernel toy_dis test_callback ?s = Inr (0xdf1d000, s')" "jmp (hookof Restore s') = 0x400ff8"
    using demo_turn by blast
  have c: "curr_hook (dbi ?s) = 0x402000" "hashmap (dbi ?s) = init_hashmap"
    by (simp_all add: demo_framed)
  obtain bbl where "engine_step granting_kernel toy_dis 5 (Turned 0x402000 bbl 0x400ff8) ?s s'"
    using engine_step.dispatch [OF s'(1) s'(2) [symmetric]] c(1) by auto
  with run have st: "steps (engine_step granting_kernel toy_dis 5) [Ran (guest ?s) ?ws, Turned 0x402000 bbl 0x400ff8] ?s s'"
    by (blast intro: steps.intros)
  have p: "patched demo_mem ?s" by (rule framed_patched) simp
  show ?thesis using engine_refines_guest [OF st p c(2) grants_ready(1) [OF grants_granting] seg_ok_granting] by blast
qed



end
