(* ===== verification/Stubs.thy ===== *)
theory Stubs
  imports Guest_Memory
begin

unbundle bit_operations_syntax

text \<open>
  The code that \<^verbatim>\<open>src/engine.c\<close> generates: the dump hook and its stub, which save the processor state
  into \<^verbatim>\<open>state_rtime_t\<close> and enter the dispatcher, and the restore stub and hook, which load it
  back.  The assembler texts are lists of instructions of the type \<open>sinstr\<close>; the assembler itself
  (keystone) is the parameter \<open>asm\<close>, which for a list of instructions gives the encoding or fails.
  \<open>exec\<close> gives the instructions their meaning on a processor state.  The theorems show that a dump
  captures every register, that a restore loads every register, and that a dump followed by a
  restore is the identity on what user code can observe.
\<close>

section \<open>Instructions\<close>

datatype gpr = RAX | RBX | RCX | RDX | RSI | RDI | RBP | RSP
  | R8 | R9 | R10 | R11 | R12 | R13 | R14 | R15

datatype sreg = ES | GS | FS | CS | SS | DS

text \<open>
  \<open>Store\<close> and \<open>Load\<close> are \<^verbatim>\<open>movabs [p], rax\<close> and \<^verbatim>\<open>movabs rax, [p]\<close> with \<^verbatim>\<open>p\<close> the address of a member of
  the saved state, \<open>LoadCurrHook\<close> reads through the pointer \<^verbatim>\<open>curr_hook\<close>.  \<open>SaveXmm n\<close> is the group
  \<^verbatim>\<open>mov rax, p; movaps xmm0, xmmn; movaps [rax], xmm0\<close> (without the middle instruction for 0), \<open>SaveYmm n\<close>
  is \<^verbatim>\<open>mov rax, p; vmovups [rax], ymmn\<close>, \<open>LoadXmm\<close> and \<open>LoadYmm\<close> the corresponding loads.
  \<open>CallSaveMxcsr\<close> and \<open>CallRestoreMxcsr\<close> are \<^verbatim>\<open>mov rax, f; call rax\<close> with \<^verbatim>\<open>f\<close> the C function.
\<close>

datatype sinstr =
    Mov gpr gpr | MovImm gpr u64 | Store slot | Load slot | LoadCurrHook
  | MovFromSeg sreg | MovToSeg sreg
  | Pushfq | Popfq | Push gpr | PushImm u64 | Pop gpr
  | SaveXmm nat | LoadXmm nat | SaveYmm nat | LoadYmm nat | CallSaveMxcsr | CallRestoreMxcsr
  | Ret | JmpRax

type_synonym assembler = "sinstr list \<Rightarrow> u8 list option"

section \<open>The generated code\<close>

definition restore_hook_insns :: "sinstr list" where
  "restore_hook_insns = [Load S_rax]"

definition dump_hook_insns :: "u64 \<Rightarrow> sinstr list" where
  "dump_hook_insns stub = [Store S_rax, MovImm RAX stub, JmpRax]"

definition dump_general :: "u64 \<Rightarrow> sinstr list" where
  "dump_general hrsp =
    [Mov RAX RSP, Store S_rsp, MovImm RSP hrsp, Pushfq, Pop RAX, Store S_rflags,
     Mov RAX RBX, Store S_rbx, Mov RAX RCX, Store S_rcx, Mov RAX RDX, Store S_rdx,
     Mov RAX RSI, Store S_rsi, Mov RAX RDI, Store S_rdi, Mov RAX RBP, Store S_rbp,
     MovFromSeg ES, Store S_es, MovFromSeg GS, Store S_gs, MovFromSeg FS, Store S_fs,
     MovFromSeg CS, Store S_cs, MovFromSeg SS, Store S_ss, MovFromSeg DS, Store S_ds,
     Mov RAX R8, Store S_r8, Mov RAX R9, Store S_r9, Mov RAX R10, Store S_r10,
     Mov RAX R11, Store S_r11, Mov RAX R12, Store S_r12, Mov RAX R13, Store S_r13,
     Mov RAX R14, Store S_r14, Mov RAX R15, Store S_r15]"

definition dump_enter :: "u64 \<Rightarrow> u64 \<Rightarrow> sinstr list" where
  "dump_enter sb disp =
    [MovImm RDI sb, MovImm RAX disp, PushImm 0, Push RAX, LoadCurrHook, Store S_rip, Ret]"

text \<open>The vector part: \<open>None\<close> when only AVX-512 state is present, which the source refuses.\<close>

definition dump_vector :: "state_rtime_t \<Rightarrow> sinstr list option" where
  "dump_vector st =
    (if sse st \<noteq> None then Some (map SaveXmm [0..<16])
     else if avx2 st \<noteq> None then Some (CallSaveMxcsr # map SaveYmm [0..<16])
     else if avx512 st \<noteq> None then None
     else Some [])"

definition craft_hook_insns :: "u64 \<Rightarrow> mach \<Rightarrow> sinstr list option" where
  "craft_hook_insns sb s =
    (case dump_vector (guest s) of
       None \<Rightarrow> None
     | Some vec \<Rightarrow> Some (dump_general (host_rsp (dbi s)) @ vec @ dump_enter sb (dispatcher (s_binary s))))"

definition restore_vector :: "state_rtime_t \<Rightarrow> sinstr list option" where
  "restore_vector st =
    (if sse st \<noteq> None then Some (map LoadXmm [0..<16])
     else if avx2 st \<noteq> None then Some (map LoadYmm [0..<16] @ [CallRestoreMxcsr])
     else if avx512 st \<noteq> None then None
     else Some [])"

definition restore_general :: "sinstr list" where
  "restore_general =
    [Load S_rbx, Mov RBX RAX, Load S_rcx, Mov RCX RAX, Load S_rdx, Mov RDX RAX,
     Load S_rdi, Mov RDI RAX, Load S_rsi, Mov RSI RAX, Load S_rbp, Mov RBP RAX,
     Load S_es, MovToSeg ES, Load S_ss, MovToSeg SS, Load S_ds, MovToSeg DS,
     Load S_r8, Mov R8 RAX, Load S_r9, Mov R9 RAX, Load S_r10, Mov R10 RAX,
     Load S_r11, Mov R11 RAX, Load S_r12, Mov R12 RAX, Load S_r13, Mov R13 RAX,
     Load S_r14, Mov R14 RAX, Load S_r15, Mov R15 RAX]"

definition restore_leave :: "sinstr list" where
  "restore_leave =
    [Load S_rsp, Push RAX, Load S_rflags, Push RAX, Popfq, Pop RSP, Load S_rip, JmpRax]"

definition craft_restore_insns :: "mach \<Rightarrow> sinstr list option" where
  "craft_restore_insns s =
    (case restore_vector (guest s) of None \<Rightarrow> None | Some vec \<Rightarrow> Some (vec @ restore_general @ restore_leave))"

section \<open>Generating it\<close>

text \<open>
  \<^verbatim>\<open>restore_hook\<close> and \<^verbatim>\<open>dump_hook\<close> copy the encoding into a patch buffer; the value is the length, \<open>-1\<close>
  on failure, and the buffer.
\<close>

definition restore_hook :: "assembler \<Rightarrow> u8 list \<Rightarrow> mach \<Rightarrow> (i32 \<times> u8 list) run" where
  "restore_hook asm patch s =
    (case asm restore_hook_insns of
       None \<Rightarrow> retR (-1, patch) s
     | Some enc \<Rightarrow> (case buf_put patch 0 enc of
           None \<Rightarrow> haltR Buffer_overrun s
         | Some patch' \<Rightarrow> retR (of_nat (length enc), patch') s))"

definition dump_hook :: "assembler \<Rightarrow> u8 list \<Rightarrow> mach \<Rightarrow> (i32 \<times> u8 list) run" where
  "dump_hook asm patch s =
    (case asm (dump_hook_insns (dump_stub (dbi s))) of
       None \<Rightarrow> retR (-1, patch) s
     | Some enc \<Rightarrow> (case buf_put patch 0 enc of
           None \<Rightarrow> haltR Buffer_overrun s
         | Some patch' \<Rightarrow> retR (of_nat (length enc), patch') s))"

definition stub_prot :: i32 where "stub_prot = PROT_EXEC OR PROT_READ OR PROT_WRITE"
definition stub_flags :: i32 where "stub_flags = MAP_PRIVATE OR MAP_ANONYMOUS OR MAP_FIXED"

text \<open>\<open>sb\<close> is the address of \<^verbatim>\<open>s_binary\<close>, which the stub passes to the dispatcher.\<close>

text \<open>Assembling the text of a stub into its page; \<open>None\<close> of \<open>asm\<close> is an error of \<^verbatim>\<open>ks_open\<close> or \<^verbatim>\<open>ks_asm\<close>.\<close>

definition put_stub :: "assembler \<Rightarrow> u64 \<Rightarrow> sinstr list \<Rightarrow> mach \<Rightarrow> u64 run" where
  "put_stub asm a insns s = (case asm insns of
       None \<Rightarrow> retR (-1) s
     | Some enc \<Rightarrow> retR a (s\<lparr>mem := write_bytes (mem s) a enc\<rparr>))"

definition craft_hook :: "kernel \<Rightarrow> assembler \<Rightarrow> u64 \<Rightarrow> mach \<Rightarrow> u64 run" where
  "craft_hook K asm sb s =
     bindR (mmap K STUB_ADDR_DUMP 0x1000 stub_prot stub_flags (-1) 0 s) (\<lambda>encode s.
       if encode = -1 then retR (-1) s
       else let s = upd_dbi (\<lambda>d. d\<lparr>dump_stub := encode\<rparr>) s in
       case craft_hook_insns sb s of
         None \<Rightarrow> retR (-1) s
       | Some insns \<Rightarrow> put_stub asm STUB_ADDR_DUMP insns s)"

definition craft_restore_stub :: "kernel \<Rightarrow> assembler \<Rightarrow> mach \<Rightarrow> u64 run" where
  "craft_restore_stub K asm s =
     bindR (mmap K STUB_ADDR_RESTORE 0x1000 stub_prot stub_flags (-1) 0 s) (\<lambda>encode s.
       if encode = -1 then retR (-1) s
       else let s = upd_dbi (\<lambda>d. d\<lparr>restore_stub := STUB_ADDR_RESTORE\<rparr>) s in
       case craft_restore_insns s of
         None \<Rightarrow> retR (-1) s
       | Some insns \<Rightarrow> put_stub asm STUB_ADDR_RESTORE insns s)"

text \<open>
  \<^verbatim>\<open>realloc\<close> keeps the first bytes of the 256-byte buffer; to a size of 0 it returns a null pointer.
\<close>

definition set_dump_hook :: "assembler \<Rightarrow> mach \<Rightarrow> i32 run" where
  "set_dump_hook asm s =
     bindR (dump_hook asm (replicate 256 0) s) (\<lambda>(sz, buf) s.
       let s = upd_dbi (\<lambda>d. d\<lparr>dump := (dump d)\<lparr>code := buf\<rparr>\<rparr>) s in
       if sz = -1 then retR (-1) s
       else retR 0 (upd_dbi (\<lambda>d. d\<lparr>dump := (dump d)\<lparr>code := take (unat sz + 1) buf,
                                hlength := scast sz, jmp := 0\<rparr>\<rparr>) s))"

definition set_restore_hook :: "assembler \<Rightarrow> mach \<Rightarrow> i32 run" where
  "set_restore_hook asm s =
     bindR (restore_hook asm (replicate 256 0) s) (\<lambda>(sz, buf) s.
       let s = upd_dbi (\<lambda>d. d\<lparr>restore := (restore d)\<lparr>code := buf\<rparr>\<rparr>) s in
       if sz = -1 then retR (-1) s
       else if sz = 0 then retR (-1) (upd_dbi (\<lambda>d. d\<lparr>restore := (restore d)\<lparr>code := []\<rparr>\<rparr>) s)
       else retR 0 (upd_dbi (\<lambda>d. d\<lparr>restore := (restore d)\<lparr>code := take (unat sz) buf,
                                hlength := scast sz\<rparr>\<rparr>) s))"

text \<open>A segment register stored to memory writes two bytes, the rest of the member stays.\<close>

definition put16 :: "u16 \<Rightarrow> u64 \<Rightarrow> u64" where
  "put16 w old = (old AND NOT 0xffff) OR ucast w"

definition host_save_state :: "(sreg \<Rightarrow> u16) \<Rightarrow> state_rtime_t \<Rightarrow> i32 \<times> state_rtime_t" where
  "host_save_state seg st = (0, st\<lparr>fs := put16 (seg FS) (fs st), cs := put16 (seg CS) (cs st),
     gs := put16 (seg GS) (gs st), ds := put16 (seg DS) (ds st), ss := put16 (seg SS) (ss st)\<rparr>)"

section \<open>Executing it\<close>

text \<open>
  The processor as the stubs see it: general registers, flags, segment selectors, vector
  registers (\<^verbatim>\<open>xmm\<close> is the low half of \<^verbatim>\<open>ymm\<close>), the SSE control word and the program counter;
  with it the saved state, memory, the global \<^verbatim>\<open>mxcsr\<close> and the value \<^verbatim>\<open>*curr_hook\<close>.
\<close>

record cpu =
  regs :: "gpr \<Rightarrow> u64"
  eflags :: u64
  segs :: "sreg \<Rightarrow> u16"
  ymm :: "nat \<Rightarrow> 256 word"
  csr :: u32
  pc :: u64
  saved :: state_rtime_t
  cmem :: memory
  gmxcsr :: u64
  chook :: u64

definition xmm :: "cpu \<Rightarrow> nat \<Rightarrow> 128 word" where
  "xmm c n = ucast (ymm c n)"

definition set_xmm :: "(nat \<Rightarrow> 256 word) \<Rightarrow> nat \<Rightarrow> 128 word \<Rightarrow> nat \<Rightarrow> 256 word" where
  "set_xmm y n v = y(n := (y n AND NOT (mask 128)) OR ucast v)"

text \<open>
  \<^verbatim>\<open>pushfq\<close> stores the flags with \<^verbatim>\<open>RF\<close> and \<^verbatim>\<open>VM\<close> cleared; \<^verbatim>\<open>popfq\<close> in user mode changes only the
  arithmetic flags, \<^verbatim>\<open>TF\<close>, \<^verbatim>\<open>DF\<close>, \<^verbatim>\<open>NT\<close>, \<^verbatim>\<open>AC\<close> and \<^verbatim>\<open>ID\<close>, and clears \<^verbatim>\<open>RF\<close>.
\<close>

definition push_mask :: u64 where "push_mask = 0xFCFFFF"
definition user_flags :: u64 where "user_flags = 0x244DD5"

definition pop_flags :: "u64 \<Rightarrow> u64 \<Rightarrow> u64" where
  "pop_flags old v = (old AND NOT (user_flags OR 0x10000)) OR (v AND user_flags)"

definition set_reg :: "gpr \<Rightarrow> u64 \<Rightarrow> cpu \<Rightarrow> cpu" where
  "set_reg r v c = c\<lparr>regs := (regs c)(r := v)\<rparr>"

definition push64 :: "u64 \<Rightarrow> cpu \<Rightarrow> cpu" where
  "push64 v c = c\<lparr>regs := (regs c)(RSP := regs c RSP - 8), cmem := write64 (cmem c) (regs c RSP - 8) v\<rparr>"

text \<open>
  \<open>vp\<close> gives the addresses the vector groups load into \<^verbatim>\<open>rax\<close>, \<open>ra\<close> the return address that a call
  leaves below the stack pointer, \<open>cl\<close> the value the called function leaves in \<^verbatim>\<open>rax\<close>.
\<close>

record junk =
  vp :: "nat \<Rightarrow> u64"
  ra :: u64
  cl :: u64

fun step :: "junk \<Rightarrow> sinstr \<Rightarrow> cpu \<Rightarrow> cpu" where
  "step j (Mov a b) c = set_reg a (regs c b) c"
| "step j (MovImm a v) c = set_reg a v c"
| "step j (Store sl) c = c\<lparr>saved := set_slot sl (regs c RAX) (saved c)\<rparr>"
| "step j (Load sl) c = set_reg RAX (get_slot sl (saved c)) c"
| "step j LoadCurrHook c = set_reg RAX (chook c) c"
| "step j (MovFromSeg s) c = set_reg RAX (ucast (segs c s)) c"
| "step j (MovToSeg s) c = c\<lparr>segs := (segs c)(s := ucast (regs c RAX))\<rparr>"
| "step j Pushfq c = push64 (eflags c AND push_mask) c"
| "step j Popfq c = set_reg RSP (regs c RSP + 8) (c\<lparr>eflags := pop_flags (eflags c) (read64 (cmem c) (regs c RSP))\<rparr>)"
| "step j (Push r) c = push64 (regs c r) c"
| "step j (PushImm v) c = push64 v c"
| "step j (Pop r) c = set_reg r (read64 (cmem c) (regs c RSP)) (set_reg RSP (regs c RSP + 8) c)"
| "step j (SaveXmm n) c = set_reg RAX (vp j n) (c\<lparr>ymm := set_xmm (ymm c) 0 (xmm c n),
     saved := (saved c)\<lparr>sse := map_option (\<lambda>f. f(n := xmm c n)) (sse (saved c))\<rparr>\<rparr>)"
| "step j (LoadXmm n) c = set_reg RAX (vp j n)
     (c\<lparr>ymm := (case sse (saved c) of None \<Rightarrow> ymm c | Some f \<Rightarrow> set_xmm (ymm c) n (f n))\<rparr>)"
| "step j (SaveYmm n) c = set_reg RAX (vp j n) (c\<lparr>saved := (saved c)\<lparr>avx2 :=
     map_option (\<lambda>f. f(n := ymm c n)) (avx2 (saved c))\<rparr>\<rparr>)"
| "step j (LoadYmm n) c = set_reg RAX (vp j n)
     (c\<lparr>ymm := (case avx2 (saved c) of None \<Rightarrow> ymm c | Some f \<Rightarrow> (ymm c)(n := f n))\<rparr>)"
| "step j CallSaveMxcsr c = set_reg RAX (cl j)
     (c\<lparr>gmxcsr := ucast (csr c), cmem := write64 (cmem c) (regs c RSP - 8) (ra j)\<rparr>)"
| "step j CallRestoreMxcsr c = set_reg RAX (cl j)
     (c\<lparr>csr := ucast (gmxcsr c), cmem := write64 (cmem c) (regs c RSP - 8) (ra j)\<rparr>)"
| "step j Ret c = set_reg RSP (regs c RSP + 8) (c\<lparr>pc := read64 (cmem c) (regs c RSP)\<rparr>)"
| "step j JmpRax c = c\<lparr>pc := regs c RAX\<rparr>"

definition exec :: "junk \<Rightarrow> sinstr list \<Rightarrow> cpu \<Rightarrow> cpu" where
  "exec j is c = fold (step j) is c"

section \<open>Symbolic execution\<close>

lemma exec_Nil [simp]: "exec j [] c = c"
  by (simp add: exec_def)

lemma exec_Cons [simp]: "exec j (i # is) c = exec j is (step j i c)"
  by (simp add: exec_def)

lemma exec_append [simp]: "exec j (is @ js) c = exec j js (exec j is c)"
  by (simp add: exec_def)

text \<open>The member that backs each general register.\<close>

fun gslot :: "gpr \<Rightarrow> slot" where
  "gslot RAX = S_rax" | "gslot RBX = S_rbx" | "gslot RCX = S_rcx" | "gslot RDX = S_rdx"
| "gslot RSI = S_rsi" | "gslot RDI = S_rdi" | "gslot RBP = S_rbp" | "gslot RSP = S_rsp"
| "gslot R8 = S_r8" | "gslot R9 = S_r9" | "gslot R10 = S_r10" | "gslot R11 = S_r11"
| "gslot R12 = S_r12" | "gslot R13 = S_r13" | "gslot R14 = S_r14" | "gslot R15 = S_r15"

fun sslot :: "sreg \<Rightarrow> slot" where
  "sslot ES = S_es" | "sslot GS = S_gs" | "sslot FS = S_fs" | "sslot CS = S_cs" | "sslot SS = S_ss"
| "sslot DS = S_ds"

lemma exec_dump_general:
  "exec j (dump_general h) c = c\<lparr>regs := (regs c)(RSP := h, RAX := regs c R15),
     cmem := write64 (cmem c) (h - 8) (eflags c AND push_mask),
     saved := (saved c)\<lparr>rsp := regs c RSP, rflags := eflags c AND push_mask, rbx := regs c RBX,
       rcx := regs c RCX, rdx := regs c RDX, rsi := regs c RSI, rdi := regs c RDI, rbp := regs c RBP,
       es := ucast (segs c ES), gs := ucast (segs c GS), fs := ucast (segs c FS), cs := ucast (segs c CS),
       ss := ucast (segs c SS), ds := ucast (segs c DS), r8 := regs c R8, r9 := regs c R9, r10 := regs c R10,
       r11 := regs c R11, r12 := regs c R12, r13 := regs c R13, r14 := regs c R14, r15 := regs c R15\<rparr>\<rparr>"
  by (simp add: dump_general_def set_reg_def push64_def)

lemma exec_save_ymm:
  "\<exists>a. exec j (map SaveYmm [0..<n]) c = c\<lparr>regs := (regs c)(RAX := a),
     saved := (saved c)\<lparr>avx2 := map_option (\<lambda>f k. if k < n then ymm c k else f k) (avx2 (saved c))\<rparr>\<rparr>"
proof (induction n)
  case 0
  show ?case by (intro exI [of _ "regs c RAX"]) (simp add: option.map_ident)
next
  case (Suc n)
  then obtain a where IH: "exec j (map SaveYmm [0..<n]) c = c\<lparr>regs := (regs c)(RAX := a),
     saved := (saved c)\<lparr>avx2 := map_option (\<lambda>f k. if k < n then ymm c k else f k) (avx2 (saved c))\<rparr>\<rparr>" by blast
  show ?case
    by (intro exI [of _ "vp j n"], cases "avx2 (saved c)")
      (auto simp: IH set_reg_def fun_eq_iff less_Suc_eq intro!: cpu.equality state_rtime_t.equality)
qed

lemma exec_save_xmm:
  "\<exists>a y. exec j (map SaveXmm [0..<n]) c = c\<lparr>regs := (regs c)(RAX := a), ymm := y,
     saved := (saved c)\<lparr>sse := map_option (\<lambda>f k. if k < n then xmm c k else f k) (sse (saved c))\<rparr>\<rparr>
     \<and> (\<forall>k. 0 < k \<longrightarrow> y k = ymm c k) \<and> (n = 0 \<longrightarrow> y = ymm c)"
proof (induction n)
  case 0
  show ?case by (intro exI [of _ "regs c RAX"] exI [of _ "ymm c"]) (simp add: option.map_ident)
next
  case (Suc n)
  then obtain a y where IH: "exec j (map SaveXmm [0..<n]) c = c\<lparr>regs := (regs c)(RAX := a), ymm := y,
     saved := (saved c)\<lparr>sse := map_option (\<lambda>f k. if k < n then xmm c k else f k) (sse (saved c))\<rparr>\<rparr>"
    and y: "\<forall>k. 0 < k \<longrightarrow> y k = ymm c k" "n = 0 \<longrightarrow> y = ymm c" by blast
  have x: "xmm (c\<lparr>regs := (regs c)(RAX := a), ymm := y, saved := st\<rparr>) n = xmm c n" for st
    using y by (cases n) (simp_all add: xmm_def)
  have e: "exec j (map SaveXmm [0..<Suc n]) c = c\<lparr>regs := (regs c)(RAX := vp j n),
     ymm := set_xmm y 0 (xmm c n),
     saved := (saved c)\<lparr>sse := map_option (\<lambda>f k. if k < Suc n then xmm c k else f k) (sse (saved c))\<rparr>\<rparr>"
    by (cases "sse (saved c)")
      (auto simp: IH x set_reg_def fun_eq_iff less_Suc_eq intro!: cpu.equality state_rtime_t.equality)
  show ?case by (rule exI, rule exI, rule conjI, rule e) (use y in \<open>simp add: set_xmm_def\<close>)
qed

lemma exec_load_ymm:
  assumes "avx2 (saved c) = Some f"
  shows "\<exists>a. exec j (map LoadYmm [0..<n]) c = c\<lparr>regs := (regs c)(RAX := a),
     ymm := (\<lambda>k. if k < n then f k else ymm c k)\<rparr>"
proof (induction n)
  case 0
  show ?case by (intro exI [of _ "regs c RAX"]) simp
next
  case (Suc n)
  then obtain a where IH: "exec j (map LoadYmm [0..<n]) c = c\<lparr>regs := (regs c)(RAX := a),
     ymm := (\<lambda>k. if k < n then f k else ymm c k)\<rparr>" by blast
  show ?case using assms
    by (intro exI [of _ "vp j n"])
      (auto simp: IH set_reg_def fun_eq_iff less_Suc_eq intro!: cpu.equality)
qed

lemma exec_load_xmm:
  assumes "sse (saved c) = Some f"
  shows "\<exists>a. exec j (map LoadXmm [0..<n]) c = c\<lparr>regs := (regs c)(RAX := a),
     ymm := (\<lambda>k. if k < n then (ymm c k AND NOT (mask 128)) OR ucast (f k) else ymm c k)\<rparr>"
proof (induction n)
  case 0
  show ?case by (intro exI [of _ "regs c RAX"]) simp
next
  case (Suc n)
  then obtain a where IH: "exec j (map LoadXmm [0..<n]) c = c\<lparr>regs := (regs c)(RAX := a),
     ymm := (\<lambda>k. if k < n then (ymm c k AND NOT (mask 128)) OR ucast (f k) else ymm c k)\<rparr>" by blast
  show ?case using assms
    by (intro exI [of _ "vp j n"])
      (auto simp: IH set_reg_def set_xmm_def fun_eq_iff less_Suc_eq intro!: cpu.equality)
qed

lemma low_half: "(ucast ((y AND NOT (mask 128)) OR ucast (v :: 128 word) :: 256 word) :: 128 word) = v"
  by (rule bit_word_eqI) (auto simp: bit_simps)

section \<open>The stack\<close>

lemma read64_write64_below: "read64 (write64 m (a - 8) v) a = read64 m a"
proof (rule read64_cong)
  fix i :: nat assume i: "i < 8"
  have "a + of_nat i - (a - 8) = of_nat (i + 8)" by simp
  then have "unat (a + of_nat i - (a - 8)) = i + 8"
    using i by (simp add: unat_of_nat_64 del: of_nat_add)
  then show "write64 m (a - 8) v (a + of_nat i) = m (a + of_nat i)"
    by (simp add: write64_def write_bytes_outside)
qed

lemma write64_outside:
  assumes "\<not> unat (x - (h - 16)) < 16"
  shows "write64 m (h - 8) v x = m x" "write64 m (h - 16) v x = m x"
proof -
  show "write64 m (h - 16) v x = m x" using assms by (simp add: write64_def write_bytes_outside)
  have "8 \<le> unat (x - (h - 8))"
  proof (rule ccontr)
    assume "\<not> 8 \<le> unat (x - (h - 8))"
    then have u: "unat (x - (h - 8)) < 8" by simp
    have "x - (h - 16) = (x - (h - 8)) + 8" by simp
    then have "unat (x - (h - 16)) = unat (x - (h - 8)) + 8"
      using u by (simp only: unat_word_ariths) simp
    with u assms show False by simp
  qed
  then show "write64 m (h - 8) v x = m x" by (simp add: write64_def write_bytes_outside)
qed

lemma exec_dump_enter:
  assumes "regs c RSP = h"
  shows "exec j (dump_enter sb disp) c = c\<lparr>
     regs := (regs c)(RDI := sb, RSP := h - 8, RAX := chook c), pc := disp,
     cmem := write64 (write64 (cmem c) (h - 8) 0) (h - 16) disp,
     saved := (saved c)\<lparr>rip := chook c\<rparr>\<rparr>"
  using assms by (simp add: dump_enter_def set_reg_def push64_def fun_upd_twist)

lemma read64_two_below [simp]: "read64 (write64 m (h - 16) w) (h - 8) = read64 m (h - 8)"
  using read64_write64_below [of m "h - 8" w] by simp

section \<open>What the dump captures\<close>

text \<open>The stub is crafted once, at start-up; the vector state it was crafted for is still there.\<close>

definition same_vectors :: "state_rtime_t \<Rightarrow> state_rtime_t \<Rightarrow> bool" where
  "same_vectors a b = ((sse a = None) = (sse b = None) \<and> (avx2 a = None) = (avx2 b = None))"

text \<open>The effect of the vector part of the dump, whichever vector state there is.\<close>

lemma exec_dump_vector:
  assumes v: "dump_vector st = Some vec" and same: "same_vectors st (saved c)" and h: "regs c RSP = h"
  shows "\<exists>a y g m u w.
    exec j vec c = c\<lparr>regs := (regs c)(RAX := a), ymm := y, gmxcsr := g, cmem := m,
       saved := (saved c)\<lparr>sse := u, avx2 := w\<rparr>\<rparr> \<and>
    (u = None) = (sse (saved c) = None) \<and> (w = None) = (avx2 (saved c) = None) \<and>
    (\<forall>f k. u = Some f \<and> k < 16 \<longrightarrow> f k = xmm c k) \<and>
    (\<forall>f k. sse (saved c) = None \<and> w = Some f \<and> k < 16 \<longrightarrow> f k = ymm c k) \<and>
    (sse (saved c) = None \<and> avx2 (saved c) \<noteq> None \<longrightarrow> g = ucast (csr c)) \<and>
    (\<forall>x. \<not> unat (x - (h - 16)) < 16 \<longrightarrow> m x = cmem c x)"
proof -
  consider (sse) "sse (saved c) \<noteq> None" "vec = map SaveXmm [0..<16]"
    | (avx) "sse (saved c) = None" "avx2 (saved c) \<noteq> None" "vec = CallSaveMxcsr # map SaveYmm [0..<16]"
    | (none) "sse (saved c) = None" "avx2 (saved c) = None" "vec = []"
    using v same by (auto simp: dump_vector_def same_vectors_def split: if_splits)
  then show ?thesis
  proof cases
    case sse
    obtain a y where e: "exec j (map SaveXmm [0..<16]) c = c\<lparr>regs := (regs c)(RAX := a), ymm := y,
       saved := (saved c)\<lparr>sse := map_option (\<lambda>f k. if k < 16 then xmm c k else f k) (sse (saved c))\<rparr>\<rparr>"
      using exec_save_xmm [of j 16 c] by blast
    show ?thesis
      by (intro exI [of _ a] exI [of _ y] exI [of _ "gmxcsr c"] exI [of _ "cmem c"]
          exI [of _ "map_option (\<lambda>f k. if k < 16 then xmm c k else f k) (sse (saved c))"] exI [of _ "avx2 (saved c)"])
        (use sse in \<open>auto simp: e intro!: cpu.equality\<close>)
  next
    case avx
    define c1 where "c1 = step j CallSaveMxcsr c"
    obtain a where e: "exec j (map SaveYmm [0..<16]) c1 = c1\<lparr>regs := (regs c1)(RAX := a),
       saved := (saved c1)\<lparr>avx2 := map_option (\<lambda>f k. if k < 16 then ymm c1 k else f k) (avx2 (saved c1))\<rparr>\<rparr>"
      using exec_save_ymm [of j 16 c1] by blast
    have "exec j vec c = exec j (map SaveYmm [0..<16]) c1" by (simp only: avx c1_def exec_Cons)
    moreover have yc: "ymm c1 = ymm c" by (simp add: c1_def set_reg_def)
    ultimately have x: "exec j vec c = c1\<lparr>regs := (regs c1)(RAX := a),
       saved := (saved c1)\<lparr>avx2 := map_option (\<lambda>f k. if k < 16 then ymm c k else f k) (avx2 (saved c1))\<rparr>\<rparr>"
      using e unfolding yc by metis
    show ?thesis
      by (intro exI [of _ a] exI [of _ "ymm c"] exI [of _ "ucast (csr c)"]
          exI [of _ "write64 (cmem c) (h - 8) (ra j)"] exI [of _ "sse (saved c)"]
          exI [of _ "map_option (\<lambda>f k. if k < 16 then ymm c k else f k) (avx2 (saved c))"])
        (use avx(1,2) h in \<open>auto simp: x c1_def set_reg_def write64_outside intro!: cpu.equality state_rtime_t.equality\<close>)
  next
    case none
    show ?thesis
      by (intro exI [of _ "regs c RAX"] exI [of _ "ymm c"] exI [of _ "gmxcsr c"] exI [of _ "cmem c"]
          exI [of _ "sse (saved c)"] exI [of _ "avx2 (saved c)"])
        (use none in auto)
  qed
qed


text \<open>
  The dump as one piece of code: the hook at the end of the block, then the stub it jumps to.
\<close>

definition dump_code :: "u64 \<Rightarrow> mach \<Rightarrow> sinstr list option" where
  "dump_code sb s = map_option ((@) (dump_hook_insns (dump_stub (dbi s)))) (craft_hook_insns sb s)"

lemma dump_effects:
  assumes code: "dump_code sb s = Some ins" and same: "same_vectors (guest s) (saved c)"
    and c': "c' = exec j ins c" and h: "h = host_rsp (dbi s)"
  shows "\<forall>r. get_slot (gslot r) (saved c') = regs c r"
    and "\<forall>q. get_slot (sslot q) (saved c') = ucast (segs c q)"
    and "rflags (saved c') = eflags c AND push_mask" "rip (saved c') = chook c"
    and "same_vectors (saved c) (saved c')"
    and "\<forall>f. sse (saved c') = Some f \<longrightarrow> (\<forall>k<16. f k = xmm c k)"
    and "\<forall>f. sse (saved c') = None \<and> avx2 (saved c') = Some f \<longrightarrow> (\<forall>k<16. f k = ymm c k) \<and> gmxcsr c' = ucast (csr c)"
    and "pc c' = dispatcher (s_binary s)" "regs c' RDI = sb" "regs c' RSP = h - 8"
    and "read64 (cmem c') (h - 8) = 0"
    and "\<forall>x. \<not> unat (x - (h - 16)) < 16 \<longrightarrow> cmem c' x = cmem c x"
proof -
  obtain vec where v: "dump_vector (guest s) = Some vec"
    and ins: "ins = dump_hook_insns (dump_stub (dbi s)) @ dump_general h @ vec @ dump_enter sb (dispatcher (s_binary s))"
    using code h by (auto simp: dump_code_def craft_hook_insns_def split: option.splits)
  define c1 where "c1 = exec j (dump_hook_insns (dump_stub (dbi s)) @ dump_general h) c"
  have c1: "c1 = c\<lparr>regs := (regs c)(RSP := h, RAX := regs c R15), pc := dump_stub (dbi s),
     cmem := write64 (cmem c) (h - 8) (eflags c AND push_mask),
     saved := (saved c)\<lparr>rax := regs c RAX, rsp := regs c RSP, rflags := eflags c AND push_mask, rbx := regs c RBX,
       rcx := regs c RCX, rdx := regs c RDX, rsi := regs c RSI, rdi := regs c RDI, rbp := regs c RBP,
       es := ucast (segs c ES), gs := ucast (segs c GS), fs := ucast (segs c FS), cs := ucast (segs c CS),
       ss := ucast (segs c SS), ds := ucast (segs c DS), r8 := regs c R8, r9 := regs c R9, r10 := regs c R10,
       r11 := regs c R11, r12 := regs c R12, r13 := regs c R13, r14 := regs c R14, r15 := regs c R15\<rparr>\<rparr>"
    by (simp add: c1_def exec_dump_general dump_hook_insns_def set_reg_def)
  have sv: "same_vectors (guest s) (saved c1)" "regs c1 RSP = h"
    using same by (simp_all add: c1 same_vectors_def)
  obtain a y g m u w where e: "exec j vec c1 = c1\<lparr>regs := (regs c1)(RAX := a), ymm := y, gmxcsr := g, cmem := m,
       saved := (saved c1)\<lparr>sse := u, avx2 := w\<rparr>\<rparr>"
    and uw: "(u = None) = (sse (saved c1) = None)" "(w = None) = (avx2 (saved c1) = None)"
    and u: "\<forall>f k. u = Some f \<and> k < 16 \<longrightarrow> f k = xmm c1 k"
    and w: "\<forall>f k. sse (saved c1) = None \<and> w = Some f \<and> k < 16 \<longrightarrow> f k = ymm c1 k"
    and g: "sse (saved c1) = None \<and> avx2 (saved c1) \<noteq> None \<longrightarrow> g = ucast (csr c1)"
    and m: "\<forall>x. \<not> unat (x - (h - 16)) < 16 \<longrightarrow> m x = cmem c1 x"
    using exec_dump_vector [OF v sv, of j] by (elim exE conjE)
  have x: "c' = exec j (dump_enter sb (dispatcher (s_binary s))) (exec j vec c1)"
    by (simp add: c' ins c1_def)
  have ch: "chook c1 = chook c" by (simp add: c1)
  have c'e: "c' = (exec j vec c1)\<lparr>
     regs := (regs (exec j vec c1))(RDI := sb, RSP := h - 8, RAX := chook c), pc := dispatcher (s_binary s),
     cmem := write64 (write64 m (h - 8) 0) (h - 16) (dispatcher (s_binary s)),
     saved := (saved (exec j vec c1))\<lparr>rip := chook c\<rparr>\<rparr>"
    unfolding x e using sv(2) by (subst exec_dump_enter [of _ h]) (simp_all add: ch)
  note [simp] = c'e [unfolded e]
  show "\<forall>r. get_slot (gslot r) (saved c') = regs c r"
  proof
    fix r show "get_slot (gslot r) (saved c') = regs c r" by (cases r) (simp_all add: c1)
  qed
  show "\<forall>q. get_slot (sslot q) (saved c') = ucast (segs c q)"
  proof
    fix q show "get_slot (sslot q) (saved c') = ucast (segs c q)" by (cases q) (simp_all add: c1)
  qed
  show "rflags (saved c') = eflags c AND push_mask" "rip (saved c') = chook c"
    "pc c' = dispatcher (s_binary s)" "regs c' RDI = sb" "regs c' RSP = h - 8"
    "read64 (cmem c') (h - 8) = 0" by (simp_all add: c1)
  show "same_vectors (saved c) (saved c')" using uw by (simp add: same_vectors_def c1) 
  show "\<forall>f. sse (saved c') = Some f \<longrightarrow> (\<forall>k<16. f k = xmm c k)" using u by (auto simp: c1 xmm_def)
  show "\<forall>f. sse (saved c') = None \<and> avx2 (saved c') = Some f \<longrightarrow> (\<forall>k<16. f k = ymm c k) \<and> gmxcsr c' = ucast (csr c)"
    using w g uw by (auto simp: c1)
  show "\<forall>x. \<not> unat (x - (h - 16)) < 16 \<longrightarrow> cmem c' x = cmem c x"
    using m by (auto simp: c1 write64_outside)
qed

section \<open>What the restore loads\<close>

lemma exec_restore_vector:
  assumes v: "restore_vector st = Some vec" and same: "same_vectors st (saved c)" and h: "regs c RSP = h"
  shows "\<exists>a y r m. exec j vec c = c\<lparr>regs := (regs c)(RAX := a), ymm := y, csr := r, cmem := m\<rparr> \<and>
    (\<forall>f k. sse (saved c) = Some f \<and> k < 16 \<longrightarrow> (ucast (y k) :: 128 word) = f k) \<and>
    (\<forall>f k. sse (saved c) = None \<and> avx2 (saved c) = Some f \<and> k < 16 \<longrightarrow> y k = f k) \<and>
    (sse (saved c) = None \<and> avx2 (saved c) \<noteq> None \<longrightarrow> r = ucast (gmxcsr c)) \<and>
    (\<forall>x. \<not> unat (x - (h - 16)) < 16 \<longrightarrow> m x = cmem c x)"
proof -
  consider (sse) f where "sse (saved c) = Some f" "vec = map LoadXmm [0..<16]"
    | (avx) f where "sse (saved c) = None" "avx2 (saved c) = Some f" "vec = map LoadYmm [0..<16] @ [CallRestoreMxcsr]"
    | (none) "sse (saved c) = None" "avx2 (saved c) = None" "vec = []"
    using v same by (auto simp: restore_vector_def same_vectors_def split: if_splits)
  then show ?thesis
  proof cases
    case sse
    obtain a where e: "exec j (map LoadXmm [0..<16]) c = c\<lparr>regs := (regs c)(RAX := a),
      ymm := (\<lambda>k. if k < 16 then (ymm c k AND NOT (mask 128)) OR ucast (f k) else ymm c k)\<rparr>"
      using exec_load_xmm [OF sse(1), of j 16] by blast
    show ?thesis
      by (intro exI [of _ a] exI [of _ "\<lambda>k. if k < 16 then (ymm c k AND NOT (mask 128)) OR ucast (f k) else ymm c k"]
          exI [of _ "csr c"] exI [of _ "cmem c"])
        (use sse in \<open>auto simp: e low_half intro!: cpu.equality\<close>)
  next
    case avx
    obtain a where e: "exec j (map LoadYmm [0..<16]) c = c\<lparr>regs := (regs c)(RAX := a),
      ymm := (\<lambda>k. if k < 16 then f k else ymm c k)\<rparr>"
      using exec_load_ymm [OF avx(2), of j 16] by blast
    show ?thesis
      by (intro exI [of _ "cl j"] exI [of _ "\<lambda>k. if k < 16 then f k else ymm c k"]
          exI [of _ "ucast (gmxcsr c)"] exI [of _ "write64 (cmem c) (h - 8) (ra j)"])
        (use avx h in \<open>auto simp: e set_reg_def write64_outside intro!: cpu.equality\<close>)
  next
    case none
    show ?thesis
      by (intro exI [of _ "regs c RAX"] exI [of _ "ymm c"] exI [of _ "csr c"] exI [of _ "cmem c"])
        (use none in auto)
  qed
qed

text \<open>The restore as one piece of code: the stub, then the hook that stands before the block.\<close>

definition restore_code :: "mach \<Rightarrow> sinstr list option" where
  "restore_code s = map_option (\<lambda>is. is @ restore_hook_insns) (craft_restore_insns s)"

lemma restore_effects:
  assumes code: "restore_code s = Some ins" and same: "same_vectors (guest s) (saved c)"
    and c': "c' = exec j ins c" and h: "h = regs c RSP"
  shows "\<forall>r. regs c' r = get_slot (gslot r) (saved c)"
    and "eflags c' = pop_flags (eflags c) (rflags (saved c))" "pc c' = rip (saved c)"
    and "segs c' = (segs c)(ES := ucast (es (saved c)), SS := ucast (ss (saved c)), DS := ucast (ds (saved c)))"
    and "\<forall>f. sse (saved c) = Some f \<longrightarrow> (\<forall>k<16. xmm c' k = f k)"
    and "\<forall>f. sse (saved c) = None \<and> avx2 (saved c) = Some f \<longrightarrow> (\<forall>k<16. ymm c' k = f k) \<and> csr c' = ucast (gmxcsr c)"
    and "saved c' = saved c"
    and "\<forall>x. \<not> unat (x - (h - 16)) < 16 \<longrightarrow> cmem c' x = cmem c x"
proof -
  obtain vec where v: "restore_vector (guest s) = Some vec"
    and ins: "ins = vec @ restore_general @ restore_leave @ restore_hook_insns"
    using code by (auto simp: restore_code_def craft_restore_insns_def split: option.splits)
  obtain a y r m where e: "exec j vec c = c\<lparr>regs := (regs c)(RAX := a), ymm := y, csr := r, cmem := m\<rparr>"
    and y: "\<forall>f k. sse (saved c) = Some f \<and> k < 16 \<longrightarrow> (ucast (y k) :: 128 word) = f k"
    and z: "\<forall>f k. sse (saved c) = None \<and> avx2 (saved c) = Some f \<and> k < 16 \<longrightarrow> y k = f k"
    and r: "sse (saved c) = None \<and> avx2 (saved c) \<noteq> None \<longrightarrow> r = ucast (gmxcsr c)"
    and m: "\<forall>x. \<not> unat (x - (h - 16)) < 16 \<longrightarrow> m x = cmem c x"
    using exec_restore_vector [OF v same h [symmetric], of j] by (elim exE conjE)
  have c'e: "c' = c\<lparr>regs := \<lambda>r. get_slot (gslot r) (saved c), ymm := y, csr := r,
     eflags := pop_flags (eflags c) (rflags (saved c)), pc := rip (saved c),
     segs := (segs c)(ES := ucast (es (saved c)), SS := ucast (ss (saved c)), DS := ucast (ds (saved c))),
     cmem := write64 (write64 m (h - 8) (rsp (saved c))) (h - 16) (rflags (saved c))\<rparr>"
  proof -
    have "regs c' q = get_slot (gslot q) (saved c)" for q
      by (cases q) (simp_all add: c' ins e h restore_general_def restore_leave_def restore_hook_insns_def set_reg_def push64_def)
    then show ?thesis
      by (intro cpu.equality)
        (simp_all add: c' ins e h restore_general_def restore_leave_def restore_hook_insns_def set_reg_def push64_def fun_eq_iff)
  qed
  show "\<forall>r. regs c' r = get_slot (gslot r) (saved c)"
    "eflags c' = pop_flags (eflags c) (rflags (saved c))" "pc c' = rip (saved c)"
    "segs c' = (segs c)(ES := ucast (es (saved c)), SS := ucast (ss (saved c)), DS := ucast (ds (saved c)))"
    "saved c' = saved c" by (simp_all add: c'e)
  show "\<forall>f. sse (saved c) = Some f \<longrightarrow> (\<forall>k<16. xmm c' k = f k)" using y by (auto simp: c'e xmm_def)
  show "\<forall>f. sse (saved c) = None \<and> avx2 (saved c) = Some f \<longrightarrow> (\<forall>k<16. ymm c' k = f k) \<and> csr c' = ucast (gmxcsr c)"
    using z r by (auto simp: c'e)
  show "\<forall>x. \<not> unat (x - (h - 16)) < 16 \<longrightarrow> cmem c' x = cmem c x"
    using m by (auto simp: c'e write64_outside)
qed

section \<open>Round trip\<close>

lemma narrow_wide [simp]:
  "(ucast (ucast (v :: u16) :: u64) :: u16) = v" "(ucast (ucast (w :: u32) :: u64) :: u32) = w"
  by (rule bit_word_eqI, auto simp: bit_simps)+

lemma pop_pushed_flags: "pop_flags old (e AND push_mask) AND user_flags = e AND user_flags"
proof -
  have "push_mask AND user_flags = user_flags" by (simp add: push_mask_def user_flags_def)
  then have "(e AND push_mask) AND user_flags = e AND user_flags" by (simp add: and.assoc)
  moreover have "pop_flags old v AND user_flags = v AND user_flags" for v
    by (rule bit_word_eqI) (auto simp: pop_flags_def bit_simps)
  ultimately show ?thesis by simp
qed

lemma same_vectors_trans: "same_vectors a b \<Longrightarrow> same_vectors b d \<Longrightarrow> same_vectors a d"
  by (simp add: same_vectors_def)

text \<open>A machine whose guest state has 128-bit vectors, and a processor that stopped at 0x401000.\<close>

definition demo_mach :: mach where
  "demo_mach = upd_guest (\<lambda>st. st\<lparr>sse := Some (\<lambda>_. 0)\<rparr>) zero_mach"

definition demo_cpu :: cpu where
  "demo_cpu = \<lparr>regs = (\<lambda>_. 7), eflags = 0x246, segs = (\<lambda>_. 0x2b), ymm = (\<lambda>_. 5), csr = 0x1f80,
     pc = 0x401000, saved = guest demo_mach, cmem = (\<lambda>_. 0), gmxcsr = 0, chook = 0x401000\<rparr>"

definition demo_junk :: junk where
  "demo_junk = \<lparr>vp = (\<lambda>_. 0), ra = 0, cl = 0\<rparr>"

lemma demo_codes:
  "dump_code 0x10000 demo_mach = Some (the (dump_code 0x10000 demo_mach))"
  "restore_code demo_mach = Some (the (restore_code demo_mach))"
  "same_vectors (guest demo_mach) (saved demo_cpu)"
  by (simp_all add: dump_code_def restore_code_def craft_hook_insns_def craft_restore_insns_def dump_vector_def
      restore_vector_def demo_mach_def demo_cpu_def same_vectors_def)

text \<open>
  C29: the dump hook and its stub, run from the patched end of a block on any processor state, save
  the sixteen general registers, the six segment selectors, the flags that \<^verbatim>\<open>pushfq\<close> gives, the
  vector registers of the state the stub was crafted for and the address of the hook into
  \<^verbatim>\<open>state_rtime_t\<close>, and arrive in the dispatcher with \<^verbatim>\<open>s_binary\<close> as first argument and the stack
  pointer on the host stack with a null return address; nothing else in memory changes
  than the 16 bytes below \<^verbatim>\<open>host_rsp\<close>.
\<close>

theorem dump_captures:
  assumes "dump_code sb s = Some ins" and "same_vectors (guest s) (saved c)"
    and "c' = exec j ins c" and "h = host_rsp (dbi s)"
  shows "(\<forall>r. get_slot (gslot r) (saved c') = regs c r) \<and>
    (\<forall>q. get_slot (sslot q) (saved c') = ucast (segs c q)) \<and>
    rflags (saved c') = eflags c AND push_mask \<and> rip (saved c') = chook c \<and>
    (\<forall>f. sse (saved c') = Some f \<longrightarrow> (\<forall>k<16. f k = xmm c k)) \<and>
    (\<forall>f. sse (saved c') = None \<and> avx2 (saved c') = Some f \<longrightarrow> (\<forall>k<16. f k = ymm c k) \<and> gmxcsr c' = ucast (csr c)) \<and>
    pc c' = dispatcher (s_binary s) \<and> regs c' RDI = sb \<and> regs c' RSP = h - 8 \<and> read64 (cmem c') (h - 8) = 0 \<and>
    (\<forall>x. \<not> unat (x - (h - 16)) < 16 \<longrightarrow> cmem c' x = cmem c x)"
  using dump_effects [OF assms] by blast

lemma dump_captures_witness:
  "regs (exec demo_junk (the (dump_code 0x10000 demo_mach)) demo_cpu) RDI = 0x10000 \<and>
   get_slot S_rsp (saved (exec demo_junk (the (dump_code 0x10000 demo_mach)) demo_cpu)) = 7"
  using dump_captures [OF demo_codes(1) demo_codes(3) refl [of "exec demo_junk _ _"] refl]
    demo_cpu_def
  by (metis cpu.select_convs(1) gslot.simps(8))

text \<open>
  C30: the restore stub and the restore hook, run on any processor state, load all sixteen general
  registers, the user-changeable flags, the selectors \<^verbatim>\<open>es\<close>, \<^verbatim>\<open>ss\<close>, \<^verbatim>\<open>ds\<close> and the vector registers from
  \<^verbatim>\<open>state_rtime_t\<close> and continue at the saved \<^verbatim>\<open>rip\<close>; the saved state stays, and nothing else in memory
  changes than the 16 bytes below the host stack pointer.
\<close>

theorem restore_loads:
  assumes "restore_code s = Some ins" and "same_vectors (guest s) (saved c)"
    and "c' = exec j ins c" and "h = regs c RSP"
  shows "(\<forall>r. regs c' r = get_slot (gslot r) (saved c)) \<and>
    eflags c' = pop_flags (eflags c) (rflags (saved c)) \<and> pc c' = rip (saved c) \<and>
    segs c' = (segs c)(ES := ucast (es (saved c)), SS := ucast (ss (saved c)), DS := ucast (ds (saved c))) \<and>
    (\<forall>f. sse (saved c) = Some f \<longrightarrow> (\<forall>k<16. xmm c' k = f k)) \<and>
    (\<forall>f. sse (saved c) = None \<and> avx2 (saved c) = Some f \<longrightarrow> (\<forall>k<16. ymm c' k = f k) \<and> csr c' = ucast (gmxcsr c)) \<and>
    saved c' = saved c \<and>
    (\<forall>x. \<not> unat (x - (h - 16)) < 16 \<longrightarrow> cmem c' x = cmem c x)"
  using restore_effects [OF assms] by blast

lemma restore_loads_witness:
  "regs (exec demo_junk (the (restore_code demo_mach)) demo_cpu) R15 = 0 \<and>
   xmm (exec demo_junk (the (restore_code demo_mach)) demo_cpu) 3 = 0"
proof -
  have "r15 (saved demo_cpu) = 0" "sse (saved demo_cpu) = Some (\<lambda>_. 0)"
    by (simp_all add: demo_cpu_def demo_mach_def zero_mach_def zero_dbi_def calloc_state_def)
  then show ?thesis
    using restore_loads [OF demo_codes(2) demo_codes(3) refl [of "exec demo_junk _ _"] refl] by auto
qed

text \<open>
  C10: when the dump stub has saved a processor state and the host leaves the saved state alone, the
  restore stub brings the processor back to it, whatever the host did to the registers in between:
  general registers, user flags, the three selectors, vector registers and the control word are as
  before the dump, and execution continues at the dumped hook address.
\<close>

theorem dump_restore_roundtrip:
  assumes "dump_code sb s = Some di" and "restore_code s = Some ri" and "same_vectors (guest s) (saved c)"
    and "saved c1 = saved (exec j di c)" and "gmxcsr c1 = gmxcsr (exec j di c)" and "c2 = exec j' ri c1"
  shows "regs c2 = regs c \<and> eflags c2 AND user_flags = eflags c AND user_flags \<and> pc c2 = chook c \<and>
    segs c2 ES = segs c ES \<and> segs c2 SS = segs c SS \<and> segs c2 DS = segs c DS \<and>
    (sse (saved c) \<noteq> None \<longrightarrow> (\<forall>k<16. xmm c2 k = xmm c k)) \<and>
    (sse (saved c) = None \<and> avx2 (saved c) \<noteq> None \<longrightarrow> (\<forall>k<16. ymm c2 k = ymm c k) \<and> csr c2 = csr c)"
proof -
  note d = dump_effects [OF assms(1,3) refl refl, of j]
  have same: "same_vectors (saved c) (saved c1)" "same_vectors (guest s) (saved c1)"
    using d(5) assms(3,4) same_vectors_trans by auto
  note r = restore_effects [OF assms(2) same(2) assms(6) refl]
  have seg: "get_slot (sslot q) (saved c1) = ucast (segs c q)" for q using d(2) assms(4) by simp
  have "regs c2 = regs c" using r(1) d(1) assms(4) by (simp add: fun_eq_iff)
  moreover have "eflags c2 AND user_flags = eflags c AND user_flags"
    using r(2) d(3) assms(4) by (simp add: pop_pushed_flags)
  moreover have "pc c2 = chook c" using r(3) d(4) assms(4) by simp
  moreover have "segs c2 ES = segs c ES" "segs c2 SS = segs c SS" "segs c2 DS = segs c DS"
    using seg [of ES] seg [of SS] seg [of DS] r(4) by simp_all
  moreover have "sse (saved c) \<noteq> None \<longrightarrow> (\<forall>k<16. xmm c2 k = xmm c k)"
    using r(5) d(6) assms(4) same(1) by (auto simp: same_vectors_def)
  moreover have "sse (saved c) = None \<and> avx2 (saved c) \<noteq> None \<longrightarrow> (\<forall>k<16. ymm c2 k = ymm c k) \<and> csr c2 = csr c"
    using r(6) d(7) assms(4,5) same(1) by (auto simp: same_vectors_def)
  ultimately show ?thesis by blast
qed

lemma dump_restore_roundtrip_witness:
  "regs (exec demo_junk (the (restore_code demo_mach)) (exec demo_junk (the (dump_code 0x10000 demo_mach)) demo_cpu))
     = (\<lambda>_. 7)"
  using dump_restore_roundtrip [OF demo_codes refl [of "saved (exec demo_junk _ _)"] refl refl [of "exec demo_junk _ _"]]
    demo_cpu_def by (metis cpu.select_convs(1))

end
