(* ===== verification/Elf_Parsing.thy ===== *)
theory Elf_Parsing
  imports Engine_Base "HOL-Library.Monad_Syntax"
begin

unbundle bit_operations_syntax

text \<open>
  \<^verbatim>\<open>src/elf_parsing.c\<close>: reading the executable, program and section headers of a file, building the descriptor
  \<^verbatim>\<open>mdata_binary_t\<close> from it and releasing it again.  The file is the list of bytes in the malloc'ed buffer
  \<^verbatim>\<open>fbinary\<close>; a pointer into it is its offset from the start, a 64-bit value, and reading outside
  of the buffer is \<open>None\<close>, in the functions that run in the process \<open>Buffer_overrun\<close>.  The theorems are the round
  trip from headers to bytes to headers and the meaning of the searches over the program headers, and that a
  descriptor is built exactly for a readable ELF file, with the initial state the engine assumes.
\<close>

section \<open>Fields of the file\<close>

type_synonym elf_file = "u8 list"

definition fld :: "elf_file \<Rightarrow> nat \<Rightarrow> nat \<Rightarrow> u64 option" where
  "fld f off n = (if off + n \<le> length f then Some (le_val (take n (drop off f))) else None)"

text \<open>The offsets of \<^verbatim>\<open>Elf64_Ehdr\<close>, \<^verbatim>\<open>Elf64_Phdr\<close> and \<^verbatim>\<open>Elf64_Shdr\<close> in \<^verbatim>\<open>elf.h\<close>.\<close>

definition e_type :: "elf_file \<Rightarrow> u64 option" where "e_type f = fld f 16 2"
definition e_entry :: "elf_file \<Rightarrow> u64 option" where "e_entry f = fld f 24 8"
definition e_phoff :: "elf_file \<Rightarrow> u64 option" where "e_phoff f = fld f 32 8"
definition e_shoff :: "elf_file \<Rightarrow> u64 option" where "e_shoff f = fld f 40 8"
definition e_phentsize :: "elf_file \<Rightarrow> u64 option" where "e_phentsize f = fld f 54 2"
definition e_phnum :: "elf_file \<Rightarrow> u64 option" where "e_phnum f = fld f 56 2"
definition e_shentsize :: "elf_file \<Rightarrow> u64 option" where "e_shentsize f = fld f 58 2"
definition e_shnum :: "elf_file \<Rightarrow> u64 option" where "e_shnum f = fld f 60 2"
definition e_shstrndx :: "elf_file \<Rightarrow> u64 option" where "e_shstrndx f = fld f 62 2"

definition p_type :: "elf_file \<Rightarrow> u64 \<Rightarrow> u64 option" where "p_type f p = fld f (unat p) 4"
definition p_flags :: "elf_file \<Rightarrow> u64 \<Rightarrow> u64 option" where "p_flags f p = fld f (unat p + 4) 4"
definition p_offset :: "elf_file \<Rightarrow> u64 \<Rightarrow> u64 option" where "p_offset f p = fld f (unat p + 8) 8"
definition p_vaddr :: "elf_file \<Rightarrow> u64 \<Rightarrow> u64 option" where "p_vaddr f p = fld f (unat p + 16) 8"
definition p_filesz :: "elf_file \<Rightarrow> u64 \<Rightarrow> u64 option" where "p_filesz f p = fld f (unat p + 32) 8"
definition p_memsz :: "elf_file \<Rightarrow> u64 \<Rightarrow> u64 option" where "p_memsz f p = fld f (unat p + 40) 8"

definition sh_name :: "elf_file \<Rightarrow> u64 \<Rightarrow> u64 option" where "sh_name f p = fld f (unat p) 4"
definition sh_offset :: "elf_file \<Rightarrow> u64 \<Rightarrow> u64 option" where "sh_offset f p = fld f (unat p + 24) 8"

definition PT_LOAD :: u64 where [simp]: "PT_LOAD = 1"
definition PT_DYNAMIC :: u64 where [simp]: "PT_DYNAMIC = 2"
definition PT_INTERP :: u64 where [simp]: "PT_INTERP = 3"
definition ET_DYN :: u64 where [simp]: "ET_DYN = 3"
definition PF_X :: u64 where [simp]: "PF_X = 1"
definition PF_W :: u64 where [simp]: "PF_W = 2"

text \<open>An element of an array of pointers.\<close>

definition elem :: "'a list \<Rightarrow> nat \<Rightarrow> 'a option" where
  "elem xs i = (if i < length xs then Some (xs ! i) else None)"

section \<open>Parsing\<close>

definition is_elf :: "elf_file \<Rightarrow> bool option" where
  "is_elf f = do {
     m0 \<leftarrow> fld f 0 1;
     if m0 \<noteq> 0x7f then Some False else do {
     m1 \<leftarrow> fld f 1 1;
     if m1 \<noteq> 0x45 then Some False else do {
     m2 \<leftarrow> fld f 2 1;
     if m2 \<noteq> 0x4c then Some False else do {
     m3 \<leftarrow> fld f 3 1;
     Some (m3 = 0x46) }}}}"

text \<open>The result 0 of \<^verbatim>\<open>search_pt_dyn\<close> is the inner \<open>None\<close>.\<close>

fun search_pt_dyn_loop :: "u64 list \<Rightarrow> elf_file \<Rightarrow> nat list \<Rightarrow> u64 option option" where
  "search_pt_dyn_loop phs f [] = Some None"
| "search_pt_dyn_loop phs f (i # is) = do {
     p \<leftarrow> elem phs i;
     t \<leftarrow> p_type f p;
     if t = PT_DYNAMIC then Some (Some p) else search_pt_dyn_loop phs f is }"

definition search_pt_dyn :: "u64 list \<Rightarrow> elf_file \<Rightarrow> u64 option option" where
  "search_pt_dyn phs f = do { n \<leftarrow> e_phnum f; search_pt_dyn_loop phs f [0..<unat n] }"

definition is_pie :: "u64 list \<Rightarrow> elf_file \<Rightarrow> bool option" where
  "is_pie phs f = map_option (\<lambda>t. t = ET_DYN) (e_type f)"

text \<open>The address is compared only when the segment is \<^verbatim>\<open>PT_LOAD\<close>.\<close>

fun search_base_addr_loop :: "u64 list \<Rightarrow> elf_file \<Rightarrow> u64 \<Rightarrow> nat list \<Rightarrow> u64 option" where
  "search_base_addr_loop phs f mn [] = Some mn"
| "search_base_addr_loop phs f mn (i # is) = do {
     p \<leftarrow> elem phs i;
     t \<leftarrow> p_type f p;
     if t = PT_LOAD then do {
       v \<leftarrow> p_vaddr f p;
       search_base_addr_loop phs f (if v < mn then v else mn) is }
     else search_base_addr_loop phs f mn is }"

definition search_base_addr :: "u64 list \<Rightarrow> elf_file \<Rightarrow> u64 option" where
  "search_base_addr phs f = do {
     p \<leftarrow> elem phs 0;
     mn \<leftarrow> p_vaddr f p;
     n \<leftarrow> e_phnum f;
     search_base_addr_loop phs f mn [0..<unat n] }"

text \<open>The array that \<^verbatim>\<open>parse_phdr\<close> and \<^verbatim>\<open>parse_shdr\<close> fill; both return 0.\<close>

definition parse_phdr :: "elf_file \<Rightarrow> u64 list option" where
  "parse_phdr f = do {
     n \<leftarrow> e_phnum f;
     off \<leftarrow> e_phoff f;
     sz \<leftarrow> e_phentsize f;
     Some (map (\<lambda>i. off + sz * of_nat i) [0..<unat n]) }"

definition parse_shdr :: "elf_file \<Rightarrow> u64 list option" where
  "parse_shdr f = do {
     n \<leftarrow> e_shnum f;
     off \<leftarrow> e_shoff f;
     sz \<leftarrow> e_shentsize f;
     Some (map (\<lambda>i. off + sz * of_nat i) [0..<unat n]) }"

fun sh_names :: "u64 list \<Rightarrow> elf_file \<Rightarrow> u64 \<Rightarrow> nat list \<Rightarrow> u64 list option" where
  "sh_names shs f str [] = Some []"
| "sh_names shs f str (i # is) = do {
     p \<leftarrow> elem shs i;
     o' \<leftarrow> sh_name f p;
     ns \<leftarrow> sh_names shs f str is;
     Some ((str + o') # ns) }"

text \<open>
  \<^verbatim>\<open>e_shentsize * e_shstrndx\<close> is a product of two \<^verbatim>\<open>int\<close>s; from \<open>2 ^ 31\<close> on it overflows, which is undefined and
  counts as a failed access.
\<close>

definition parse_sh_name :: "elf_file \<Rightarrow> u64 list \<Rightarrow> u64 list option" where
  "parse_sh_name f shs = do {
     off \<leftarrow> e_shoff f;
     sz \<leftarrow> e_shentsize f;
     ix \<leftarrow> e_shstrndx f;
     if unat sz * unat ix \<ge> 2 ^ 31 then None else do {
     str \<leftarrow> sh_offset f (off + sz * ix);
     n \<leftarrow> e_shnum f;
     sh_names shs f str [0..<unat n] }}"

text \<open>
  Each array is filled only if its pointer is not null: the arguments say which are.  The value is the
  return code, always 0 since no parser fails, and the three arrays.
\<close>

definition init_struct :: "bool \<Rightarrow> bool \<Rightarrow> bool \<Rightarrow> elf_file \<Rightarrow> (i32 \<times> u64 list \<times> u64 list \<times> u64 list) option" where
  "init_struct has_sh has_ph has_name f = do {
     phs \<leftarrow> (if has_ph then parse_phdr f else Some []);
     shs \<leftarrow> (if has_sh then parse_shdr f else Some []);
     names \<leftarrow> (if has_name \<and> has_sh then parse_sh_name f shs else Some []);
     Some (0, phs, shs, names) }"

section \<open>The descriptor\<close>

text \<open>
  What the host gives at start-up: the files, the processor's features, what \<^verbatim>\<open>_mm_malloc\<close> leaves in
  fresh memory, whether capstone starts, and the five random bytes of the next read of \<^verbatim>\<open>/dev/urandom\<close>.
  A file is its descriptor number, whether \<^verbatim>\<open>fstat\<close> works, and its contents, which one \<^verbatim>\<open>read\<close> returns.
\<close>

record host_file =
  hf_fd :: i32
  hf_stat :: bool
  hf_data :: elf_file

record host_env =
  host_open :: "string \<Rightarrow> host_file option"
  cpu_sse :: bool
  cpu_avx2 :: bool
  cpu_avx512f :: bool
  fresh_sse :: sse_t
  fresh_avx512 :: avx512_t
  cs_open_ok :: bool
  cs_malloc_ok :: bool
  urandom :: "kcall list \<Rightarrow> u64 option"

definition alloc_state :: "host_env \<Rightarrow> state_rtime_t" where
  "alloc_state E =
    (if cpu_sse E \<and> \<not> cpu_avx2 E then calloc_state\<lparr>sse := Some (fresh_sse E)\<rparr>
     else if cpu_avx2 E \<and> \<not> cpu_avx512f E then calloc_state\<lparr>avx2 := Some (\<lambda>_. 0)\<rparr>
     else if cpu_avx512f E then calloc_state\<lparr>avx512 := Some (fresh_avx512 E)\<rparr>
     else calloc_state)"

definition alloc_ph :: "nat \<Rightarrow> u64 list" where
  "alloc_ph n = replicate n 0"

definition alloc_dbi :: "host_env \<Rightarrow> dbi_instr_t" where
  "alloc_dbi E = \<lparr>take_callback = False, state = alloc_state E, host_state = calloc_state,
     dump = calloc_hook, restore = calloc_hook, dump_stub = 0, restore_stub = 0, curr_hook = 0,
     host_rsp = 0, hashmap = init_hashmap, instrumented_fs = 0, base_guest_stack = 0,
     instrumented_gs = 0, length_cflow = 0, request = \<lparr>rtype = 0, raddress = 0\<rparr>,
     persistent_hook = \<lparr>pstate = 0, paddress = 0\<rparr>, cps_count = 0, vbrk = 0\<rparr>"

text \<open>The zeroed descriptor of the source's \<^verbatim>\<open>alloc_binary\<close>, without its \<^verbatim>\<open>dbi_handler\<close>, which is allocated next.\<close>

definition calloc_binary :: "dbi_instr_t \<Rightarrow> mdata_binary_t" where
  "calloc_binary d = \<lparr>fbinary = [], len_file = 0, filename = [], fd = 0, s_ph = [], pie = False, interp = None, base = 0,
     memory_map = 0, dispatcher = 0, dbi_handler = d, exec_entry = 0\<rparr>"

definition alloc_binary :: "host_env \<Rightarrow> string \<Rightarrow> host_file \<Rightarrow> nat \<Rightarrow> mdata_binary_t" where
  "alloc_binary E name hf n = (calloc_binary (alloc_dbi E))\<lparr>fbinary := hf_data hf, len_file := of_nat (length (hf_data hf)), filename := name,
     fd := hf_fd hf, s_ph := alloc_ph n\<rparr>"

text \<open>
  The value \<open>None\<close> is the pointer \<open>-1\<close>.  The header is used (\<^verbatim>\<open>e_phnum\<close>) before the magic number is checked.
\<close>

definition init_analysis :: "kernel \<Rightarrow> host_env \<Rightarrow> string \<Rightarrow> mach \<Rightarrow> mdata_binary_t option run" where
  "init_analysis K E name s =
    (case host_open E name of
       None \<Rightarrow> retR None s
     | Some hf \<Rightarrow>
        if \<not> hf_stat hf then retR None s
        else case e_phnum (hf_data hf) of
          None \<Rightarrow> haltR Buffer_overrun s
        | Some n \<Rightarrow>
           let b = alloc_binary E name hf (unat n) in
           if \<not> cs_open_ok E then fatal_dump K (s\<lparr>s_binary := b\<rparr>)
           else if \<not> cs_malloc_ok E then retR None s
           else case is_elf (fbinary b) of
             None \<Rightarrow> haltR Buffer_overrun s
           | Some False \<Rightarrow> retR None s
           | Some True \<Rightarrow>
              case init_struct False True False (fbinary b) of
                None \<Rightarrow> haltR Buffer_overrun s
              | Some (r, phs, shs, names) \<Rightarrow>
                 if r = -1 then retR None s
                 else let b = b\<lparr>s_ph := phs\<rparr> in
                   case is_pie (s_ph b) (fbinary b) of
                     None \<Rightarrow> haltR Buffer_overrun s
                   | Some p \<Rightarrow> retR (Some (if p then b\<lparr>pie := True\<rparr> else b)) s)"

section \<open>Releasing it\<close>

text \<open>
  The objects \<^verbatim>\<open>end_analysis\<close> gives back, each tagged with the number of descriptors behind the one it belongs to:
  a descriptor, its linker, the linker's linker and so on are the list \<open>bs\<close>.  The value is the return
  code and the objects released, in order.
\<close>

datatype host_obj = O_sse | O_avx2 | O_avx512 | O_state | O_dump_code | O_restore_code | O_host_state
  | O_dump | O_restore | O_curr_hook | O_hashmap | O_cps_utils | O_dbi_handler | O_fbinary | O_s_ph
  | O_fd | O_binary

definition release_state :: "dbi_instr_t \<Rightarrow> host_obj list" where
  "release_state d =
     (if sse (state d) \<noteq> None then [O_sse] else []) @ (if avx2 (state d) \<noteq> None then [O_avx2] else []) @
     (if avx512 (state d) \<noteq> None then [O_avx512] else []) @ [O_state] @
     (if code (dump d) \<noteq> [] then [O_dump_code] else []) @ (if code (restore d) \<noteq> [] then [O_restore_code] else [])"

fun end_analysis :: "kernel \<Rightarrow> mdata_binary_t list \<Rightarrow> mach \<Rightarrow> (i32 \<times> (nat \<times> host_obj) list) run" where
  "end_analysis K [] s = retR (0, []) s"
| "end_analysis K (b # bs) s =
    (let d = dbi_handler b; tag = Pair (length bs); freed = map tag (release_state d) in
     bindR (munmap K (restore_stub d) LENGTH_STUB s) (\<lambda>r s.
       if r = -1 then retR (-1, freed) s else
     bindR (munmap K (dump_stub d) LENGTH_STUB s) (\<lambda>r s.
       if r = -1 then retR (-1, freed) s else
     bindR (munmap K (host_rsp d) 0x10000 s) (\<lambda>r s.
       if r = -1 then retR (-1, freed) s else
     let freed = freed @ map tag [O_host_state, O_dump, O_restore, O_curr_hook, O_hashmap, O_cps_utils,
                                  O_dbi_handler, O_fbinary, O_s_ph, O_fd] in
     bindR (end_analysis K bs s) (\<lambda>(_, inner) s.
       retR (0, freed @ inner @ [tag O_binary]) s)))))"

section \<open>Lemmas on fields\<close>

lemma fld_append: "length xs \<le> off \<Longrightarrow> fld (xs @ ys) off n = fld ys (off - length xs) n"
  by (auto simp: fld_def)

lemma fld_Cons: "0 < off \<Longrightarrow> fld (x # xs) off n = fld xs (off - 1) n"
  by (cases off) (simp_all add: fld_def)

lemma fld_here: "length xs = n \<Longrightarrow> fld (xs @ ys) 0 n = Some (le_val xs)"
  by (simp add: fld_def)

lemma fld_prefix: "off + n \<le> length xs \<Longrightarrow> fld (xs @ ys) off n = fld xs off n"
  by (simp add: fld_def)

lemma fld_None: "fld f off n = None \<longleftrightarrow> length f < off + n"
  by (auto simp: fld_def)

lemma le_val_small: "v < 2 ^ (8 * n) \<Longrightarrow> le_val (le_bytes n v) = v"
  by (simp add: le_val_le_bytes take_bit_eq_mod word_unat_eq_iff unat_mod word_less_nat_alt)

section \<open>Writing headers\<close>

text \<open>The bytes of an executable with its program headers directly behind the executable header.\<close>

record phdr =
  ph_type :: u64
  ph_flags :: u64
  ph_offset :: u64
  ph_vaddr :: u64
  ph_paddr :: u64
  ph_filesz :: u64
  ph_memsz :: u64
  ph_align :: u64

definition phdr_bytes :: "phdr \<Rightarrow> u8 list" where
  "phdr_bytes p = le_bytes 4 (ph_type p) @ le_bytes 4 (ph_flags p) @ le_bytes 8 (ph_offset p) @
     le_bytes 8 (ph_vaddr p) @ le_bytes 8 (ph_paddr p) @ le_bytes 8 (ph_filesz p) @ le_bytes 8 (ph_memsz p) @
     le_bytes 8 (ph_align p)"

definition phdr_ok :: "phdr \<Rightarrow> bool" where
  "phdr_ok p = (ph_type p < 2 ^ 32 \<and> ph_flags p < 2 ^ 32)"

text \<open>\<open>ident\<close> and \<open>sect\<close> are the bytes the loader does not read: the rest of \<^verbatim>\<open>e_ident\<close> and the section fields.\<close>

definition elf_image :: "u8 list \<Rightarrow> u64 \<Rightarrow> u64 \<Rightarrow> u64 \<Rightarrow> u8 list \<Rightarrow> phdr list \<Rightarrow> u8 list \<Rightarrow> elf_file" where
  "elf_image ident ty entry shoff sect phs tail =
     [0x7f, 0x45, 0x4c, 0x46] @ ident @ le_bytes 2 ty @ le_bytes 2 62 @ le_bytes 4 1 @ le_bytes 8 entry @
     le_bytes 8 64 @ le_bytes 8 shoff @ le_bytes 4 0 @ le_bytes 2 64 @ le_bytes 2 56 @
     le_bytes 2 (of_nat (length phs)) @ sect @ concat (map phdr_bytes phs) @ tail"

definition phdr_ptrs :: "nat \<Rightarrow> u64 list" where
  "phdr_ptrs n = map (\<lambda>i. 64 + 56 * of_nat i) [0..<n]"

lemma length_phdr_bytes [simp]: "length (phdr_bytes p) = 56"
  by (simp add: phdr_bytes_def)

lemma length_phdrs [simp]: "length (concat (map phdr_bytes phs)) = 56 * length phs"
  by (induction phs) simp_all

lemma small_count: "n < 2 ^ 16 \<Longrightarrow> (of_nat n :: u64) < 2 ^ 16"
  by (simp add: word_less_nat_alt unat_of_nat_64)

lemma image_header:
  assumes "length ident = 12" and "length sect = 6" and "ty < 2 ^ 16" and "length phs < 2 ^ 16"
    and f_def: "f = elf_image ident ty entry shoff sect phs tail"
  shows "is_elf f = Some True" "e_type f = Some ty" "e_entry f = Some entry" "e_phoff f = Some 64"
    "e_phentsize f = Some 56" "e_phnum f = Some (of_nat (length phs))" "e_shoff f = Some shoff"
proof -
  show "is_elf f = Some True"
    by (simp add: is_elf_def f_def elf_image_def fld_def)
  show "e_type f = Some ty" "e_entry f = Some entry" "e_phoff f = Some 64" "e_shoff f = Some shoff"
    "e_phentsize f = Some 56" "e_phnum f = Some (of_nat (length phs))"
    using assms(1-4) small_count [OF assms(4)]
    by (simp_all add: e_type_def e_entry_def e_phoff_def e_shoff_def e_phentsize_def e_phnum_def f_def elf_image_def
        fld_Cons fld_append fld_here le_val_small)
qed

lemma image_phdr:
  assumes "length ident = 12" and "length sect = 6" and "i < length phs" and "length phs < 2 ^ 16" and "off < 56"
    and "off + n \<le> 56"
  shows "fld (elf_image ident ty entry shoff sect phs tail) (unat (64 + 56 * of_nat i :: u64) + off) n = fld (phdr_bytes (phs ! i)) off n"
proof -
  have "unat (64 + 56 * of_nat i :: u64) = 64 + 56 * i"
    using assms(3,4) unat_of_nat_64 [of "64 + 56 * i"] by simp
  moreover have "concat (map phdr_bytes phs) = concat (map phdr_bytes (take i phs)) @ phdr_bytes (phs ! i) @
      concat (map phdr_bytes (drop (Suc i) phs))"
    using id_take_nth_drop [OF assms(3)] by (metis concat.simps(2) concat_append list.simps(9) map_append)
  moreover have "length (concat (map phdr_bytes (take i phs))) = 56 * i"
    using assms(3) by simp
  ultimately show ?thesis
    using assms(1,2,5,6) by (simp add: elf_image_def fld_Cons fld_append fld_prefix del: length_phdrs)
qed

lemma image_fields:
  assumes "length ident = 12" and "length sect = 6" and "i < length phs" and "length phs < 2 ^ 16" and "phdr_ok (phs ! i)"
    and f: "f = elf_image ident ty entry shoff sect phs tail" and p: "p = phdr_ptrs (length phs) ! i"
  shows "p_type f p = Some (ph_type (phs ! i))" "p_flags f p = Some (ph_flags (phs ! i))"
    "p_offset f p = Some (ph_offset (phs ! i))" "p_vaddr f p = Some (ph_vaddr (phs ! i))"
    "p_filesz f p = Some (ph_filesz (phs ! i))" "p_memsz f p = Some (ph_memsz (phs ! i))"
proof -
  have p': "p = 64 + 56 * of_nat i" using assms(3) p by (simp add: phdr_ptrs_def)
  note r = image_phdr [OF assms(1-4), of _ _ ty entry shoff tail, folded f p']
  note fields = phdr_bytes_def fld_append fld_here le_val_small
  show "p_type f p = Some (ph_type (phs ! i))"
    using r [of 0 4] assms(5) by (simp add: p_type_def fields phdr_ok_def)
  show "p_flags f p = Some (ph_flags (phs ! i))"
    using r [of 4 4] assms(5) by (simp add: p_flags_def fields phdr_ok_def)
  show "p_offset f p = Some (ph_offset (phs ! i))" using r [of 8 8] by (simp add: p_offset_def fields)
  show "p_vaddr f p = Some (ph_vaddr (phs ! i))" using r [of 16 8] by (simp add: p_vaddr_def fields)
  show "p_filesz f p = Some (ph_filesz (phs ! i))" using r [of 32 8] by (simp add: p_filesz_def fields)
  show "p_memsz f p = Some (ph_memsz (phs ! i))" using r [of 40 8] by (simp add: p_memsz_def fields)
qed

lemma image_parse:
  assumes "length ident = 12" and "length sect = 6" and "ty < 2 ^ 16" and "length phs < 2 ^ 16"
    and f: "f = elf_image ident ty entry shoff sect phs tail"
  shows "parse_phdr f = Some (phdr_ptrs (length phs))"
  using image_header [OF assms] assms(4) by (simp add: parse_phdr_def phdr_ptrs_def unat_of_nat_64)

section \<open>Searching the program headers\<close>

lemma search_pt_dyn_loop_find:
  "\<forall>i \<in> set is. i < length phs \<and> p_type f (phs ! i) = Some (t i) \<Longrightarrow>
   search_pt_dyn_loop phs f is = Some (map_option ((!) phs) (find (\<lambda>i. t i = PT_DYNAMIC) is))"
  by (induction "is") (auto simp: elem_def)

lemma search_base_addr_loop_min:
  "\<forall>i \<in> set is. i < length phs \<and> p_type f (phs ! i) = Some (t i) \<and> p_vaddr f (phs ! i) = Some (v i) \<Longrightarrow>
   search_base_addr_loop phs f mn is = Some (Min (insert mn (v ` {i \<in> set is. t i = PT_LOAD})))"
proof (induction "is" arbitrary: mn)
  case (Cons i "is")
  have s: "{j \<in> set (i # is). t j = PT_LOAD} = (if t i = PT_LOAD then insert i {j \<in> set is. t j = PT_LOAD} else {j \<in> set is. t j = PT_LOAD})"
    by auto
  have m: "Min (insert (if v i < mn then v i else mn) S) = Min (insert mn (insert (v i) S))" if "finite S" for S
    using that by (cases "S = {}") (auto simp: min_def Min_insert)
  have IH: "search_base_addr_loop phs f k is = Some (Min (insert k (v ` {j \<in> set is. t j = PT_LOAD})))" for k
    using Cons by simp
  have i: "i < length phs" "p_type f (phs ! i) = Some (t i)" "p_vaddr f (phs ! i) = Some (v i)" using Cons.prems by auto
  show ?case unfolding s by (simp add: elem_def i IH m del: Min_insert)
qed simp

section \<open>The magic number\<close>

lemma ucast_ucast_byte: "(ucast (ucast (b :: u8) :: u64) :: u8) = b"
  by (rule bit_word_eqI) (auto simp: bit_simps)

lemma ucast_byte_eq: "(ucast (b :: u8) :: u64) = ucast (c :: u8) \<longleftrightarrow> b = c"
  by (auto dest: arg_cong [where f = "ucast :: u64 \<Rightarrow> u8"] simp: ucast_ucast_byte)

lemma is_elf_magic:
  assumes "4 \<le> length f"
  shows "is_elf f = Some (take 4 f = [0x7f, 0x45, 0x4c, 0x46])"
proof -
  obtain a b c d r where f: "f = a # b # c # d # r"
    using assms by (auto simp: numeral_eq_Suc Suc_le_length_iff)
  show ?thesis
    using ucast_byte_eq [of a "0x7f"] ucast_byte_eq [of b "0x45"] ucast_byte_eq [of c "0x4c"] ucast_byte_eq [of d "0x46"]
    by (simp add: f is_elf_def fld_def)
qed

section \<open>Properties\<close>

definition one_vector :: "state_rtime_t \<Rightarrow> bool" where
  "one_vector st = ((sse st = None \<or> avx2 st = None) \<and> (sse st = None \<or> avx512 st = None) \<and> (avx2 st = None \<or> avx512 st = None))"

definition demo_phdrs :: "phdr list" where
  "demo_phdrs = [\<lparr>ph_type = 6, ph_flags = 4, ph_offset = 64, ph_vaddr = 0x400040, ph_paddr = 0, ph_filesz = 168, ph_memsz = 168, ph_align = 8\<rparr>,
     \<lparr>ph_type = 1, ph_flags = 5, ph_offset = 0, ph_vaddr = 0x400000, ph_paddr = 0, ph_filesz = 0x200, ph_memsz = 0x200, ph_align = 0x1000\<rparr>,
     \<lparr>ph_type = 2, ph_flags = 6, ph_offset = 0x200, ph_vaddr = 0x401000, ph_paddr = 0, ph_filesz = 8, ph_memsz = 16, ph_align = 8\<rparr>]"

definition demo_elf :: elf_file where
  "demo_elf = elf_image (replicate 12 0) 2 0x400100 0 (replicate 6 0) demo_phdrs []"

lemma demo_phdrs_ok: "length demo_phdrs = 3" "\<forall>p \<in> set demo_phdrs. phdr_ok p"
  by (simp_all add: demo_phdrs_def phdr_ok_def)

text \<open>
  C31: reading back what an ELF writer wrote: for any executable header and any list of fewer than 65536
  program headers laid out behind it, \<^verbatim>\<open>is_elf\<close> accepts the bytes, \<^verbatim>\<open>parse_phdr\<close> gives one pointer per program
  header, through which every field that the loader uses has the value that was written, \<^verbatim>\<open>is_pie\<close> says
  whether the type is \<^verbatim>\<open>ET_DYN\<close>, and the entry point is the one written.
\<close>

theorem elf_roundtrip:
  assumes "length ident = 12" and "length sect = 6" and "ty < 2 ^ 16" and "length phs < 2 ^ 16"
    and "\<forall>p \<in> set phs. phdr_ok p" and "f = elf_image ident ty entry shoff sect phs tail"
  shows "is_elf f = Some True \<and> e_entry f = Some entry \<and> is_pie ptrs f = Some (ty = ET_DYN) \<and>
    (\<exists>ptrs. parse_phdr f = Some ptrs \<and> length ptrs = length phs \<and>
      (\<forall>i < length phs. p_type f (ptrs ! i) = Some (ph_type (phs ! i)) \<and> p_flags f (ptrs ! i) = Some (ph_flags (phs ! i)) \<and>
        p_offset f (ptrs ! i) = Some (ph_offset (phs ! i)) \<and> p_vaddr f (ptrs ! i) = Some (ph_vaddr (phs ! i)) \<and>
        p_filesz f (ptrs ! i) = Some (ph_filesz (phs ! i)) \<and> p_memsz f (ptrs ! i) = Some (ph_memsz (phs ! i))))"
proof -
  note h = image_header [OF assms(1-4,6)]
  have "length (phdr_ptrs (length phs)) = length phs" by (simp add: phdr_ptrs_def)
  then show ?thesis
    using h image_parse [OF assms(1-4,6)] image_fields [OF assms(1,2) _ assms(4) _ assms(6) refl] assms(5)
    by (simp add: is_pie_def)
qed

lemma elf_roundtrip_witness:
  "\<exists>ptrs. parse_phdr demo_elf = Some ptrs \<and> p_vaddr demo_elf (ptrs ! 2) = Some 0x401000"
  using elf_roundtrip [OF _ _ _ _ demo_phdrs_ok(2) demo_elf_def] demo_phdrs_ok(1)
  by (fastforce simp: demo_phdrs_def)

text \<open>
  C32: \<^verbatim>\<open>search_pt_dyn\<close> returns the pointer of the first \<^verbatim>\<open>PT_DYNAMIC\<close> header and 0 if there is none;
  \<^verbatim>\<open>search_base_addr\<close> returns the least address among the \<^verbatim>\<open>PT_LOAD\<close> headers and the first header, of whatever
  type that is.
\<close>

theorem phdr_searches:
  assumes "length ident = 12" and "length sect = 6" and "ty < 2 ^ 16" and "length phs < 2 ^ 16"
    and "\<forall>p \<in> set phs. phdr_ok p" and "f = elf_image ident ty entry shoff sect phs tail" and "parse_phdr f = Some ptrs"
  shows "search_pt_dyn ptrs f = Some (map_option ((!) ptrs) (find (\<lambda>i. ph_type (phs ! i) = PT_DYNAMIC) [0..<length phs])) \<and>
    (phs \<noteq> [] \<longrightarrow> search_base_addr ptrs f =
      Some (Min (insert (ph_vaddr (hd phs)) (ph_vaddr ` {p \<in> set phs. ph_type p = PT_LOAD}))))"
proof -
  have ptrs: "ptrs = phdr_ptrs (length phs)" and len: "length ptrs = length phs"
    using image_parse [OF assms(1-4,6)] assms(7) by (simp_all add: phdr_ptrs_def)
  note fl = image_fields [OF assms(1,2) _ assms(4) _ assms(6) refl, folded ptrs]
  have n: "e_phnum f = Some (of_nat (length phs))" "unat (of_nat (length phs) :: u64) = length phs"
    using image_header [OF assms(1-4,6)] assms(4) by (simp_all add: unat_of_nat_64)
  have t: "\<forall>i \<in> set [0..<length phs]. i < length ptrs \<and> p_type f (ptrs ! i) = Some (ph_type (phs ! i)) \<and>
      p_vaddr f (ptrs ! i) = Some (ph_vaddr (phs ! i))"
    using fl assms(5) by (simp add: len)
  have "search_pt_dyn ptrs f = Some (map_option ((!) ptrs) (find (\<lambda>i. ph_type (phs ! i) = PT_DYNAMIC) [0..<length phs]))"
    using search_pt_dyn_loop_find [of "[0..<length phs]" ptrs f "\<lambda>i. ph_type (phs ! i)"] t by (simp add: search_pt_dyn_def n)
  moreover have "search_base_addr ptrs f =
      Some (Min (insert (ph_vaddr (hd phs)) (ph_vaddr ` {p \<in> set phs. ph_type p = PT_LOAD})))" if "phs \<noteq> []"
  proof -
    have "(\<lambda>i. ph_vaddr (phs ! i)) ` {i \<in> {0..<length phs}. ph_type (phs ! i) = PT_LOAD} = ph_vaddr ` {p \<in> set phs. ph_type p = PT_LOAD}"
      by (auto simp: image_iff in_set_conv_nth)
    moreover have "p_vaddr f (ptrs ! 0) = Some (ph_vaddr (hd phs))"
      using fl [of 0] assms(5) that by (simp add: hd_conv_nth)
    ultimately show ?thesis
      using search_base_addr_loop_min [OF t] that by (simp add: search_base_addr_def n elem_def len)
  qed
  ultimately show ?thesis by blast
qed

lemma phdr_searches_witness: "search_base_addr (phdr_ptrs 3) demo_elf = Some 0x400000"
proof -
  have "parse_phdr demo_elf = Some (phdr_ptrs 3)"
    using image_parse [OF _ _ _ _ demo_elf_def] demo_phdrs_ok(1) by simp
  then have "search_base_addr (phdr_ptrs 3) demo_elf =
      Some (Min (insert (ph_vaddr (hd demo_phdrs)) (ph_vaddr ` {p \<in> set demo_phdrs. ph_type p = PT_LOAD})))"
    using phdr_searches [OF _ _ _ _ demo_phdrs_ok(2) demo_elf_def] demo_phdrs_ok(1) by fastforce
  moreover have "{p \<in> set demo_phdrs. ph_type p = PT_LOAD} = {demo_phdrs ! 1}" by (auto simp: demo_phdrs_def)
  ultimately show ?thesis by (simp add: demo_phdrs_def)
qed

lemma init_analysis_builds:
  assumes "host_open E name = Some hf" "hf_stat hf" "cs_open_ok E" "cs_malloc_ok E" and "is_elf (hf_data hf) = Some True"
    and "e_phnum (hf_data hf) = Some n" "parse_phdr (hf_data hf) = Some phs" "e_type (hf_data hf) = Some ty"
  shows "init_analysis K E name s = Inr (Some ((alloc_binary E name hf (unat n))\<lparr>s_ph := phs, pie := (ty = ET_DYN)\<rparr>), s)"
  using assms by (simp add: init_analysis_def retR_def alloc_binary_def calloc_binary_def Let_def init_struct_def is_pie_def)

text \<open>
  C33: the outcomes of \<^verbatim>\<open>init_analysis\<close> on a file that can be opened: fewer than 58 bytes and the header is read past the
  end of the buffer, before the magic number is looked at; otherwise a wrong magic number gives \<open>-1\<close>, and
  every other file a descriptor of these bytes with its program header pointers, position independent
  exactly when the type says so, nothing mapped yet, all guest registers 0, the register map set up, and at
  most one kind of vector state.  The process is otherwise unchanged; a file that cannot be opened gives \<open>-1\<close>.
\<close>

theorem init_analysis_outcomes:
  assumes "cs_open_ok E" and "cs_malloc_ok E"
  shows "(host_open E name = None \<longrightarrow> init_analysis K E name s = Inr (None, s)) \<and>
    (\<forall>hf. host_open E name = Some hf \<and> hf_stat hf \<longrightarrow>
      (length (hf_data hf) < 58 \<longrightarrow> init_analysis K E name s = Inl (Buffer_overrun, s)) \<and>
      (58 \<le> length (hf_data hf) \<and> take 4 (hf_data hf) \<noteq> [0x7f, 0x45, 0x4c, 0x46] \<longrightarrow> init_analysis K E name s = Inr (None, s)) \<and>
      (58 \<le> length (hf_data hf) \<and> take 4 (hf_data hf) = [0x7f, 0x45, 0x4c, 0x46] \<longrightarrow>
        (\<exists>b. init_analysis K E name s = Inr (Some b, s) \<and> fbinary b = hf_data hf \<and> fd b = hf_fd hf \<and>
          parse_phdr (hf_data hf) = Some (s_ph b) \<and>
          (pie b \<longleftrightarrow> e_type (hf_data hf) = Some ET_DYN) \<and> interp b = None \<and> base b = 0 \<and> memory_map b = 0 \<and>
          (\<forall>sl. get_slot sl (state (dbi_handler b)) = 0) \<and> hashmap (dbi_handler b) = init_hashmap \<and>
          one_vector (state (dbi_handler b)))))"
proof -
  have v: "one_vector (alloc_state E)" by (simp add: alloc_state_def calloc_state_def one_vector_def)
  have z: "get_slot sl (alloc_state E) = 0" for sl by (cases sl) (simp_all add: alloc_state_def calloc_state_def)
  show ?thesis
  proof (intro conjI allI impI)
    show "init_analysis K E name s = Inr (None, s)" if "host_open E name = None"
      using that by (simp add: init_analysis_def retR_def)
  next
    fix hf assume "host_open E name = Some hf \<and> hf_stat hf"
    then have o: "host_open E name = Some hf" "hf_stat hf" by auto
    { assume "length (hf_data hf) < 58"
      then show "init_analysis K E name s = Inl (Buffer_overrun, s)"
        using o by (simp add: init_analysis_def e_phnum_def fld_def haltR_def) }
    { assume "58 \<le> length (hf_data hf) \<and> take 4 (hf_data hf) \<noteq> [0x7f, 0x45, 0x4c, 0x46]"
      then show "init_analysis K E name s = Inr (None, s)"
        using o assms is_elf_magic [of "hf_data hf"]
        by (simp add: init_analysis_def e_phnum_def fld_def retR_def alloc_binary_def calloc_binary_def Let_def) }
    { assume l: "58 \<le> length (hf_data hf) \<and> take 4 (hf_data hf) = [0x7f, 0x45, 0x4c, 0x46]"
      then obtain n phs ty where d: "e_phnum (hf_data hf) = Some n" "parse_phdr (hf_data hf) = Some phs" "e_type (hf_data hf) = Some ty"
        by (simp add: parse_phdr_def e_phnum_def e_phoff_def e_phentsize_def e_type_def fld_def)
      have "init_analysis K E name s = Inr (Some ((alloc_binary E name hf (unat n))\<lparr>s_ph := phs, pie := (ty = ET_DYN)\<rparr>), s)"
        by (rule init_analysis_builds) (use o assms l d in \<open>simp_all add: is_elf_magic\<close>)
      then show "\<exists>b. init_analysis K E name s = Inr (Some b, s) \<and> fbinary b = hf_data hf \<and> fd b = hf_fd hf \<and>
          parse_phdr (hf_data hf) = Some (s_ph b) \<and>
          (pie b \<longleftrightarrow> e_type (hf_data hf) = Some ET_DYN) \<and> interp b = None \<and> base b = 0 \<and> memory_map b = 0 \<and>
          (\<forall>sl. get_slot sl (state (dbi_handler b)) = 0) \<and> hashmap (dbi_handler b) = init_hashmap \<and>
          one_vector (state (dbi_handler b))"
        using d v z by (simp add: alloc_binary_def calloc_binary_def alloc_dbi_def) }
  qed
qed

definition demo_env :: host_env where
  "demo_env = \<lparr>host_open = (\<lambda>name. if name = ''a.out'' then Some \<lparr>hf_fd = 3, hf_stat = True, hf_data = demo_elf\<rparr> else None),
     cpu_sse = True, cpu_avx2 = True, cpu_avx512f = False, fresh_sse = (\<lambda>_. 0), fresh_avx512 = (\<lambda>_. 0),
     cs_open_ok = True, cs_malloc_ok = True, urandom = (\<lambda>_. Some 0x1234567890)\<rparr>"

lemma init_analysis_outcomes_witness:
  "\<forall>K s. (\<exists>b. init_analysis K demo_env ''a.out'' s = Inr (Some b, s) \<and> fd b = 3) \<and> init_analysis K demo_env ''b.out'' s = Inr (None, s)"
proof (intro allI)
  fix K s
  have e: "cs_open_ok demo_env" "cs_malloc_ok demo_env" "host_open demo_env ''b.out'' = None"
    "host_open demo_env ''a.out'' = Some \<lparr>hf_fd = 3, hf_stat = True, hf_data = demo_elf\<rparr>"
    by (simp_all add: demo_env_def)
  have "58 \<le> length demo_elf" "take 4 demo_elf = [0x7f, 0x45, 0x4c, 0x46]" by (simp_all add: demo_elf_def elf_image_def demo_phdrs_def)
  then show "(\<exists>b. init_analysis K demo_env ''a.out'' s = Inr (Some b, s) \<and> fd b = 3) \<and> init_analysis K demo_env ''b.out'' s = Inr (None, s)"
    using init_analysis_outcomes [OF e(1,2), of "''b.out''" K s] init_analysis_outcomes [OF e(1,2), of "''a.out''" K s] e by auto
qed

text \<open>What belongs to a descriptor and is released with it.\<close>

fun owned :: "mdata_binary_t \<Rightarrow> host_obj \<Rightarrow> bool" where
  "owned b O_sse = (sse (state (dbi_handler b)) \<noteq> None)"
| "owned b O_avx2 = (avx2 (state (dbi_handler b)) \<noteq> None)"
| "owned b O_avx512 = (avx512 (state (dbi_handler b)) \<noteq> None)"
| "owned b O_dump_code = (code (dump (dbi_handler b)) \<noteq> [])"
| "owned b O_restore_code = (code (restore (dbi_handler b)) \<noteq> [])"
| "owned b ob = True"

definition munmap_works :: "kernel \<Rightarrow> bool" where
  "munmap_works K = (\<forall>tr a n m. k_ret (K tr (K_munmap a n) m) = 0)"

definition stub_munmaps :: "mdata_binary_t \<Rightarrow> kcall list" where
  "stub_munmaps b = [K_munmap (restore_stub (dbi_handler b)) LENGTH_STUB, K_munmap (dump_stub (dbi_handler b)) LENGTH_STUB,
     K_munmap (host_rsp (dbi_handler b)) 0x10000]"

lemma munmap_granted:
  "munmap_works K \<Longrightarrow> munmap K a n s =
     Inr (0, s\<lparr>mem := k_mem (K (ktrace s) (K_munmap a n) (mem s)), ktrace := ktrace s @ [K_munmap a n]\<rparr>)"
  by (simp add: munmap_def libc_call_shape munmap_works_def libc_ret_def retR_def)



end
