(* ===== verification/Guest_Stack.thy ===== *)
theory Guest_Stack
  imports Elf_Parsing Guest_Memory
begin

unbundle bit_operations_syntax

text \<open>
  The initial stack of the guest (\<^verbatim>\<open>src/core_mapper.c\<close>, \<^verbatim>\<open>map_stack\<close> to \<^verbatim>\<open>setup_stack\<close>, and \<^verbatim>\<open>add_auxvt\<close> of
  \<^verbatim>\<open>src/elf_parsing.c\<close>).  Arrays of \<^verbatim>\<open>uint64_t\<close> are read and written in the memory of the process; the loops that run
  up to a null word take fuel.  The main theorem gives the stack word by word: argument count, arguments,
  environment and auxiliary vector as the guest's start code expects them.
\<close>

section \<open>Arrays of words\<close>

definition word_at :: "memory \<Rightarrow> u64 \<Rightarrow> nat \<Rightarrow> u64" where
  "word_at m a i = read64 m (a + 8 * of_nat i)"

definition put_word :: "u64 \<Rightarrow> nat \<Rightarrow> u64 \<Rightarrow> memory \<Rightarrow> memory" where
  "put_word a i v m = write64 m (a + 8 * of_nat i) v"

text \<open>
  What the clients below use of an array: up to \<open>cap\<close> elements, a store changes one of them.
\<close>

locale word_store =
  fixes get :: "'m \<Rightarrow> nat \<Rightarrow> 'v" and put :: "nat \<Rightarrow> 'v \<Rightarrow> 'm \<Rightarrow> 'm" and cap :: nat
  assumes get_put: "i < cap \<Longrightarrow> j < cap \<Longrightarrow> get (put i v m) j = (if i = j then v else get m j)"
begin

fun puts :: "nat \<Rightarrow> 'v list \<Rightarrow> 'm \<Rightarrow> 'm" where
  "puts i [] m = m"
| "puts i (v # vs) m = puts (Suc i) vs (put i v m)"

lemma get_puts:
  "i + length vs \<le> cap \<Longrightarrow> j < cap \<Longrightarrow>
   get (puts i vs m) j = (if i \<le> j \<and> j < i + length vs then vs ! (j - i) else get m j)"
proof (induction vs arbitrary: i m)
  case (Cons v vs)
  then show ?case by (auto simp: get_put nth_Cons' not_less_eq_eq)
qed auto

lemma puts_append: "puts i (vs @ ws) m = puts (i + length vs) ws (puts i vs m)"
  by (induction vs arbitrary: i m) simp_all

text \<open>A block of stores at the end of what is there extends the contents.\<close>

lemma contents_extend:
  assumes "map (get m) [0..<i] = xs" and "i + length vs \<le> cap"
  shows "map (get (puts i vs m)) [0..<i + length vs] = xs @ vs"
proof (rule nth_equalityI)
  have l: "length xs = i" using assms(1) by auto
  then show "length (map (get (puts i vs m)) [0..<i + length vs]) = length (xs @ vs)" by simp
  fix k assume "k < length (map (get (puts i vs m)) [0..<i + length vs])"
  then have k: "k < i + length vs" by simp
  have "xs ! k = get m k" if "k < i" using assms(1) that by auto
  then show "map (get (puts i vs m)) [0..<i + length vs] ! k = (xs @ vs) ! k"
    using k assms(2) l by (auto simp: get_puts nth_append)
qed

end

lemma word_index_inj:
  assumes "i < 2 ^ 60" and "j < 2 ^ 60" and "t < 8" and "u < 8"
    and "a + 8 * of_nat j + of_nat t = a + 8 * of_nat i + (of_nat u :: u64)"
  shows "i = j"
proof -
  have "(of_nat (8 * j + t) :: u64) = of_nat (8 * i + u)" using assms(5) by (simp add: algebra_simps)
  then have "unat (of_nat (8 * j + t) :: u64) = unat (of_nat (8 * i + u) :: u64)" by (rule arg_cong)
  moreover have "8 * j + t < 2 ^ 64" "8 * i + u < 2 ^ 64" using assms(1-4) by auto
  ultimately have "8 * j + t = 8 * i + u" by (simp only: unat_of_nat_64)
  then show ?thesis using assms(3,4) by presburger
qed

lemma word_at_put_word:
  assumes "i < 2 ^ 60" and "j < 2 ^ 60"
  shows "word_at (put_word a i v m) a j = (if i = j then v else word_at m a j)"
proof (cases "i = j")
  case False
  have "read64 (write64 m (a + 8 * of_nat i) v) (a + 8 * of_nat j) = read64 m (a + 8 * of_nat j)"
  proof (rule read64_cong)
    fix t :: nat assume t: "t < 8"
    let ?x = "a + 8 * of_nat j + of_nat t"
    have "\<not> unat (?x - (a + 8 * of_nat i)) < 8"
    proof
      assume u: "unat (?x - (a + 8 * of_nat i)) < 8"
      have "?x = a + 8 * of_nat i + of_nat (unat (?x - (a + 8 * of_nat i)))" by simp
      from word_index_inj [OF assms t u this] False show False by simp
    qed
    then show "write64 m (a + 8 * of_nat i) v ?x = m ?x" by (simp add: write64_def write_bytes_outside)
  qed
  then show ?thesis using False by (simp add: word_at_def put_word_def)
qed (simp add: word_at_def put_word_def)

interpretation ws: word_store "\<lambda>m. word_at m a" "put_word a" "2 ^ 60" for a
  by unfold_locales (rule word_at_put_word)

lemma put_word_twice: "put_word a i v (put_word a i w m) = put_word a i v m"
  by (simp add: put_word_def write64_def write_write_same)

text \<open>Two ranges of words with no byte in common.\<close>

definition apart :: "u64 \<Rightarrow> nat \<Rightarrow> u64 \<Rightarrow> nat \<Rightarrow> bool" where
  "apart a n b k = (\<forall>x. unat (x - a) < 8 * n \<longrightarrow> \<not> unat (x - b) < 8 * k)"

lemma unat_word_offset: "j < 2 ^ 60 \<Longrightarrow> t < 8 \<Longrightarrow> unat (a + 8 * of_nat j + of_nat t - a :: u64) = 8 * j + t"
  using unat_of_nat_64 [of "8 * j + t"] by simp

lemma word_at_put_apart:
  assumes ap: "apart a n b k" and j: "j < n" "n \<le> 2 ^ 60" and i: "i < k" "k \<le> 2 ^ 60"
  shows "word_at (put_word b i v m) a j = word_at m a j"
  unfolding word_at_def put_word_def
proof (rule read64_cong)
  fix t :: nat assume t: "t < 8"
  let ?x = "a + 8 * of_nat j + of_nat t"
  have "unat (?x - a) < 8 * n" using j t by (subst unat_word_offset) auto
  then have nb: "\<not> unat (?x - b) < 8 * k" using ap by (simp add: apart_def)
  have "8 \<le> unat (?x - (b + 8 * of_nat i))"
  proof (rule ccontr)
    define u where "u = unat (?x - (b + 8 * of_nat i))"
    assume "\<not> 8 \<le> unat (?x - (b + 8 * of_nat i))"
    then have u: "u < 8" by (simp add: u_def)
    have "?x = b + 8 * of_nat i + of_nat u" by (simp add: u_def)
    then have "unat (?x - b) = 8 * i + u" using unat_word_offset [of i u b] i u by simp
    with nb i u show False by simp
  qed
  then show "write64 m (b + 8 * of_nat i) v ?x = m ?x" by (simp add: write64_def write_bytes_outside)
qed

lemma word_at_puts_apart:
  assumes "apart a n b k" and "j < n" "n \<le> 2 ^ 60" and "i + length vs \<le> k" "k \<le> 2 ^ 60"
  shows "word_at (ws.puts b i vs m) a j = word_at m a j"
  using assms(4) by (induction vs arbitrary: i m) (simp_all add: word_at_put_apart [OF assms(1-3) _ assms(5)])

lemma word_at_shift: "word_at m (a + 8 * of_nat k) i = word_at m a (k + i)"
  by (simp add: word_at_def algebra_simps)

lemma put_word_shift: "put_word (a + 8 * of_nat k) i v m = put_word a (k + i) v m"
  by (simp add: put_word_def algebra_simps)

lemma puts_shift: "ws.puts (a + 8 * of_nat k) i vs m = ws.puts a (k + i) vs m"
  by (induction vs arbitrary: i m) (simp_all add: put_word_shift)

section \<open>The code\<close>

definition map_stack :: "kernel \<Rightarrow> mach \<Rightarrow> u64 run" where
  "map_stack K s =
     bindR (mmap K 0 STACK_SZ (PROT_READ OR PROT_WRITE) (MAP_PRIVATE OR MAP_ANONYMOUS OR MAP_STACK OR MAP_GROWSDOWN) (-1) 0 s)
       (\<lambda>r s. if r = -1 then retR (-1) s else retR (r + 8 * 0x5000) s)"

text \<open>The value \<open>None\<close> says that the fuel is used up; both functions otherwise return 0.\<close>

fun map_val :: "nat \<Rightarrow> u64 \<Rightarrow> u64 \<Rightarrow> nat \<Rightarrow> memory \<Rightarrow> memory option" where
  "map_val 0 arg stack i m = None"
| "map_val (Suc fuel) arg stack i m =
    (if word_at m arg i \<noteq> 0 then map_val fuel arg stack (Suc i) (put_word stack i (word_at m arg i) m) else Some m)"

fun map_auxvt :: "nat \<Rightarrow> u64 \<Rightarrow> u64 \<Rightarrow> nat \<Rightarrow> memory \<Rightarrow> memory option" where
  "map_auxvt 0 arg stack i m = None"
| "map_auxvt (Suc fuel) arg stack i m =
    (if word_at m arg i \<noteq> 0 \<or> word_at m arg (i + 1) \<noteq> 0
     then map_auxvt fuel arg stack (Suc i) (put_word stack i (word_at m arg i) m) else Some m)"

fun auxvt :: "nat \<Rightarrow> u64 \<Rightarrow> u64 \<Rightarrow> nat \<Rightarrow> memory \<Rightarrow> u64 option" where
  "auxvt 0 orig ident i m = None"
| "auxvt (Suc fuel) orig ident i m =
    (if word_at m orig i \<noteq> ident \<and> (word_at m orig i \<noteq> 0 \<or> word_at m orig (i + 1) \<noteq> 0)
     then auxvt fuel orig ident (Suc i) m else Some (word_at m orig (i + 1)))"

fun auxvt_end :: "nat \<Rightarrow> u64 \<Rightarrow> nat \<Rightarrow> memory \<Rightarrow> nat option" where
  "auxvt_end 0 aux i m = None"
| "auxvt_end (Suc fuel) aux i m =
    (if word_at m aux i \<noteq> 0 \<or> word_at m aux (i + 1) \<noteq> 0 then auxvt_end fuel aux (Suc i) m else Some i)"

definition add_auxvt :: "nat \<Rightarrow> u64 \<Rightarrow> u64 \<Rightarrow> u64 \<Rightarrow> memory \<Rightarrow> memory option" where
  "add_auxvt fuel ident aux v m =
    map_option (\<lambda>i. put_word aux (i + 1) v (put_word aux i ident m)) (auxvt_end fuel aux 0 m)"

text \<open>The loop \<^verbatim>\<open>for ( ; iter[idx]; idx++)\<close>.\<close>

fun skip_words :: "nat \<Rightarrow> u64 \<Rightarrow> nat \<Rightarrow> memory \<Rightarrow> nat option" where
  "skip_words 0 it i m = None"
| "skip_words (Suc fuel) it i m = (if word_at m it i \<noteq> 0 then skip_words fuel it (Suc i) m else Some i)"

definition AT_NULL :: u64 where [simp]: "AT_NULL = 0"
definition AT_EXECFD :: u64 where [simp]: "AT_EXECFD = 2"
definition AT_PHDR :: u64 where [simp]: "AT_PHDR = 3"
definition AT_PHENT :: u64 where [simp]: "AT_PHENT = 4"
definition AT_PHNUM :: u64 where [simp]: "AT_PHNUM = 5"
definition AT_PAGESZ :: u64 where [simp]: "AT_PAGESZ = 6"
definition AT_BASE :: u64 where [simp]: "AT_BASE = 7"
definition AT_ENTRY :: u64 where [simp]: "AT_ENTRY = 9"
definition AT_UID :: u64 where [simp]: "AT_UID = 11"
definition AT_EUID :: u64 where [simp]: "AT_EUID = 12"
definition AT_GID :: u64 where [simp]: "AT_GID = 13"
definition AT_EGID :: u64 where [simp]: "AT_EGID = 14"
definition AT_PLATFORM :: u64 where [simp]: "AT_PLATFORM = 15"
definition AT_SECURE :: u64 where [simp]: "AT_SECURE = 23"
definition AT_RANDOM :: u64 where [simp]: "AT_RANDOM = 25"
definition AT_EXECFN :: u64 where [simp]: "AT_EXECFN = 31"

text \<open>
  The entries \<^verbatim>\<open>setup_stack\<close> adds, in its order.  \<open>rnd\<close> and \<open>arch\<close> are the addresses of the globals
  \<^verbatim>\<open>_random\<close> and \<^verbatim>\<open>s_arch\<close>, \<open>fn\<close> is \<^verbatim>\<open>argv[1]\<close>.
\<close>

definition aux_entries :: "mdata_binary_t \<Rightarrow> u64 \<Rightarrow> u64 \<Rightarrow> u64 \<Rightarrow> (u64 \<times> u64) list option" where
  "aux_entries b rnd arch fn = do {
     entry \<leftarrow> e_entry (fbinary b);
     phent \<leftarrow> e_phentsize (fbinary b);
     phnum \<leftarrow> e_phnum (fbinary b);
     phoff \<leftarrow> e_phoff (fbinary b);
     Some [(AT_ENTRY, if pie b then base b + entry else entry),
       (AT_EXECFD, scast (fd b)),
       (AT_PHENT, phent),
       (AT_PHNUM, phnum),
       (AT_BASE, case interp b of None \<Rightarrow> base b | Some i \<Rightarrow> i_base i),
       (AT_RANDOM, rnd),
       (AT_PHDR, base b + phoff),
       (AT_PLATFORM, arch),
       (AT_EGID, 1000), (AT_EUID, 1000), (AT_GID, 1000), (AT_UID, 1000),
       (AT_PAGESZ, 0x1000),
       (AT_EXECFN, fn),
       (AT_SECURE, 0),
       (AT_NULL, 0)] }"

fun add_all :: "nat \<Rightarrow> u64 \<Rightarrow> (u64 \<times> u64) list \<Rightarrow> memory \<Rightarrow> memory option" where
  "add_all fuel aux [] m = Some m"
| "add_all fuel aux ((k, v) # ents) m = Option.bind (add_auxvt fuel k aux v m) (add_all fuel aux ents)"

text \<open>Everything after the mapping: the stores into the new stack.\<close>

definition fill_stack :: "nat \<Rightarrow> u64 \<Rightarrow> i32 \<Rightarrow> u64 \<Rightarrow> (u64 \<Rightarrow> (u64 \<times> u64) list) \<Rightarrow> memory \<Rightarrow> memory option" where
  "fill_stack fuel argv argc stack entries m = do {
     m \<leftarrow> map_val fuel (argv + 8) (stack + 8) 0 (put_word stack 0 (scast (argc - 1)) m);
     idx \<leftarrow> skip_words fuel argv 1 m;
     let idx = idx + 1;
     m \<leftarrow> map_val fuel (argv + 8 * of_nat idx) (stack + 8 * of_nat idx) 0 m;
     idx \<leftarrow> skip_words fuel argv idx m;
     let idx = idx + 1;
     add_all fuel (stack + 8 * of_nat idx) (entries (word_at m argv 1)) m }"

definition setup_stack :: "nat \<Rightarrow> kernel \<Rightarrow> u64 \<Rightarrow> i32 \<Rightarrow> u64 \<Rightarrow> u64 \<Rightarrow> mach \<Rightarrow> u64 run" where
  "setup_stack fuel K argv argc rnd arch s =
     bindR (map_stack K s) (\<lambda>stack s.
       if stack = -1 then retR (-1) s
       else
         let s = upd_guest (\<lambda>st. st\<lparr>rsp := stack\<rparr>) (upd_dbi (\<lambda>d. d\<lparr>base_guest_stack := stack - 0x200000\<rparr>) s) in
         case aux_entries (s_binary s) rnd arch 0 of
           None \<Rightarrow> haltR Buffer_overrun s
         | Some _ \<Rightarrow>
            (case fill_stack fuel argv argc stack (\<lambda>fn. the (aux_entries (s_binary s) rnd arch fn)) (mem s) of
               None \<Rightarrow> haltR Out_of_fuel s
             | Some m \<Rightarrow> retR stack (s\<lparr>mem := m\<rparr>)))"

section \<open>The loops\<close>

lemma map_val_puts:
  assumes "apart arg n st k" and "n \<le> 2 ^ 60" and "k \<le> 2 ^ 60"
    and "i + length xs < n" and "i + length xs \<le> k" and "length xs < fuel"
    and "\<forall>t < length xs. word_at m arg (i + t) = xs ! t" and "0 \<notin> set xs" and "word_at m arg (i + length xs) = 0"
  shows "map_val fuel arg st i m = Some (ws.puts st i xs m)"
  using assms(4-)
proof (induction xs arbitrary: i m fuel)
  case Nil
  then show ?case by (cases fuel) auto
next
  case (Cons x xs)
  obtain f where f: "fuel = Suc f" using Cons.prems(3) by (cases fuel) auto
  have x: "word_at m arg i = x" using Cons.prems(4) by force
  have keep: "word_at (put_word st i x m) arg j = word_at m arg j" if "j < n" for j
    using that Cons.prems(2) by (intro word_at_put_apart [OF assms(1) _ assms(2) _ assms(3)]) auto
  have "map_val f arg st (Suc i) (put_word st i x m) = Some (ws.puts st (Suc i) xs (put_word st i x m))"
  proof (rule Cons.IH)
    show "\<forall>t < length xs. word_at (put_word st i x m) arg (Suc i + t) = xs ! t"
    proof (intro allI impI)
      fix t assume t: "t < length xs"
      then have "word_at m arg (i + Suc t) = (x # xs) ! Suc t" using Cons.prems(4) by (metis Suc_less_eq length_Cons)
      then show "word_at (put_word st i x m) arg (Suc i + t) = xs ! t" using keep [of "Suc i + t"] t Cons.prems(1) by simp
    qed
    show "word_at (put_word st i x m) arg (Suc i + length xs) = 0" using keep Cons.prems(1,6) by simp
  qed (use Cons.prems f in auto)
  then show ?case using x Cons.prems(5) by (simp add: f)
qed

lemma skip_words_count:
  "\<forall>t < n. word_at m it (i + t) \<noteq> 0 \<Longrightarrow> word_at m it (i + n) = 0 \<Longrightarrow> n < fuel \<Longrightarrow> skip_words fuel it i m = Some (i + n)"
proof (induction n arbitrary: i fuel)
  case 0
  then show ?case by (cases fuel) auto
next
  case (Suc n)
  obtain f where f: "fuel = Suc f" using Suc.prems(3) by (cases fuel) auto
  have "word_at m it i \<noteq> 0" using Suc.prems(1) by force
  moreover have "skip_words f it (Suc i) m = Some (Suc i + n)"
    by (rule Suc.IH) (use Suc.prems f in \<open>auto simp flip: add_Suc_right\<close>)
  ultimately show ?case by (simp add: f)
qed

lemma auxvt_end_count:
  "\<forall>t < n. word_at m aux (i + t) \<noteq> 0 \<or> word_at m aux (i + t + 1) \<noteq> 0 \<Longrightarrow> word_at m aux (i + n) = 0 \<Longrightarrow>
   word_at m aux (i + n + 1) = 0 \<Longrightarrow> n < fuel \<Longrightarrow> auxvt_end fuel aux i m = Some (i + n)"
proof (induction n arbitrary: i fuel)
  case 0
  then show ?case by (cases fuel) auto
next
  case (Suc n)
  obtain f where f: "fuel = Suc f" using Suc.prems(4) by (cases fuel) auto
  have "word_at m aux i \<noteq> 0 \<or> word_at m aux (i + 1) \<noteq> 0" using Suc.prems(1) by force
  moreover have "auxvt_end f aux (Suc i) m = Some (Suc i + n)"
    by (rule Suc.IH) (use Suc.prems f in \<open>auto simp flip: add_Suc_right\<close>)
  ultimately show ?case by (auto simp: f)
qed

section \<open>The auxiliary vector\<close>

definition flat :: "(u64 \<times> u64) list \<Rightarrow> u64 list" where
  "flat ents = concat (map (\<lambda>(k, v). [k, v]) ents)"

lemma flat_simps [simp]: "flat [] = []" "flat ((k, v) # ents) = k # v # flat ents" "flat (ents @ ents') = flat ents @ flat ents'"
  by (simp_all add: flat_def)

lemma length_flat [simp]: "length (flat ents) = 2 * length ents"
  by (induction ents) auto

text \<open>The first \<open>i\<close> words are in use, the following ones up to \<open>n\<close> are 0.\<close>

definition used :: "memory \<Rightarrow> u64 \<Rightarrow> nat \<Rightarrow> nat \<Rightarrow> bool" where
  "used m aux i n = ((\<forall>t < i. word_at m aux t \<noteq> 0) \<and> (\<forall>t. i \<le> t \<and> t < n \<longrightarrow> word_at m aux t = 0))"

lemma add_auxvt_used:
  assumes "used m aux i n" and "i + 2 \<le> n" and "i < fuel"
  shows "add_auxvt fuel k aux v m = Some (ws.puts aux i [k, v] m)"
proof -
  have "auxvt_end fuel aux 0 m = Some (0 + i)"
    by (rule auxvt_end_count) (use assms in \<open>auto simp: used_def\<close>)
  then show ?thesis by (simp add: add_auxvt_def)
qed

lemma used_puts:
  assumes "used m aux i n" and "i + length vs \<le> n" and "0 \<notin> set vs" and "n \<le> 2 ^ 60"
  shows "used (ws.puts aux i vs m) aux (i + length vs) n"
  unfolding used_def
proof (intro conjI allI impI)
  fix t assume t: "t < i + length vs"
  then have "word_at (ws.puts aux i vs m) aux t = (if i \<le> t then vs ! (t - i) else word_at m aux t)"
    using assms(2,4) by (subst ws.get_puts) auto
  moreover have "vs ! (t - i) \<noteq> 0" if "i \<le> t"
    using that t assms(3) nth_mem [of "t - i" vs] by (metis less_diff_conv2 add.commute)
  ultimately show "word_at (ws.puts aux i vs m) aux t \<noteq> 0" using assms(1) by (auto simp: used_def)
next
  fix t assume t: "i + length vs \<le> t \<and> t < n"
  then have "word_at (ws.puts aux i vs m) aux t = word_at m aux t"
    using assms(2,4) by (subst ws.get_puts) auto
  then show "word_at (ws.puts aux i vs m) aux t = 0" using assms(1) t by (simp add: used_def)
qed

lemma add_all_used:
  assumes "used m aux i n" and "i + 2 * length ents + 2 \<le> n" and "n \<le> fuel" and "n \<le> 2 ^ 60" and "0 \<notin> set (flat ents)"
  shows "add_all fuel aux (ents @ rest) m = add_all fuel aux rest (ws.puts aux i (flat ents) m)"
  using assms(1,2,5)
proof (induction ents arbitrary: i m)
  case (Cons e ents)
  obtain k v where e: "e = (k, v)" by fastforce
  have "used (ws.puts aux i [k, v] m) aux (i + length [k, v]) n"
    by (rule used_puts) (use Cons.prems assms(4) e in auto)
  then have "add_all fuel aux (ents @ rest) (ws.puts aux i [k, v] m) = add_all fuel aux rest (ws.puts aux (i + 2) (flat ents) (ws.puts aux i [k, v] m))"
    by (intro Cons.IH) (use Cons.prems e in auto)
  then show ?case
    using add_auxvt_used [OF Cons.prems(1), of fuel k v] Cons.prems(2) assms(3) by (simp add: e)
qed simp

text \<open>
  The last two entries: the value 0 of \<^verbatim>\<open>AT_SECURE\<close> is taken for the end, so \<^verbatim>\<open>AT_NULL\<close> is written one word early, over zeros.
\<close>

lemma add_secure_null:
  assumes "used m aux i n" and "i + 4 \<le> n" and "n \<le> fuel" and "n \<le> 2 ^ 60"
  shows "add_all fuel aux [(AT_SECURE, 0), (AT_NULL, 0)] m = Some (ws.puts aux i [AT_SECURE, 0, 0] m)"
proof -
  let ?m = "ws.puts aux i [AT_SECURE, 0] m"
  have g: "word_at ?m aux t = (if t = i then AT_SECURE else if t = i + 1 then 0 else word_at m aux t)" if "t < n" for t
    using that assms(2,4) by (subst ws.get_puts) (auto simp: nth_Cons')
  have "auxvt_end fuel aux 0 ?m = Some (0 + (i + 1))"
    by (rule auxvt_end_count) (use assms g in \<open>auto simp: used_def\<close>)
  then have "add_auxvt fuel AT_NULL aux 0 ?m = Some (put_word aux (i + 2) 0 (put_word aux (i + 1) 0 ?m))"
    by (simp only: add_auxvt_def) simp
  moreover have "add_auxvt fuel AT_SECURE aux 0 m = Some ?m"
    using add_auxvt_used [OF assms(1)] assms(2,3) by simp
  ultimately have "add_all fuel aux [(AT_SECURE, 0), (AT_NULL, 0)] m = Some (put_word aux (i + 2) 0 (put_word aux (i + 1) 0 ?m))"
    by (simp only: add_all.simps Option.bind_lunit)
  then show ?thesis by (simp add: put_word_twice)
qed

text \<open>The words of the finished stack.\<close>

definition stack_words :: "i32 \<Rightarrow> u64 list \<Rightarrow> u64 list \<Rightarrow> (u64 \<times> u64) list \<Rightarrow> u64 list" where
  "stack_words argc args envs ents = scast (argc - 1) # tl args @ [0] @ envs @ [0] @ flat ents"

lemma map_val_shift: "map_val fuel (arg + 8 * of_nat p) (st + 8 * of_nat p) i m = map_val fuel arg st (p + i) m"
  by (induction fuel arbitrary: i m) (simp_all add: word_at_shift put_word_shift)

lemma puts_outside:
  assumes "\<not> unat (x - a) < 8 * n" and "n \<le> 2 ^ 60" and "i + length vs \<le> n"
  shows "ws.puts a i vs m x = m x"
  using assms(3)
proof (induction vs arbitrary: i m)
  case (Cons v vs)
  have "8 \<le> unat (x - (a + 8 * of_nat i))"
  proof (rule ccontr)
    define u where "u = unat (x - (a + 8 * of_nat i))"
    assume "\<not> 8 \<le> unat (x - (a + 8 * of_nat i))"
    then have u: "u < 8" by (simp add: u_def)
    have "x = a + 8 * of_nat i + of_nat u" by (simp add: u_def)
    then have "unat (x - a) = 8 * i + u" using unat_word_offset [of i u a] Cons.prems assms(2) u by simp
    with assms(1) Cons.prems u show False by simp
  qed
  then have "put_word a i v m x = m x" by (simp add: put_word_def write64_def write_bytes_outside)
  then show ?case using Cons by simp
qed simp

text \<open>The whole auxiliary vector: entries without a zero word, then \<^verbatim>\<open>AT_SECURE\<close> and \<^verbatim>\<open>AT_NULL\<close>, which together take three words.\<close>

lemma add_all_vector:
  assumes u: "used m aux 0 n" and n: "2 * length nz + 4 \<le> n" "n \<le> 2 ^ 60" "n \<le> fuel" and nz: "0 \<notin> set (flat nz)"
  shows "add_all fuel aux (nz @ [(AT_SECURE, 0), (AT_NULL, 0)]) m = Some (ws.puts aux 0 (flat nz @ [AT_SECURE, 0, 0]) m)"
proof -
  have "add_all fuel aux (nz @ [(AT_SECURE, 0), (AT_NULL, 0)]) m = add_all fuel aux [(AT_SECURE, 0), (AT_NULL, 0)] (ws.puts aux 0 (flat nz) m)"
    by (rule add_all_used [OF u]) (use n nz in auto)
  also have "\<dots> = Some (ws.puts aux (2 * length nz) [AT_SECURE, 0, 0] (ws.puts aux 0 (flat nz) m))"
  proof (rule add_secure_null)
    show "used (ws.puts aux 0 (flat nz) m) aux (2 * length nz) n" using used_puts [OF u, of "flat nz"] nz n by simp
  qed (use n in auto)
  finally show ?thesis by (simp add: ws.puts_append)
qed

text \<open>The words of the argument block: the arguments and the environment, each followed by a zero.\<close>

lemma argv_words:
  fixes args envs :: "u64 list"
  assumes "map (word_at m argv) [0..<length args + length envs + 2] = args @ [0] @ envs @ [0]"
  shows "t < length args + length envs + 2 \<Longrightarrow> word_at m argv t = (args @ [0] @ envs @ [0]) ! t"
  using arg_cong [OF assms, of "\<lambda>xs. xs ! t"] by (simp del: upt_Suc)

lemma fill_stack_runs:
  fixes args envs :: "u64 list"
  defines "L \<equiv> length args" and "M \<equiv> length envs"
  assumes args: "2 \<le> length args" "0 \<notin> set args" "0 \<notin> set envs"
    and argv: "map (word_at m argv) [0..<length args + length envs + 2] = args @ [0] @ envs @ [0]"
    and ap: "apart argv (length args + length envs + 2) stack n"
    and zero: "\<forall>t < n. word_at m stack t = 0"
    and n: "length args + length envs + 2 + 2 * length nz + 4 \<le> n" "n \<le> 2 ^ 60" "n \<le> fuel"
    and nz: "entries (args ! 1) = nz @ [(AT_SECURE, 0), (AT_NULL, 0)]" "0 \<notin> set (flat nz)"
  shows "fill_stack fuel argv argc stack entries m =
    Some (ws.puts stack (L + M + 2) (flat nz @ [AT_SECURE, 0, 0]) (ws.puts stack (L + 1) envs (ws.puts stack 0 (scast (argc - 1) # tl args) m)))"
proof -
  define av where "av = args @ [0] @ envs @ [0]"
  have n': "L + M + 2 \<le> 2 ^ 60" using n by (simp add: L_def M_def)
  have at: "word_at m argv t = av ! t" if "t < L + M + 2" for t
    using argv_words [OF argv] that by (simp only: av_def L_def M_def)
  have keep: "word_at (ws.puts stack i vs k) argv t = word_at k argv t" if "t < L + M + 2" "i + length vs \<le> n" for t i vs k
    using word_at_puts_apart [OF ap, of t i vs k] that n' n(2) by (simp add: L_def M_def)
  define m1 where "m1 = ws.puts stack 0 [scast (argc - 1)] m"
  define m2 where "m2 = ws.puts stack 1 (tl args) m1"
  define m3 where "m3 = ws.puts stack (L + 1) envs m2"
  have lens: "length (tl args) = L - 1" "L \<ge> 2" "L + M + 2 < n" using args n by (simp_all add: L_def M_def)
  have a1: "word_at m1 argv t = av ! t" if "t < L + M + 2" for t using keep [OF that] at [OF that] lens by (simp add: m1_def del: ws.puts.simps)
  have a2: "word_at m2 argv t = av ! t" if "t < L + M + 2" for t using keep [OF that] a1 [OF that] lens by (simp add: m2_def)
  have a3: "word_at m3 argv t = av ! t" if "t < L + M + 2" for t using keep [OF that] a2 [OF that] lens by (simp add: m3_def M_def)
  have avs: "av ! t = args ! t" if "t < L" for t using that by (simp add: av_def nth_append L_def)
  have avL: "av ! L = 0" by (simp add: av_def nth_append L_def)
  have ave: "av ! (L + 1 + t) = envs ! t" if "t < M" for t using that by (simp add: av_def nth_append L_def M_def)
  have avM: "av ! (L + 1 + M) = 0" by (simp add: av_def nth_append L_def M_def)
  have "map_val fuel argv stack 1 m1 = Some m2"
    unfolding m2_def
  proof (rule map_val_puts [OF ap])
    show "\<forall>t < length (tl args). word_at m1 argv (1 + t) = tl args ! t"
      using a1 avs lens by (auto simp: nth_tl)
    show "0 \<notin> set (tl args)" using args(2) by (cases args) auto
    show "word_at m1 argv (1 + length (tl args)) = 0" using a1 [of L] avL lens by simp
  qed (use lens n n' in \<open>auto simp: L_def M_def\<close>)
  then have s1: "map_val fuel (argv + 8) (stack + 8) 0 (put_word stack 0 (scast (argc - 1)) m) = Some m2"
    using map_val_shift [of fuel argv 1 stack 0] by (simp add: m1_def)
  have nz_args: "args ! t \<noteq> 0" if "t < L" for t using args(2) that unfolding L_def by (metis nth_mem)
  have "skip_words fuel argv 1 m2 = Some (1 + (L - 1))"
    by (rule skip_words_count) (use a2 avs avL nz_args lens n in \<open>auto\<close>)
  then have s2: "skip_words fuel argv 1 m2 = Some L" using lens by simp
  have "map_val fuel argv stack (L + 1) m2 = Some m3"
    unfolding m3_def
    by (rule map_val_puts [OF ap]) (use a2 ave avM args lens n n' in \<open>auto simp: L_def M_def\<close>)
  then have s3: "map_val fuel (argv + 8 * of_nat (L + 1)) (stack + 8 * of_nat (L + 1)) 0 m2 = Some m3"
    using map_val_shift [of fuel argv "L + 1" stack 0] by simp
  have nz_envs: "envs ! t \<noteq> 0" if "t < M" for t using args(3) that unfolding M_def by (metis nth_mem)
  have s4: "skip_words fuel argv (L + 1) m3 = Some (L + 1 + M)"
    by (rule skip_words_count) (use a3 ave avM nz_envs lens n in \<open>auto\<close>)
  define aux where "aux = stack + 8 * of_nat (L + M + 2)"
  have m3: "m3 = ws.puts stack (L + 1) envs (ws.puts stack 0 (scast (argc - 1) # tl args) m)"
    by (simp add: m3_def m2_def m1_def)
  have used: "used m3 aux 0 (n - (L + M + 2))"
    unfolding used_def
  proof (intro conjI allI impI)
    fix t assume t: "0 \<le> t \<and> t < n - (L + M + 2)"
    then have "word_at m3 stack (L + M + 2 + t) = word_at m stack (L + M + 2 + t)"
      unfolding m3 using lens n by (simp add: ws.get_puts M_def del: ws.puts.simps)
    then show "word_at m3 aux t = 0" using zero t unfolding aux_def word_at_shift by simp
  qed simp
  have fn: "word_at m3 argv 1 = args ! 1" using a3 [of 1] avs [of 1] lens by simp
  have "add_all fuel aux (entries (args ! 1)) m3 = Some (ws.puts aux 0 (flat nz @ [AT_SECURE, 0, 0]) m3)"
    unfolding nz(1) by (rule add_all_vector [OF used]) (use n nz(2) in \<open>auto simp: L_def M_def\<close>)
  then have s5: "add_all fuel aux (entries (args ! 1)) m3 = Some (ws.puts stack (L + M + 2) (flat nz @ [AT_SECURE, 0, 0]) m3)"
    unfolding aux_def puts_shift by simp
  show ?thesis
    unfolding m3 [symmetric] fill_stack_def Let_def s1 Option.bind_lunit s2 s3 s4 fn using s5 by (simp add: aux_def add.commute add.left_commute)
qed

section \<open>Properties\<close>

text \<open>
  Documented behaviour of \<^verbatim>\<open>mmap(2)\<close> for a new private anonymous mapping that is granted: a page-aligned
  address, the range reads as zeros, and no other byte changes.
\<close>

definition anon_reply :: "kreply \<Rightarrow> u64 \<Rightarrow> nat \<Rightarrow> memory \<Rightarrow> bool" where
  "anon_reply rep r n m = (k_ret rep = r \<and> r < -4095 \<and> PAGE_OFFT r = 0 \<and>
     k_mem rep = (\<lambda>x. if unat (x - r) < n then 0 else m x))"

definition stack_call :: kcall where
  "stack_call = K_mmap 0 STACK_SZ (PROT_READ OR PROT_WRITE) (MAP_PRIVATE OR MAP_ANONYMOUS OR MAP_STACK OR MAP_GROWSDOWN) (-1) 0"

lemma map_stack_granted:
  assumes "anon_reply (K (ktrace s) stack_call (mem s)) r 0x50000 (mem s)"
  shows "map_stack K s = Inr (r + 0x28000, s\<lparr>mem := k_mem (K (ktrace s) stack_call (mem s)), ktrace := ktrace s @ [stack_call]\<rparr>)"
    and "r + 0x28000 \<noteq> -1"
proof -
  have "\<not> -4095 \<le> r" "r \<noteq> -1" using assms by (auto simp: anon_reply_def PAGE_OFFT_def not_le)
  then show "map_stack K s = Inr (r + 0x28000, s\<lparr>mem := k_mem (K (ktrace s) stack_call (mem s)), ktrace := ktrace s @ [stack_call]\<rparr>)"
    using assms by (simp add: map_stack_def mmap_def libc_call_shape libc_ret_def anon_reply_def retR_def stack_call_def)
  have "PAGE_OFFT (r + 0x28000) = PAGE_OFFT 0x28000" using assms PAGE_OFFT_add_aligned by (simp add: anon_reply_def)
  then have "PAGE_OFFT (r + 0x28000) \<noteq> PAGE_OFFT (-1)" by (simp add: PAGE_OFFT_def)
  then show "r + 0x28000 \<noteq> -1" by metis
qed

lemma upper_part: "unat (x - (r + 0x28000) :: u64) < 0x28000 \<Longrightarrow> unat (x - r) < 0x50000"
proof -
  assume u: "unat (x - (r + 0x28000)) < 0x28000"
  have "x - r = (x - (r + 0x28000)) + 0x28000" by simp
  then have "unat (x - r) = (unat (x - (r + 0x28000)) + 0x28000) mod 2 ^ 64" by (simp only: unat_word_ariths) simp
  then show ?thesis using u by simp
qed

lemma words_zero: "(\<And>x. unat (x - a) < 8 * n \<Longrightarrow> m x = 0) \<Longrightarrow> t < n \<Longrightarrow> n \<le> 2 ^ 60 \<Longrightarrow> word_at m a t = 0"
proof -
  assume z: "\<And>x. unat (x - a) < 8 * n \<Longrightarrow> m x = 0" and t: "t < n" "n \<le> 2 ^ 60"
  have "word_at m a t = read64 (\<lambda>_. 0) (a + 8 * of_nat t)"
    unfolding word_at_def
  proof (rule read64_cong)
    fix i :: nat assume i: "i < 8"
    have "unat (a + 8 * of_nat t + of_nat i - a) < 8 * n" using t i by (subst unat_word_offset) auto
    then show "m (a + 8 * of_nat t + of_nat i) = 0" by (rule z)
  qed
  also have "\<dots> = 0" by (simp add: read64_def read_bytes_def numeral_eq_Suc)
  finally show ?thesis .
qed

lemma fill_stack_words:
  assumes args: "2 \<le> length args" "0 \<notin> set args" "0 \<notin> set envs"
    and argv: "map (word_at m argv) [0..<length args + length envs + 2] = args @ [0] @ envs @ [0]"
    and ap: "apart argv (length args + length envs + 2) stack n"
    and zero: "\<forall>t < n. word_at m stack t = 0"
    and n: "length args + length envs + 2 + 2 * length nz + 4 \<le> n" "n \<le> 2 ^ 60" "n \<le> fuel"
    and nz: "entries (args ! 1) = nz @ [(AT_SECURE, 0), (AT_NULL, 0)]" "0 \<notin> set (flat nz)"
  shows "\<exists>m'. fill_stack fuel argv argc stack entries m = Some m' \<and>
    map (word_at m' stack) [0..<length args + length envs + 2 + 2 * length nz + 4] = stack_words argc args envs (entries (args ! 1)) \<and>
    (\<forall>x. \<not> unat (x - stack) < 8 * n \<longrightarrow> m' x = m x)"
proof -
  define L M where "L = length args" and "M = length envs"
  define c where "c = scast (argc - 1) # tl args"
  have lc: "length c = L" using args(1) by (simp add: c_def L_def)
  define m2 m3 m4 where "m2 = ws.puts stack 0 c m" and "m3 = ws.puts stack (L + 1) envs m2"
    and "m4 = ws.puts stack (L + M + 2) (flat nz @ [AT_SECURE, 0, 0]) m3"
  have run: "fill_stack fuel argv argc stack entries m = Some m4"
    using fill_stack_runs [OF args argv ap zero n, of entries] nz by (simp add: m2_def m3_def m4_def c_def L_def M_def)
  have k: "L + M + 2 + 2 * length nz + 4 \<le> n" using n(1) by (simp add: L_def M_def)
  have z2: "word_at m2 stack t = 0" if "L \<le> t" "t < n" for t
    using that k n(2) zero by (simp add: m2_def ws.get_puts lc)
  have "map (word_at m2 stack) [0..<0 + length c] = [] @ c"
    unfolding m2_def by (rule ws.contents_extend) (use lc k n(2) in auto)
  then have w2: "map (word_at m2 stack) [0..<L + 1] = c @ [0]" using z2 [of L] k by (simp add: lc)
  have z3: "word_at m3 stack t = 0" if "L + 1 + M \<le> t" "t < n" for t
    using that k n(2) z2 by (simp add: m3_def ws.get_puts M_def)
  have "map (word_at m3 stack) [0..<L + 1 + length envs] = (c @ [0]) @ envs"
    unfolding m3_def by (rule ws.contents_extend [OF w2]) (use k n(2) in \<open>auto simp: M_def\<close>)
  then have w3: "map (word_at m3 stack) [0..<L + M + 2] = c @ [0] @ envs @ [0]" using z3 [of "L + M + 1"] k by (simp add: M_def)
  have "map (word_at m4 stack) [0..<L + M + 2 + length (flat nz @ [AT_SECURE, 0, 0])] = (c @ [0] @ envs @ [0]) @ flat nz @ [AT_SECURE, 0, 0]"
    unfolding m4_def by (rule ws.contents_extend [OF w3]) (use k n(2) in auto)
  moreover have "word_at m4 stack (L + M + 2 + 2 * length nz + 3) = 0"
    using z3 k n(2) by (simp add: m4_def ws.get_puts)
  ultimately have "map (word_at m4 stack) [0..<L + M + 2 + 2 * length nz + 4] = (c @ [0] @ envs @ [0]) @ flat nz @ [AT_SECURE, 0, 0, 0]"
    by (simp add: numeral_eq_Suc)
  moreover have "m4 x = m x" if "\<not> unat (x - stack) < 8 * n" for x
    using puts_outside [OF that n(2)] k by (simp add: m4_def m3_def m2_def lc M_def)
  moreover have "flat (entries (args ! 1)) = flat nz @ [AT_SECURE, 0, 0, 0]" by (simp only: nz(1)) simp
  ultimately show ?thesis using run unfolding stack_words_def c_def L_def M_def
    by (intro exI [of _ m4]) (simp del: upt_Suc)
qed

lemma aux_entries_shape:
  assumes "aux_entries b rnd arch fn = Some ents"
  shows "\<exists>nz. ents = nz @ [(AT_SECURE, 0), (AT_NULL, 0)] \<and> length nz = 14"
proof -
  obtain nz where "ents = nz @ [(AT_SECURE, 0), (AT_NULL, 0)]" "length nz = 14"
    using assms by (auto simp: aux_entries_def bind_eq_Some_conv)
  then show ?thesis by blast
qed

lemma aux_entries_dbi [simp]: "aux_entries (b\<lparr>dbi_handler := d\<rparr>) = aux_entries b"
  by (intro ext) (simp add: aux_entries_def cong: if_cong option.case_cong)

lemma aux_entries_defined: "aux_entries b rnd arch fn = Some ents \<Longrightarrow> aux_entries b rnd arch fn' \<noteq> None"
  by (cases "e_entry (fbinary b)"; cases "e_phentsize (fbinary b)"; cases "e_phnum (fbinary b)"; cases "e_phoff (fbinary b)")
    (simp_all add: aux_entries_def)

lemma setup_stack_fills:
  assumes "anon_reply (K (ktrace s) stack_call (mem s)) r 0x50000 (mem s)"
    and "2 \<le> length args" "0 \<notin> set args" "0 \<notin> set envs"
    and "map (word_at (mem s) argv) [0..<length args + length envs + 2] = args @ [0] @ envs @ [0]"
    and "apart argv (length args + length envs + 2) r 0xa000"
    and "aux_entries (s_binary s) rnd arch (args ! 1) = Some ents" and "0 \<notin> set (flat (take 14 ents))"
    and "length args + length envs + 34 \<le> 0x5000" and "0x5000 \<le> fuel"
  shows "\<exists>m'. setup_stack fuel K argv argc rnd arch s = Inr (r + 0x28000, upd_guest (\<lambda>st. st\<lparr>rsp := r + 0x28000\<rparr>)
      (upd_dbi (\<lambda>d. d\<lparr>base_guest_stack := r + 0x28000 - 0x200000\<rparr>) (s\<lparr>mem := m', ktrace := ktrace s @ [stack_call]\<rparr>))) \<and>
    map (word_at m' (r + 0x28000)) [0..<length args + length envs + 34] = stack_words argc args envs ents \<and>
    (\<forall>x. \<not> unat (x - r) < 0x50000 \<longrightarrow> m' x = mem s x)"
proof -
  let ?st = "r + 0x28000" and ?m = "k_mem (K (ktrace s) stack_call (mem s))"
  define s1 where "s1 = upd_guest (\<lambda>st. st\<lparr>rsp := ?st\<rparr>) (upd_dbi (\<lambda>d. d\<lparr>base_guest_stack := ?st - 0x200000\<rparr>)
      (s\<lparr>mem := ?m, ktrace := ktrace s @ [stack_call]\<rparr>))"
  have m: "?m = (\<lambda>x. if unat (x - r) < 0x50000 then 0 else mem s x)" using assms(1) by (simp add: anon_reply_def)
  have b: "aux_entries (s_binary s1) = aux_entries (s_binary s)"
    by (simp add: s1_def upd_guest_def upd_dbi_def)
  obtain nz where nz: "ents = nz @ [(AT_SECURE, 0), (AT_NULL, 0)]" "length nz = 14" using aux_entries_shape [OF assms(7)] by blast
  have argv: "map (word_at ?m argv) [0..<length args + length envs + 2] = args @ [0] @ envs @ [0]"
  proof -
    have "word_at ?m argv t = word_at (mem s) argv t" if "t < length args + length envs + 2" for t
      unfolding word_at_def
    proof (rule read64_cong)
      fix i :: nat assume i: "i < 8"
      let ?x = "argv + 8 * of_nat t + of_nat i"
      have "unat (?x - argv) < 8 * (length args + length envs + 2)" using that i assms(9) by (subst unat_word_offset) auto
      then show "?m ?x = mem s ?x" using assms(6) by (simp add: m apart_def)
    qed
    then show ?thesis unfolding assms(5) [symmetric] by (intro map_cong) auto
  qed
  have ap: "apart argv (length args + length envs + 2) ?st 0x5000"
    using assms(6) upper_part [of _ r] by (fastforce simp: apart_def)
  have zero: "\<forall>t < 0x5000. word_at ?m ?st t = 0"
    using upper_part [of _ r] by (auto simp: m intro!: words_zero)
  obtain m' where m': "fill_stack fuel argv argc ?st (\<lambda>fn. the (aux_entries (s_binary s1) rnd arch fn)) ?m = Some m'"
    "map (word_at m' ?st) [0..<length args + length envs + 2 + 2 * length nz + 4] = stack_words argc args envs ents"
    "\<forall>x. \<not> unat (x - ?st) < 8 * 0x5000 \<longrightarrow> m' x = ?m x"
    using fill_stack_words [OF assms(2-4) argv ap zero, of nz fuel "\<lambda>fn. the (aux_entries (s_binary s1) rnd arch fn)" argc]
      assms(7-10) nz by (auto simp: b)
  obtain ents0 where "aux_entries (s_binary s1) rnd arch 0 = Some ents0"
    using aux_entries_defined [OF assms(7), of 0] b by auto
  then have "setup_stack fuel K argv argc rnd arch s = Inr (?st, s1\<lparr>mem := m'\<rparr>)"
    using map_stack_granted [where K = K and s = s, OF assms(1)] m'(1) by (simp add: setup_stack_def Let_def retR_def flip: s1_def) (simp add: s1_def)
  moreover have "s1\<lparr>mem := m'\<rparr> = upd_guest (\<lambda>st. st\<lparr>rsp := ?st\<rparr>) (upd_dbi (\<lambda>d. d\<lparr>base_guest_stack := ?st - 0x200000\<rparr>)
      (s\<lparr>mem := m', ktrace := ktrace s @ [stack_call]\<rparr>))" by (simp add: s1_def upd_guest_def upd_dbi_def)
  moreover have "m' x = mem s x" if "\<not> unat (x - r) < 0x50000" for x
  proof -
    have "\<not> unat (x - ?st) < 8 * 0x5000" using that upper_part [of x r] by auto
    then have "m' x = ?m x" using m'(3) by blast
    then show ?thesis using that by (simp add: m)
  qed
  moreover have "length args + length envs + 2 + 2 * length nz + 4 = length args + length envs + 34" using nz(2) by simp
  note m'(2) [unfolded this]
  ultimately show ?thesis by auto
qed

text \<open>
  C16: the stack the guest starts with.  When the mapping is granted, \<^verbatim>\<open>setup_stack\<close> ends and the guest's stack pointer is
  163840 bytes into it; from there the words are the number of arguments without the engine's own, the
  arguments from \<^verbatim>\<open>argv[1]\<close> on, a null word, the environment, a null word, and the sixteen entries of the auxiliary
  vector in the order in which they are added, ending with a null entry, provided that no entry before
  \<^verbatim>\<open>AT_SECURE\<close> has the value 0.  No byte outside of the mapping changes.
\<close>

theorem setup_stack_layout:
  assumes "anon_reply (K (ktrace s) stack_call (mem s)) r 0x50000 (mem s)"
    and "2 \<le> length args" "0 \<notin> set args" "0 \<notin> set envs"
    and "map (word_at (mem s) argv) [0..<length args + length envs + 2] = args @ [0] @ envs @ [0]"
    and "apart argv (length args + length envs + 2) r 0xa000"
    and "aux_entries (s_binary s) rnd arch (args ! 1) = Some ents" and "0 \<notin> set (flat (take 14 ents))"
    and "length args + length envs + 34 \<le> 0x5000" and "0x5000 \<le> fuel"
  shows "\<exists>s'. setup_stack fuel K argv argc rnd arch s = Inr (r + 0x28000, s') \<and> rsp (guest s') = r + 0x28000 \<and>
    map (word_at (mem s') (r + 0x28000)) [0..<length args + length envs + 34] = stack_words argc args envs ents \<and>
    (\<forall>x. \<not> unat (x - r) < 0x50000 \<longrightarrow> mem s' x = mem s x)"
  using setup_stack_fills [where K = K and s = s and argc = argc, OF assms] by fastforce

definition demo_argv :: memory where
  "demo_argv = ws.puts 0x1000 0 [0x10, 0x20, 0, 0x30, 0] (\<lambda>_. 0)"

definition demo_stack_kernel :: kernel where
  "demo_stack_kernel tr c m = \<lparr>k_ret = 0x700000, k_out = 0, k_mem = (\<lambda>x. if unat (x - 0x700000) < 0x50000 then 0 else m x)\<rparr>"

definition demo_start :: mach where
  "demo_start = zero_mach\<lparr>mem := demo_argv, s_binary := (s_binary zero_mach)\<lparr>fbinary := demo_elf, fd := 3, base := 0x400000\<rparr>\<rparr>"

lemma demo_entries:
  "aux_entries (s_binary demo_start) 0x5000 0x5008 0x20 = Some
     [(9, 0x400100), (2, 3), (4, 56), (5, 3), (7, 0x400000), (25, 0x5000), (3, 0x400040), (15, 0x5008), (14, 1000),
      (12, 1000), (13, 1000), (11, 1000), (6, 0x1000), (31, 0x20), (23, 0), (0, 0)]"
proof -
  note h = image_header [OF _ _ _ _ demo_elf_def, simplified]
  have "e_entry demo_elf = Some 0x400100" "e_phentsize demo_elf = Some 56" "e_phnum demo_elf = Some 3" "e_phoff demo_elf = Some 64"
    using h demo_phdrs_ok(1) by simp_all
  then show ?thesis by (simp add: aux_entries_def demo_start_def zero_mach_def)
qed

lemma setup_stack_layout_witness:
  "\<exists>s'. setup_stack 0x5000 demo_stack_kernel 0x1000 2 0x5000 0x5008 demo_start = Inr (0x728000, s') \<and>
     map (word_at (mem s') 0x728000) [0..<7] = [1, 0x20, 0, 0x30, 0, 9, 0x400100]"
proof -
  have "PAGE_OFFT 0x700000 = 0" by (simp add: PAGE_OFFT_def)
  then have a: "anon_reply (demo_stack_kernel (ktrace demo_start) stack_call (mem demo_start)) 0x700000 0x50000 (mem demo_start)"
    by (simp add: anon_reply_def demo_stack_kernel_def)
  have w: "map (word_at (mem demo_start) 0x1000) [0..<length [0x10, 0x20 :: u64] + length [0x30 :: u64] + 2] = [0x10, 0x20] @ [0] @ [0x30] @ [0]"
  proof -
    let ?v = "[0x10, 0x20, 0, 0x30, 0] :: u64 list"
    have "map (word_at demo_argv 0x1000) [0..<0 + length ?v] = [] @ ?v"
      unfolding demo_argv_def by (rule ws.contents_extend) simp_all
    moreover have "length [0x10, 0x20 :: u64] + length [0x30 :: u64] + 2 = 0 + length ?v" by simp
    moreover have "mem demo_start = demo_argv" by (simp add: demo_start_def)
    ultimately show ?thesis by (simp only: append_Nil append_Cons)
  qed
  have ap: "apart 0x1000 (length [0x10, 0x20 :: u64] + length [0x30 :: u64] + 2) 0x700000 0xa000"
    unfolding apart_def
  proof (intro allI impI notI)
    fix x :: u64
    assume x: "unat (x - 0x1000) < 8 * (length [0x10, 0x20 :: u64] + length [0x30 :: u64] + 2)" "unat (x - 0x700000) < 8 * 0xa000"
    have "x - 0x1000 = (x - 0x700000) + 0x6ff000" by simp
    then have "unat (x - 0x1000) = (unat (x - 0x700000) + 0x6ff000) mod 2 ^ 64" by (simp only: unat_word_ariths) simp
    with x show False by simp
  qed
  let ?ents = "the (aux_entries (s_binary demo_start) 0x5000 0x5008 0x20)"
  have "\<exists>s'. setup_stack 0x5000 demo_stack_kernel 0x1000 2 0x5000 0x5008 demo_start = Inr (0x700000 + 0x28000, s') \<and>
      rsp (guest s') = 0x700000 + 0x28000 \<and>
      map (word_at (mem s') (0x700000 + 0x28000)) [0..<length [0x10, 0x20 :: u64] + length [0x30 :: u64] + 34] = stack_words 2 [0x10, 0x20] [0x30] ?ents \<and>
      (\<forall>x. \<not> unat (x - 0x700000) < 0x50000 \<longrightarrow> mem s' x = mem demo_start x)"
    by (rule setup_stack_layout [where K = demo_stack_kernel and s = demo_start, OF a _ _ _ w ap]) (simp_all add: demo_entries)
  then obtain s' where
    s': "setup_stack 0x5000 demo_stack_kernel 0x1000 2 0x5000 0x5008 demo_start = Inr (0x728000, s')"
    "map (word_at (mem s') 0x728000) [0..<37] = stack_words 2 [0x10, 0x20] [0x30] ?ents"
    by auto
  have "map (word_at (mem s') 0x728000) [0..<7] = take 7 (map (word_at (mem s') 0x728000) [0..<37])" by (simp add: take_map)
  then show ?thesis using s' by (simp add: demo_entries stack_words_def)
qed

lemma auxvt_first:
  "\<forall>t < n. word_at m aux (i + t) \<noteq> k \<and> word_at m aux (i + t) \<noteq> 0 \<Longrightarrow> word_at m aux (i + n) = k \<Longrightarrow> n < fuel \<Longrightarrow>
   auxvt fuel aux k i m = Some (word_at m aux (i + n + 1))"
proof (induction n arbitrary: i fuel)
  case 0
  then show ?case by (cases fuel) auto
next
  case (Suc n)
  obtain f where f: "fuel = Suc f" using Suc.prems(3) by (cases fuel) auto
  have "word_at m aux i \<noteq> k" "word_at m aux i \<noteq> 0" using Suc.prems(1) by force+
  moreover have "auxvt f aux k (Suc i) m = Some (word_at m aux (Suc i + n + 1))"
    by (rule Suc.IH) (use Suc.prems f in \<open>auto simp flip: add_Suc_right\<close>)
  ultimately show ?case by (simp add: f)
qed

lemma auxvt_words:
  assumes "map (word_at m aux) [0..<length us + 2 + length vs] = us @ k # w # vs" and "k \<notin> set us" and "0 \<notin> set us" and "length us < fuel"
  shows "auxvt fuel aux k 0 m = Some w"
proof -
  have at: "word_at m aux t = (us @ k # w # vs) ! t" if "t < length us + 2 + length vs" for t
  proof -
    have "map (word_at m aux) [0..<length us + 2 + length vs] ! t = (us @ k # w # vs) ! t" by (simp only: assms(1))
    then show ?thesis using that by (simp del: upt_Suc)
  qed
  have "us ! t \<noteq> k \<and> us ! t \<noteq> 0" if "t < length us" for t using that assms(2,3) by (metis nth_mem)
  then have "auxvt fuel aux k 0 m = Some (word_at m aux (0 + length us + 1))"
    by (intro auxvt_first) (use assms(4) at in \<open>auto simp: nth_append\<close>)
  then show ?thesis using at [of "length us + 1"] by (simp add: nth_append)
qed

text \<open>
  Looking up an entry of an auxiliary vector with \<^verbatim>\<open>auxvt\<close> returns its value when neither a type nor a value of the
  entries before it equals the type looked for; but the search goes word by word, so when an
  earlier entry has it as its value (\<^verbatim>\<open>AT_EXECFD\<close> with descriptor 3 before \<^verbatim>\<open>AT_PHDR\<close>, which is 3), the type of the next entry
  is returned instead of a value.
\<close>

lemma auxvt_lookup:
  assumes "0 \<notin> set (flat pre)" and "k \<notin> set (flat pre)" and "2 * length pre + 1 < fuel" and "k1 \<noteq> 0" and "k1 \<noteq> k"
  shows "(map (word_at m aux) [0..<2 * (length pre + 1 + length post)] = flat (pre @ (k, v) # post) \<longrightarrow> auxvt fuel aux k 0 m = Some v) \<and>
    (map (word_at m aux) [0..<2 * (length pre + 2 + length post)] = flat (pre @ (k1, k) # (k2, v2) # post) \<longrightarrow> auxvt fuel aux k 0 m = Some k2)"
proof (intro conjI impI)
  assume "map (word_at m aux) [0..<2 * (length pre + 1 + length post)] = flat (pre @ (k, v) # post)"
  then show "auxvt fuel aux k 0 m = Some v"
    by (intro auxvt_words [where us = "flat pre" and vs = "flat post"]) (use assms in \<open>auto simp: algebra_simps\<close>)
next
  assume "map (word_at m aux) [0..<2 * (length pre + 2 + length post)] = flat (pre @ (k1, k) # (k2, v2) # post)"
  then show "auxvt fuel aux k 0 m = Some k2"
    by (intro auxvt_words [where us = "flat pre @ [k1]" and vs = "v2 # flat post"]) (use assms in \<open>auto simp: algebra_simps\<close>)
qed

lemma auxvt_lookup_witness:
  "auxvt 9 0x1000 AT_PHDR 0 (ws.puts 0x1000 0 (flat [(AT_ENTRY, 0x400100), (AT_EXECFD, 3), (AT_PHENT, 56)]) (\<lambda>_. 0)) = Some AT_PHENT"
proof -
  let ?e = "[(AT_ENTRY, 0x400100), (AT_EXECFD, 3), (AT_PHENT, 56)] :: (u64 \<times> u64) list"
  have "map (word_at (ws.puts 0x1000 0 (flat ?e) (\<lambda>_. 0)) 0x1000) [0..<0 + length (flat ?e)] = [] @ flat ?e"
    by (rule ws.contents_extend) simp_all
  moreover have "0 + length (flat ?e) = 2 * (length [(AT_ENTRY, 0x400100 :: u64)] + 2 + length ([] :: (u64 \<times> u64) list))" by simp
  ultimately have "map (word_at (ws.puts 0x1000 0 (flat ?e) (\<lambda>_. 0)) 0x1000)
      [0..<2 * (length [(AT_ENTRY, 0x400100 :: u64)] + 2 + length ([] :: (u64 \<times> u64) list))] = flat ([(AT_ENTRY, 0x400100)] @ (AT_EXECFD, AT_PHDR) # (AT_PHENT, 56) # [])"
    by (simp only: append_Nil append_Cons AT_PHDR_def)
  then show ?thesis
    by (rule auxvt_lookup [where pre = "[(AT_ENTRY, 0x400100)]" and post = "[]" and ?k1.0 = AT_EXECFD, THEN conjunct2, THEN mp, rotated -1]) simp_all
qed

end
