(* ===== verification/Core_Mapper.thy ===== *)
theory Core_Mapper
  imports Guest_Stack
begin

unbundle bit_operations_syntax

text \<open>
  Loading a program (\<^verbatim>\<open>src/core_mapper.c\<close>, \<^verbatim>\<open>base_address\<close> to \<^verbatim>\<open>map_binary\<close>, and \<^verbatim>\<open>exec_binary\<close>): the segments of the
  file are mapped with \<^verbatim>\<open>mmap\<close>, the rest of the last page and the pages after it cleared, the interpreter named in
  the file loaded the same way, and the stack built.  \<open>s_binary\<close> of the state is the descriptor that is being
  filled; while the interpreter is loaded, it is the interpreter's.  The theorems say that after a load every segment is
  in memory as the file describes it, and which bytes outside of the segments change with it.
\<close>

section \<open>The code\<close>

definition base_address :: "host_env \<Rightarrow> mach \<Rightarrow> u64" where
  "base_address E s = (case urandom E (ktrace s) of None \<Rightarrow> -1 | Some v \<Rightarrow> PAGE_ALIGN (take_bit 40 v))"

definition prot_write :: "u64 \<Rightarrow> i32" where
  "prot_write flags = (if flags AND PF_W \<noteq> 0 then PROT_WRITE else 0)"

definition prot_exec :: "u64 \<Rightarrow> i32" where
  "prot_exec flags = (if flags AND PF_X \<noteq> 0 then PROT_EXEC else 0)"

text \<open>A program header, read at once; \<open>None\<close> if it lies outside of the file.\<close>

definition read_phdr :: "elf_file \<Rightarrow> u64 \<Rightarrow> phdr option" where
  "read_phdr f p = do {
     ty \<leftarrow> p_type f p;
     fl \<leftarrow> p_flags f p;
     off \<leftarrow> p_offset f p;
     va \<leftarrow> p_vaddr f p;
     fs \<leftarrow> p_filesz f p;
     ms \<leftarrow> p_memsz f p;
     Some \<lparr>ph_type = ty, ph_flags = fl, ph_offset = off, ph_vaddr = va, ph_paddr = 0, ph_filesz = fs, ph_memsz = ms, ph_align = 0\<rparr> }"

definition map_length :: "u64 \<Rightarrow> u64 \<Rightarrow> u64" where
  "map_length cur sz = PAGE_ROUND (PAGE_ROUND (cur + sz) - PAGE_ALIGN cur) + 1"

definition file_flags :: i32 where "file_flags = MAP_FIXED OR MAP_PRIVATE"
definition anon_flags :: i32 where "anon_flags = MAP_ANONYMOUS OR MAP_FIXED OR MAP_PRIVATE"

text \<open>The first mapping of a file; its result is stored in \<^verbatim>\<open>base\<close> even when it is \<^verbatim>\<open>MAP_FAILED\<close>.\<close>

definition map_first :: "kernel \<Rightarrow> host_env \<Rightarrow> phdr \<Rightarrow> mach \<Rightarrow> u64 run" where
  "map_first K E ph s =
     bindR (mmap K (if pie (s_binary s) then base_address E s else ph_vaddr ph) (map_length 0 (ph_filesz ph))
              (PROT_READ OR PROT_WRITE OR prot_exec (ph_flags ph)) file_flags (fd (s_binary s)) (PAGE_ALIGN (ph_offset ph)) s)
       (\<lambda>r s. retR r (s\<lparr>s_binary := (s_binary s)\<lparr>base := r\<rparr>\<rparr>))"

definition map_next :: "kernel \<Rightarrow> phdr \<Rightarrow> u64 \<Rightarrow> mach \<Rightarrow> u64 run" where
  "map_next K ph cur s =
     mmap K (PAGE_ALIGN cur) (map_length cur (ph_filesz ph))
       (PROT_READ OR PROT_WRITE OR prot_exec (ph_flags ph)) file_flags (fd (s_binary s)) (PAGE_ALIGN (ph_offset ph)) s"

text \<open>The part of \<^verbatim>\<open>map_load\<close> on what lies beyond the file: \<open>False\<close> when the mapping failed.\<close>

definition map_bss :: "kernel \<Rightarrow> phdr \<Rightarrow> u64 \<Rightarrow> mach \<Rightarrow> bool run" where
  "map_bss K ph cur s =
    (if ph_memsz ph > ph_filesz ph \<and> cur \<noteq> 0
     then
       let map_filesz = cur + ph_filesz ph;
           map_end = PAGE_ROUND map_filesz + 1;
           bss_end = PAGE_ROUND (cur + ph_memsz ph) + 1;
           s = s\<lparr>mem := write_bytes (mem s) map_filesz (replicate (unat (map_end - map_filesz)) 0)\<rparr> in
       if bss_end > map_end
       then bindR (mmap K map_end (PAGE_ROUND (bss_end - map_end) + 1)
                     (PROT_READ OR prot_write (ph_flags ph) OR prot_exec (ph_flags ph)) anon_flags (-1) 0 s) (\<lambda>r s.
              if r = -1 then retR False s
              else retR True (upd_dbi (\<lambda>d. d\<lparr>vbrk := map_end + PAGE_ROUND (bss_end - map_end) + 1\<rparr>) s))
       else retR True (if ph_flags ph AND PF_W \<noteq> 0 then upd_dbi (\<lambda>d. d\<lparr>vbrk := map_end\<rparr>) s else s)
     else retR True
       (if ph_flags ph AND PF_W \<noteq> 0
        then upd_dbi (\<lambda>d. d\<lparr>vbrk := (if cur \<noteq> 0 then PAGE_ALIGN cur else base (s_binary s)) + map_length 0 (ph_filesz ph) + 1\<rparr>) s
        else s))"

definition map_load :: "kernel \<Rightarrow> host_env \<Rightarrow> phdr \<Rightarrow> mach \<Rightarrow> i32 run" where
  "map_load K E ph s =
    (let first = (base (s_binary s) = 0);
         cur = (if first then 0 else if pie (s_binary s) then base (s_binary s) + ph_vaddr ph else ph_vaddr ph) in
     bindR (if first then map_first K E ph s else map_next K ph cur s) (\<lambda>r s.
       if r = -1 then retR (-1) s
       else bindR (map_bss K ph cur s) (\<lambda>ok s.
         if \<not> ok then retR (-1) s
         else bindR (mprotect K (if cur \<noteq> 0 then PAGE_ALIGN cur else base (s_binary s)) (PAGE_ROUND (ph_memsz ph))
                (PROT_READ OR prot_exec (ph_flags ph) OR prot_write (ph_flags ph) OR prot_exec (ph_flags ph)) s) (\<lambda>r s.
           if r \<noteq> 0 then retR (-1) s else retR 0 s))))"

text \<open>A null-terminated string in the file.\<close>

definition cstr :: "elf_file \<Rightarrow> nat \<Rightarrow> string option" where
  "cstr f off =
    (let rest = drop off f in
     if off \<le> length f \<and> 0 \<in> set rest then Some (map (\<lambda>b. char_of (unat b)) (takeWhile (\<lambda>b. b \<noteq> 0) rest)) else None)"

text \<open>
  \<open>mb\<close> is \<^verbatim>\<open>map_binary\<close> for the interpreter, called without arguments; what is read of its descriptor later is kept.
  The result \<open>False\<close> is the pointer \<open>-1\<close>.
\<close>

definition load_interp :: "(string \<Rightarrow> mach \<Rightarrow> bool run) \<Rightarrow> phdr \<Rightarrow> mach \<Rightarrow> bool run" where
  "load_interp mb ph s =
    (let b = s_binary s in
     case cstr (fbinary b) (unat (if pie b then ph_vaddr ph else ph_offset ph)) of
       None \<Rightarrow> haltR Buffer_overrun s
     | Some name \<Rightarrow>
        bindR (mb name s) (\<lambda>ok s.
          if \<not> ok then retR False (s\<lparr>s_binary := b\<rparr>)
          else case e_entry (fbinary (s_binary s)) of
            None \<Rightarrow> haltR Buffer_overrun s
          | Some entry \<Rightarrow> retR True (s\<lparr>s_binary := b\<lparr>interp :=
               Some \<lparr>i_pie = pie (s_binary s), i_base = base (s_binary s), i_entry = entry, i_memory_map = memory_map (s_binary s)\<rparr>\<rparr>\<rparr>)))"

fun map_phdrs :: "(string \<Rightarrow> mach \<Rightarrow> bool run) \<Rightarrow> kernel \<Rightarrow> host_env \<Rightarrow> u64 list \<Rightarrow> mach \<Rightarrow> bool run" where
  "map_phdrs mb K E [] s = retR True s"
| "map_phdrs mb K E (p # ps) s =
    (case p_type (fbinary (s_binary s)) p of
       None \<Rightarrow> haltR Buffer_overrun s
     | Some ty \<Rightarrow>
        if ty = PT_INTERP \<or> ty = PT_LOAD then
          (case read_phdr (fbinary (s_binary s)) p of
             None \<Rightarrow> haltR Buffer_overrun s
           | Some ph \<Rightarrow>
              if ty = PT_INTERP
              then bindR (load_interp mb ph s) (\<lambda>ok s. if \<not> ok then retR False s else map_phdrs mb K E ps s)
              else bindR (map_load K E ph s) (\<lambda>r s. if r = -1 then retR False s else map_phdrs mb K E ps s))
        else map_phdrs mb K E ps s)"

text \<open>The command line, with the addresses of the globals that the stack refers to and the fuel for its loops.\<close>

record arg_t =
  a_argc :: i32
  a_argv :: u64
  a_random :: u64
  a_arch :: u64
  a_fuel :: nat

definition entry_point :: "mdata_binary_t \<Rightarrow> u64 option" where
  "entry_point b =
    (case interp b of
       Some i \<Rightarrow> Some (if i_pie i then i_base i + i_entry i else i_entry i)
     | None \<Rightarrow> map_option (\<lambda>e. if pie b then base b + e else e) (e_entry (fbinary b)))"

fun map_binary :: "nat \<Rightarrow> kernel \<Rightarrow> host_env \<Rightarrow> string \<Rightarrow> arg_t option \<Rightarrow> mach \<Rightarrow> bool run" where
  "map_binary 0 K E name args s = haltR Out_of_fuel s"
| "map_binary (Suc fuel) K E name args s =
     bindR (init_analysis K E name s) (\<lambda>ob s.
       case ob of
         None \<Rightarrow> retR False s
       | Some b \<Rightarrow>
          bindR (map_phdrs (\<lambda>n. map_binary fuel K E n None) K E (s_ph b) (s\<lparr>s_binary := b\<rparr>)) (\<lambda>ok s.
            if \<not> ok then retR False s
            else bindR (case args of
                          None \<Rightarrow> retR 0 s
                        | Some a \<Rightarrow> setup_stack (a_fuel a) K (a_argv a) (a_argc a) (a_random a) (a_arch a) s) (\<lambda>_ s.
              case entry_point (s_binary s) of
                None \<Rightarrow> haltR Buffer_overrun s
              | Some e \<Rightarrow> retR True (s\<lparr>s_binary := (s_binary s)\<lparr>exec_entry := e\<rparr>\<rparr>))))"

section \<open>Pages\<close>

lemma PAGE_OFFT_diff: "PAGE_OFFT a = 0 \<Longrightarrow> PAGE_OFFT b = 0 \<Longrightarrow> PAGE_OFFT (a - b) = 0"
  using PAGE_OFFT_add_aligned [of b "a - b"] by simp

lemma PAGE_ROUND_1: "PAGE_ROUND x + 1 = PAGE_ALIGN x + 0x1000"
  by (simp add: PAGE_ROUND_def)

lemma map_length_eq: "map_length c f = PAGE_ALIGN (c + f) - PAGE_ALIGN c + 0x1000"
proof -
  have "PAGE_ALIGN (PAGE_ALIGN (c + f) - PAGE_ALIGN c + 0xfff) = PAGE_ALIGN (c + f) - PAGE_ALIGN c + PAGE_ALIGN 0xfff"
    by (rule PAGE_ALIGN_add_aligned) (simp add: PAGE_OFFT_diff)
  moreover have "PAGE_ALIGN 0xfff = 0" by (simp add: PAGE_ALIGN_def)
  ultimately show ?thesis unfolding map_length_def PAGE_ROUND_1 by (simp add: PAGE_ROUND_def algebra_simps)
qed

lemma aligned_not_error: "PAGE_OFFT a = 0 \<Longrightarrow> libc_ret a = a"
proof -
  assume al: "PAGE_OFFT a = 0"
  have "\<not> -4095 \<le> a"
  proof
    assume "-4095 \<le> a"
    then have "unat (-4095 :: u64) \<le> unat a" by (simp add: word_le_nat_alt)
    moreover have "unat (-4095 :: u64) = 2 ^ 64 - 4095"
      using unat_sub_if' [of "0 :: u64" 4095] by simp
    moreover obtain q where q: "unat a = 4096 * q" using al unat_PAGE_OFFT [of a] by auto
    moreover have "q < 2 ^ 52" using q unat_less_64 [of a] by simp
    ultimately show False by simp
  qed
  then show ?thesis by (simp add: libc_ret_def)
qed

text \<open>Ranges that do not wrap around, in natural numbers.\<close>

definition pa :: "nat \<Rightarrow> nat" where
  "pa n = n - n mod 4096"

lemma pa_le: "pa n \<le> n" and pa_less: "n < pa n + 4096" and pa_mono: "m \<le> n \<Longrightarrow> pa m \<le> pa n"
proof -
  show "pa n \<le> n" by (simp add: pa_def)
  have "n mod 4096 < 4096" by simp
  then show "n < pa n + 4096" unfolding pa_def by linarith
  show "m \<le> n \<Longrightarrow> pa m \<le> pa n" by (simp add: pa_def minus_mod_eq_mult_div div_le_mono)
qed

lemma unat_align: "unat (PAGE_ALIGN x) = pa (unat x)"
  by (simp add: unat_PAGE_ALIGN pa_def)

lemma unat_plus_nat: "unat a + n < 2 ^ 64 \<Longrightarrow> unat (a + of_nat n :: u64) = unat a + n"
  by (simp add: unat_word_ariths unat_of_nat_64)

lemma unat_plus: "unat a + unat b < 2 ^ 64 \<Longrightarrow> unat (a + b :: u64) = unat a + unat b"
  by (simp add: unat_word_ariths)

lemma in_span:
  assumes "unat (a :: u64) + n \<le> 2 ^ 64"
  shows "unat (x - a) < n \<longleftrightarrow> unat a \<le> unat x \<and> unat x < unat a + n"
  using assms unat_less_64 [of x] by (auto simp: unat_sub_if')

section \<open>The kernel's mappings\<close>

definition fbyte :: "u8 list \<Rightarrow> nat \<Rightarrow> u8" where
  "fbyte f n = (if n < length f then f ! n else 0)"

text \<open>
  Documented behaviour of \<^verbatim>\<open>mmap(2)\<close> with \<^verbatim>\<open>MAP_FIXED\<close> at an aligned address, when it is granted: the range shows the
  bytes of the file from an aligned offset on, zeros behind its end; an anonymous mapping shows zeros.  No other
  byte changes.  With it goes \<^verbatim>\<open>mprotect\<close> as elsewhere.
\<close>

definition maps_file :: "kernel \<Rightarrow> i32 \<Rightarrow> u8 list \<Rightarrow> bool" where
  "maps_file K f data = (\<forall>tr a len p off m. PAGE_OFFT a = 0 \<and> a \<noteq> 0 \<and> PAGE_OFFT off = 0 \<longrightarrow>
     k_ret (K tr (K_mmap a len p file_flags f off) m) = a \<and>
     k_mem (K tr (K_mmap a len p file_flags f off) m) = (\<lambda>x. if unat (x - a) < unat len then fbyte data (unat off + unat (x - a)) else m x))"

definition maps_anon :: "kernel \<Rightarrow> bool" where
  "maps_anon K = (\<forall>tr a len p m. PAGE_OFFT a = 0 \<and> a \<noteq> 0 \<longrightarrow>
     k_ret (K tr (K_mmap a len p anon_flags (-1) 0) m) = a \<and>
     k_mem (K tr (K_mmap a len p anon_flags (-1) 0) m) = (\<lambda>x. if unat (x - a) < unat len then 0 else m x))"

definition loads :: "kernel \<Rightarrow> i32 \<Rightarrow> u8 list \<Rightarrow> bool" where
  "loads K f data = (maps_file K f data \<and> maps_anon K \<and> grants K)"

lemma mmap_shape:
  "mmap K a len p fl f off s = Inr (libc_ret (k_ret (K (ktrace s) (K_mmap a len p fl f off) (mem s))),
     s\<lparr>mem := k_mem (K (ktrace s) (K_mmap a len p fl f off) (mem s)), ktrace := ktrace s @ [K_mmap a len p fl f off]\<rparr>)"
  by (simp add: mmap_def libc_call_shape)

lemma mmap_file_granted:
  assumes "loads K f data" and "PAGE_OFFT a = 0" "a \<noteq> 0" and "PAGE_OFFT off = 0"
  shows "mmap K a len p file_flags f off s = Inr (a,
     s\<lparr>mem := \<lambda>x. if unat (x - a) < unat len then fbyte data (unat off + unat (x - a)) else mem s x,
       ktrace := ktrace s @ [K_mmap a len p file_flags f off]\<rparr>)"
  using assms by (simp add: mmap_shape loads_def maps_file_def aligned_not_error)

lemma mmap_anon_granted:
  assumes "loads K f data" and "PAGE_OFFT a = 0" "a \<noteq> 0"
  shows "mmap K a len p anon_flags (-1) 0 s = Inr (a,
     s\<lparr>mem := \<lambda>x. if unat (x - a) < unat len then 0 else mem s x,
       ktrace := ktrace s @ [K_mmap a len p anon_flags (-1) 0]\<rparr>)"
  using assms by (simp add: mmap_shape loads_def maps_anon_def aligned_not_error)

lemma mprotect_loads: "loads K f data \<Longrightarrow> mprotect K a len p s = Inr (0, s\<lparr>ktrace := ktrace s @ [K_mprotect a len p]\<rparr>)"
  by (simp add: loads_def grants_def mprotect_granted)

section \<open>Loading a segment\<close>

text \<open>
  Memory after a segment of \<open>F\<close> bytes at file offset \<open>off\<close> and \<open>M\<close> bytes in memory was loaded at \<open>C\<close>: the pages of the file up to
  the end of the file part, zeros behind it up to the end of the last page that is mapped.
\<close>

definition bss_limit :: "nat \<Rightarrow> nat \<Rightarrow> nat \<Rightarrow> nat" where
  "bss_limit C F M = (if pa (C + F) < pa (C + M) then pa (C + M) + 8192 else pa (C + F) + 4096)"

definition seg_limit :: "nat \<Rightarrow> nat \<Rightarrow> nat \<Rightarrow> nat" where
  "seg_limit C F M = (if F < M then bss_limit C F M else pa (C + F) + 4096)"

definition seg_mem :: "u8 list \<Rightarrow> nat \<Rightarrow> nat \<Rightarrow> nat \<Rightarrow> nat \<Rightarrow> memory \<Rightarrow> memory" where
  "seg_mem data C off F M m x =
    (if pa C \<le> unat x \<and> unat x < (if F < M then C + F else pa (C + F) + 4096) then fbyte data (pa off + (unat x - pa C))
     else if F < M \<and> C + F \<le> unat x \<and> unat x < bss_limit C F M then 0 else m x)"

lemma seg_mem_outside: "\<not> (pa C \<le> unat x \<and> unat x < seg_limit C F M) \<Longrightarrow> seg_mem data C off F M m x = m x"
  using pa_mono [of "C + F" "C + M"] pa_less [of "C + F"] pa_le [of C]
  by (auto simp: seg_mem_def seg_limit_def bss_limit_def)

lemma upd_vbrk_same [simp]: "upd_dbi (\<lambda>d. d\<lparr>vbrk := vbrk (dbi s)\<rparr>) s = s"
  by (simp add: upd_dbi_def)

lemma map_bss_none:
  assumes "\<not> ph_filesz ph < ph_memsz ph"
  shows "\<exists>v. map_bss K ph c s = Inr (True, upd_dbi (\<lambda>d. d\<lparr>vbrk := v\<rparr>) s)"
proof (cases "ph_flags ph AND PF_W = 0")
  case True
  then show ?thesis using assms by (intro exI [of _ "vbrk (dbi s)"]) (simp add: map_bss_def retR_def)
next
  case False
  then show ?thesis using assms by (simp add: map_bss_def retR_def) blast
qed

lemma page_end:
  assumes "unat c + n + 0x1000 < 2 ^ 64"
  shows "unat (PAGE_ALIGN (c + of_nat n) + 0x1000 :: u64) = pa (unat c + n) + 4096"
proof -
  have "unat (PAGE_ALIGN (c + of_nat n)) = pa (unat c + n)" using assms by (simp add: unat_align unat_plus_nat)
  then show ?thesis using assms pa_le [of "unat c + n"] by (subst unat_plus) simp_all
qed

lemma zero_span:
  fixes a :: u64
  assumes "lo = unat a" "lo + n \<le> 2 ^ 64"
  shows "(\<lambda>x. if unat (x - a) < n then 0 else m x) = (\<lambda>x. if lo \<le> unat x \<and> unat x < lo + n then 0 else m x)"
  using in_span [of a n] assms by (intro ext) simp

lemma write_zeros:
  assumes "lo = unat a" "lo + n \<le> 2 ^ 64"
  shows "write_bytes m a (replicate n 0) = (\<lambda>x. if lo \<le> unat x \<and> unat x < lo + n then 0 else m x)"
proof -
  have "write_bytes m a (replicate n 0) = (\<lambda>x. if unat (x - a) < n then 0 else m x)" by (rule ext) (simp add: write_bytes_def)
  then show ?thesis using zero_span [OF assms] by simp
qed

lemma page_gap:
  fixes a b :: u64
  assumes "PAGE_OFFT a = 0" "PAGE_OFFT b = 0" "unat a \<le> unat b" "unat b - unat a + 0x1000 < 2 ^ 64"
  shows "unat (PAGE_ROUND (b - a) + 1) = unat b - unat a + 4096"
proof -
  have "PAGE_ROUND (b - a) + 1 = b - a + 0x1000"
    unfolding PAGE_ROUND_1 PAGE_ALIGN_eq [of "b - a"] by (simp add: PAGE_OFFT_diff assms)
  moreover have "unat (b - a) = unat b - unat a" using assms(3) by (simp add: unat_sub_if')
  ultimately show ?thesis using assms(4) by (simp add: unat_plus)
qed

lemma map_bss_some:
  assumes K: "loads K f data" and c: "c \<noteq> 0" and FM: "ph_filesz ph < ph_memsz ph"
    and wrap: "unat c + unat (ph_memsz ph) + 0x2000 \<le> 2 ^ 64"
  defines "C \<equiv> unat c" and "F \<equiv> unat (ph_filesz ph)" and "M \<equiv> unat (ph_memsz ph)"
  shows "\<exists>v tr. map_bss K ph c s = Inr (True, upd_dbi (\<lambda>d. d\<lparr>vbrk := v\<rparr>) (s\<lparr>mem :=
     \<lambda>x. if C + F \<le> unat x \<and> unat x < bss_limit C F M then 0 else mem s x, ktrace := ktrace s @ tr\<rparr>))"
proof -
  let ?fe = "c + ph_filesz ph" and ?me = "PAGE_ALIGN (c + ph_filesz ph) + 0x1000" and ?be = "PAGE_ALIGN (c + ph_memsz ph) + 0x1000"
  have fm: "F < M" using FM by (simp add: F_def M_def word_less_nat_alt)
  have fe: "unat ?fe = C + F" using wrap fm by (simp add: unat_plus C_def F_def M_def)
  have me: "unat ?me = pa (C + F) + 4096" and be: "unat ?be = pa (C + M) + 4096"
    using page_end [of c F] page_end [of c M] wrap fm by (simp_all add: C_def F_def M_def)
  have sp: "pa (C + F) \<le> pa (C + M)" "C + F < pa (C + F) + 4096" "pa (C + M) + 8192 \<le> 2 ^ 64" "pa (C + F) \<le> C + F"
    using pa_mono [of "C + F" "C + M"] pa_less [of "C + F"] pa_le [of "C + M"] pa_le [of "C + F"] wrap fm by (auto simp: C_def M_def)
  define n where "n = unat (?me - ?fe)"
  have n: "n = pa (C + F) + 4096 - (C + F)" using me fe sp by (simp add: n_def unat_sub_if')
  have clear: "write_bytes (mem s) ?fe (replicate n 0) = (\<lambda>x. if C + F \<le> unat x \<and> unat x < pa (C + F) + 4096 then 0 else mem s x)"
    using write_zeros [of "C + F" ?fe n "mem s"] fe n sp by simp
  define s1 where "s1 = s\<lparr>mem := \<lambda>x. if C + F \<le> unat x \<and> unat x < pa (C + F) + 4096 then 0 else mem s x\<rparr>"
  have cmp: "?me < ?be \<longleftrightarrow> pa (C + F) < pa (C + M)" by (simp add: word_less_nat_alt me be)
  have bss: "map_bss K ph c s = (if pa (C + F) < pa (C + M)
     then bindR (mmap K ?me (PAGE_ROUND (?be - ?me) + 1) (PROT_READ OR prot_write (ph_flags ph) OR prot_exec (ph_flags ph)) anon_flags (-1) 0 s1)
       (\<lambda>r s. if r = -1 then retR False s else retR True (upd_dbi (\<lambda>d. d\<lparr>vbrk := ?me + PAGE_ROUND (?be - ?me) + 1\<rparr>) s))
     else retR True (if ph_flags ph AND PF_W \<noteq> 0 then upd_dbi (\<lambda>d. d\<lparr>vbrk := ?me\<rparr>) s1 else s1))"
    using FM c unfolding map_bss_def Let_def PAGE_ROUND_1 n_def [symmetric] clear s1_def [symmetric] cmp by simp
  show ?thesis
  proof (cases "pa (C + F) < pa (C + M)")
    case True
    have al: "PAGE_OFFT ?me = 0" "PAGE_OFFT ?be = 0" by (simp_all add: PAGE_OFFT_add_aligned) (simp_all add: PAGE_OFFT_def)
    have nz: "?me \<noteq> 0" using me by (auto simp: unat_eq_0 [symmetric])
    have "PAGE_OFFT ?me \<noteq> PAGE_OFFT (-1)" unfolding al(1) by (simp add: PAGE_OFFT_def)
    then have m1: "?me \<noteq> -1" by metis
    have len: "unat (PAGE_ROUND (?be - ?me) + 1) = pa (C + M) - pa (C + F) + 4096"
      using page_gap [OF al] sp unfolding me be by simp
    have "(\<lambda>x. if unat (x - ?me) < pa (C + M) - pa (C + F) + 4096 then 0 else mem s1 x)
        = (\<lambda>x. if C + F \<le> unat x \<and> unat x < bss_limit C F M then 0 else mem s x)"
      using True sp by (subst zero_span [OF me [symmetric]]) (auto simp: s1_def bss_limit_def fun_eq_iff)
    then show ?thesis using True m1 unfolding bss mmap_anon_granted [OF K al(1) nz] len
      by (simp add: s1_def retR_def) blast
  next
    case False
    have "mem s1 = (\<lambda>x. if C + F \<le> unat x \<and> unat x < bss_limit C F M then 0 else mem s x)"
      using False by (simp add: s1_def bss_limit_def)
    then have e: "s\<lparr>mem := \<lambda>x. if C + F \<le> unat x \<and> unat x < bss_limit C F M then 0 else mem s x, ktrace := ktrace s @ []\<rparr> = s1"
      by (simp add: s1_def)
    show ?thesis
      by (rule exI [of _ "if ph_flags ph AND PF_W \<noteq> 0 then ?me else vbrk (dbi s1)"], rule exI [of _ "[]"], unfold e bss)
        (use False in \<open>simp add: retR_def\<close>)
  qed
qed

lemma file_pages:
  assumes "unat c + unat f + 0x1000 < 2 ^ 64"
  shows "unat (map_length c f) = pa (unat c + unat f) + 4096 - pa (unat c)"
    and "unat (x - PAGE_ALIGN c) < unat (map_length c f) \<longleftrightarrow> pa (unat c) \<le> unat x \<and> unat x < pa (unat c + unat f) + 4096"
proof -
  have le: "pa (unat c) \<le> pa (unat c + unat f)" by (rule pa_mono) simp
  have e: "unat (PAGE_ALIGN (c + f)) = pa (unat c + unat f)" using assms by (simp add: unat_align unat_plus)
  have "unat (PAGE_ALIGN (c + f) - PAGE_ALIGN c) = pa (unat c + unat f) - pa (unat c)"
    using e le by (simp add: unat_sub_if' unat_align)
  then show l: "unat (map_length c f) = pa (unat c + unat f) + 4096 - pa (unat c)"
    unfolding map_length_eq using assms pa_le [of "unat c + unat f"] le by (subst unat_plus) simp_all
  show "unat (x - PAGE_ALIGN c) < unat (map_length c f) \<longleftrightarrow> pa (unat c) \<le> unat x \<and> unat x < pa (unat c + unat f) + 4096"
    using in_span [of "PAGE_ALIGN c" "unat (map_length c f)" x] assms pa_le [of "unat c + unat f"] le
    by (auto simp: l unat_align)
qed

text \<open>What is added to the addresses of the file.\<close>

definition bias :: "mdata_binary_t \<Rightarrow> u64" where
  "bias b = (if pie b then base b else 0)"

lemma map_load_next:
  assumes K: "loads K (fd (s_binary s)) data" and b: "base (s_binary s) \<noteq> 0"
    and c: "c = bias (s_binary s) + ph_vaddr ph" "PAGE_ALIGN c \<noteq> 0"
    and FM: "ph_filesz ph \<le> ph_memsz ph" and wrap: "unat c + unat (ph_memsz ph) + 0x2000 \<le> 2 ^ 64"
  shows "\<exists>v tr. map_load K E ph s = Inr (0, upd_dbi (\<lambda>d. d\<lparr>vbrk := v\<rparr>) (s\<lparr>mem :=
     seg_mem data (unat c) (unat (ph_offset ph)) (unat (ph_filesz ph)) (unat (ph_memsz ph)) (mem s), ktrace := ktrace s @ tr\<rparr>))"
proof -
  define C F M where "C = unat c" and "F = unat (ph_filesz ph)" and "M = unat (ph_memsz ph)"
  have fm: "F \<le> M" using FM by (simp add: F_def M_def word_le_nat_alt)
  have w: "unat c + unat (ph_filesz ph) + 0x1000 < 2 ^ 64" using wrap fm by (simp add: F_def M_def)
  have c0: "c \<noteq> 0" using c(2) by (auto simp: PAGE_ALIGN_def)
  define m1 where "m1 = (\<lambda>x. if pa C \<le> unat x \<and> unat x < pa (C + F) + 4096 then fbyte data (pa (unat (ph_offset ph)) + (unat x - pa C)) else mem s x)"
  have al: "PAGE_OFFT (PAGE_ALIGN c) = 0" "PAGE_OFFT (PAGE_ALIGN (ph_offset ph)) = 0" by simp_all
  define call where "call = K_mmap (PAGE_ALIGN c) (map_length c (ph_filesz ph)) (PROT_READ OR PROT_WRITE OR prot_exec (ph_flags ph)) file_flags (fd (s_binary s)) (PAGE_ALIGN (ph_offset ph))"
  define s1 where "s1 = s\<lparr>mem := m1, ktrace := ktrace s @ [call]\<rparr>"
  have "unat (x - PAGE_ALIGN c) = unat x - pa C" if "pa C \<le> unat x" for x
    using that by (simp add: unat_sub_if' unat_align C_def)
  then have "(\<lambda>x. if unat (x - PAGE_ALIGN c) < unat (map_length c (ph_filesz ph))
      then fbyte data (unat (PAGE_ALIGN (ph_offset ph)) + unat (x - PAGE_ALIGN c)) else mem s x) = m1"
    by (auto simp: m1_def file_pages(2) [OF w] unat_align C_def F_def fun_eq_iff)
  then have step: "map_next K ph c s = Inr (PAGE_ALIGN c, s1)"
    unfolding map_next_def mmap_file_granted [OF K al(1) c(2) al(2)] by (simp add: s1_def call_def)
  have "PAGE_OFFT (PAGE_ALIGN c) \<noteq> PAGE_OFFT (-1)" unfolding al(1) by (simp add: PAGE_OFFT_def)
  then have nm: "PAGE_ALIGN c \<noteq> -1" by metis
  have "\<exists>v tr. map_bss K ph c s1 = Inr (True, upd_dbi (\<lambda>d. d\<lparr>vbrk := v\<rparr>) (s1\<lparr>mem := seg_mem data C (unat (ph_offset ph)) F M (mem s), ktrace := ktrace s1 @ tr\<rparr>))"
  proof (cases "ph_filesz ph < ph_memsz ph")
    case True
    then have lt: "F < M" by (simp add: F_def M_def word_less_nat_alt)
    have lim: "pa (C + F) + 4096 \<le> bss_limit C F M" "C + F < pa (C + F) + 4096" "pa C \<le> C + F"
      using pa_mono [of "C + F" "C + M"] lt pa_less pa_le [of C] by (auto simp: bss_limit_def)
    have "(\<lambda>x. if C + F \<le> unat x \<and> unat x < bss_limit C F M then 0 else mem s1 x) = seg_mem data C (unat (ph_offset ph)) F M (mem s)"
      using lt lim by (auto simp: fun_eq_iff seg_mem_def s1_def m1_def)
    then show ?thesis using map_bss_some [OF K c0 True wrap, of s1] by (simp add: C_def F_def M_def)
  next
    case False
    then have "F = M" using fm by (simp add: F_def M_def word_less_nat_alt)
    then have "s1\<lparr>mem := seg_mem data C (unat (ph_offset ph)) F M (mem s), ktrace := ktrace s1 @ []\<rparr> = s1"
      by (auto simp: s1_def m1_def seg_mem_def fun_eq_iff)
    then show ?thesis using map_bss_none [OF False, of K c s1] by metis
  qed
  then obtain v tr where bss: "map_bss K ph c s1 = Inr (True, upd_dbi (\<lambda>d. d\<lparr>vbrk := v\<rparr>) (s1\<lparr>mem := seg_mem data C (unat (ph_offset ph)) F M (mem s), ktrace := ktrace s1 @ tr\<rparr>))"
    by blast
  have cur: "(if base (s_binary s) = 0 then 0 else if pie (s_binary s) then base (s_binary s) + ph_vaddr ph else ph_vaddr ph) = c"
    using b by (simp add: c(1) bias_def)
  have "\<exists>tr'. map_load K E ph s = Inr (0, upd_dbi (\<lambda>d. d\<lparr>vbrk := v\<rparr>) (s\<lparr>mem := seg_mem data C (unat (ph_offset ph)) F M (mem s), ktrace := ktrace s @ tr'\<rparr>))"
    unfolding map_load_def Let_def cur using b c0 nm
    by (intro exI [of _ "call # tr @ [K_mprotect (PAGE_ALIGN c) (PAGE_ROUND (ph_memsz ph))
        (PROT_READ OR prot_exec (ph_flags ph) OR prot_write (ph_flags ph) OR prot_exec (ph_flags ph))]"])
      (simp add: step bss mprotect_loads [OF K] retR_def, simp add: s1_def upd_dbi_def)
  then show ?thesis by (auto simp: C_def F_def M_def)
qed

lemma pa_add: "PAGE_OFFT c = 0 \<Longrightarrow> pa (unat c + n) = unat c + pa n"
proof -
  assume "PAGE_OFFT c = 0"
  then have "unat c mod 4096 = 0" using unat_PAGE_OFFT [of c] by simp
  then obtain q where q: "unat c = 4096 * q" by auto
  have "n mod 4096 \<le> n" by simp
  then show ?thesis by (simp add: pa_def q)
qed

text \<open>The address at which the first segment is mapped.\<close>

definition first_addr :: "host_env \<Rightarrow> mach \<Rightarrow> phdr \<Rightarrow> u64" where
  "first_addr E s ph = (if pie (s_binary s) then base_address E s else ph_vaddr ph)"

lemma map_load_first:
  assumes K: "loads K (fd (s_binary s)) data" and b: "base (s_binary s) = 0"
    and a: "a = first_addr E s ph" "PAGE_OFFT a = 0" "a \<noteq> 0" and wrap: "unat a + unat (ph_filesz ph) + 0x1000 < 2 ^ 64"
  shows "\<exists>v tr. map_load K E ph s = Inr (0, upd_dbi (\<lambda>d. d\<lparr>vbrk := v\<rparr>) (s\<lparr>mem :=
     seg_mem data (unat a) (unat (ph_offset ph)) (unat (ph_filesz ph)) (unat (ph_filesz ph)) (mem s), ktrace := ktrace s @ tr,
     s_binary := (s_binary s)\<lparr>base := a\<rparr>\<rparr>))"
proof -
  define C F where "C = unat a" and "F = unat (ph_filesz ph)"
  have l: "unat (map_length 0 (ph_filesz ph)) = pa F + 4096"
    using file_pages(1) [of 0 "ph_filesz ph"] wrap by (simp add: F_def pa_def)
  have al: "PAGE_OFFT (PAGE_ALIGN (ph_offset ph)) = 0" by simp
  have pc: "pa C = C" "pa (C + F) = C + pa F" using pa_add [OF a(2), of 0] pa_add [OF a(2), of F] by (simp_all add: C_def pa_def)
  define call where "call = K_mmap a (map_length 0 (ph_filesz ph)) (PROT_READ OR PROT_WRITE OR prot_exec (ph_flags ph)) file_flags (fd (s_binary s)) (PAGE_ALIGN (ph_offset ph))"
  have "unat (x - a) < pa F + 4096 \<longleftrightarrow> C \<le> unat x \<and> unat x < C + pa F + 4096" for x
    using in_span [of a "pa F + 4096" x] wrap pa_le [of F] by (auto simp: C_def F_def)
  moreover have "unat (x - a) = unat x - C" if "C \<le> unat x" for x using that by (simp add: unat_sub_if' C_def)
  ultimately have "(\<lambda>x. if unat (x - a) < unat (map_length 0 (ph_filesz ph)) then fbyte data (unat (PAGE_ALIGN (ph_offset ph)) + unat (x - a)) else mem s x)
      = seg_mem data C (unat (ph_offset ph)) F F (mem s)"
    by (auto simp: fun_eq_iff seg_mem_def l pc unat_align)
  then have step: "map_first K E ph s = Inr (a, s\<lparr>mem := seg_mem data C (unat (ph_offset ph)) F F (mem s), ktrace := ktrace s @ [call],
      s_binary := (s_binary s)\<lparr>base := a\<rparr>\<rparr>)"
    unfolding map_first_def first_addr_def [symmetric] a(1) [symmetric] mmap_file_granted [OF K a(2,3) al] by (simp add: retR_def call_def)
  have "PAGE_OFFT a \<noteq> PAGE_OFFT (-1)" unfolding a(2) by (simp add: PAGE_OFFT_def)
  then have nm: "a \<noteq> -1" by metis
  define s1 where "s1 = s\<lparr>mem := seg_mem data C (unat (ph_offset ph)) F F (mem s), ktrace := ktrace s @ [call], s_binary := (s_binary s)\<lparr>base := a\<rparr>\<rparr>"
  obtain v where v: "map_bss K ph 0 s1 = Inr (True, upd_dbi (\<lambda>d. d\<lparr>vbrk := v\<rparr>) s1)"
  proof (cases "ph_flags ph AND PF_W = 0")
    case True
    then show thesis using that [of "vbrk (dbi s1)"] by (simp add: map_bss_def retR_def)
  next
    case False
    then show thesis using that by (simp add: map_bss_def retR_def)
  qed
  have "\<exists>tr. map_load K E ph s = Inr (0, upd_dbi (\<lambda>d. d\<lparr>vbrk := v\<rparr>) (s\<lparr>mem :=
     seg_mem data C (unat (ph_offset ph)) F F (mem s), ktrace := ktrace s @ tr, s_binary := (s_binary s)\<lparr>base := a\<rparr>\<rparr>))"
    using b nm v unfolding map_load_def Let_def step s1_def [symmetric]
    by (intro exI [of _ "[call, K_mprotect a (PAGE_ROUND (ph_memsz ph))
        (PROT_READ OR prot_exec (ph_flags ph) OR prot_write (ph_flags ph) OR prot_exec (ph_flags ph))]"])
      (simp add: mprotect_loads [OF K] retR_def, simp add: s1_def upd_dbi_def)
  then show ?thesis by (auto simp: C_def F_def)
qed

section \<open>Loading all segments\<close>

text \<open>A segment is loaded: its file part shows the bytes of the file, the rest is zero.\<close>

definition seg_loaded :: "u8 list \<Rightarrow> u64 \<Rightarrow> memory \<Rightarrow> phdr \<Rightarrow> bool" where
  "seg_loaded data z m ph = (\<forall>t < unat (ph_memsz ph). m (z + ph_vaddr ph + of_nat t) =
     (if t < unat (ph_filesz ph) then fbyte data (unat (ph_offset ph) + t) else 0))"

text \<open>What the ELF format demands of a loadable segment, and that the addresses stay below the top.\<close>

definition segment_ok :: "u64 \<Rightarrow> phdr \<Rightarrow> bool" where
  "segment_ok z ph = (PAGE_ALIGN (z + ph_vaddr ph) \<noteq> 0 \<and> ph_filesz ph \<le> ph_memsz ph \<and>
     unat (z + ph_vaddr ph) + unat (ph_memsz ph) + 0x2000 \<le> 2 ^ 64 \<and> PAGE_OFFT (z + ph_vaddr ph) = PAGE_OFFT (ph_offset ph))"

text \<open>The later segment begins on a page behind the earlier one.\<close>

definition seg_before :: "u64 \<Rightarrow> phdr \<Rightarrow> phdr \<Rightarrow> bool" where
  "seg_before z d ph = (unat (z + ph_vaddr d) + unat (ph_memsz d) \<le> pa (unat (z + ph_vaddr ph)))"

text \<open>The addresses that loading a segment may change, and those of all loadable segments.\<close>

definition seg_span :: "u64 \<Rightarrow> phdr \<Rightarrow> u64 \<Rightarrow> bool" where
  "seg_span z ph x = (pa (unat (z + ph_vaddr ph)) \<le> unat x \<and>
     unat x < seg_limit (unat (z + ph_vaddr ph)) (unat (ph_filesz ph)) (unat (ph_memsz ph)))"

definition footprint :: "u64 \<Rightarrow> phdr list \<Rightarrow> u64 \<Rightarrow> bool" where
  "footprint z phs x = (\<exists>ph \<in> set phs. ph_type ph = PT_LOAD \<and> seg_span z ph x)"

lemma seg_mem_loaded:
  assumes "segment_ok z ph" and "C = unat (z + ph_vaddr ph)" and "M = unat (ph_memsz ph)" and "F = unat (ph_filesz ph)"
  shows "seg_loaded data z (seg_mem data C (unat (ph_offset ph)) F M m) ph"
  unfolding seg_loaded_def
proof (intro allI impI)
  fix t assume "t < unat (ph_memsz ph)"
  then have t: "t < M" by (simp add: assms(3))
  have fm: "F \<le> M" using assms by (simp add: segment_ok_def word_le_nat_alt)
  have x: "unat (z + ph_vaddr ph + of_nat t) = C + t" using assms(1-3) t by (simp add: segment_ok_def unat_plus_nat)
  have md: "C mod 4096 = unat (ph_offset ph) mod 4096"
    using assms(1,2) by (metis segment_ok_def unat_PAGE_OFFT)
  have off: "pa (unat (ph_offset ph)) + (C + t - pa C) = unat (ph_offset ph) + t"
  proof -
    have "C - pa C = C mod 4096" "unat (ph_offset ph) - pa (unat (ph_offset ph)) = unat (ph_offset ph) mod 4096"
      by (simp_all add: pa_def)
    then show ?thesis using md pa_le [of C] pa_le [of "unat (ph_offset ph)"] by linarith
  qed
  have "C + t < (if F < M then C + F else pa (C + F) + 4096)" if "t < F" using that pa_less [of "C + F"] by simp
  moreover have "C + t < bss_limit C F M" if "F < M"
    using t that pa_less [of "C + M"] pa_mono [of "C + F" "C + M"] by (auto simp: bss_limit_def)
  ultimately show "seg_mem data C (unat (ph_offset ph)) F M m (z + ph_vaddr ph + of_nat t) =
     (if t < unat (ph_filesz ph) then fbyte data (unat (ph_offset ph) + t) else 0)"
    using x off pa_le [of C] t fm assms(4) by (auto simp: seg_mem_def)
qed

lemma seg_mem_keeps:
  assumes "seg_loaded data z m d" and "seg_before z d ph" and "segment_ok z d" and "C = unat (z + ph_vaddr ph)"
  shows "seg_loaded data z (seg_mem data C off F M m) d"
  unfolding seg_loaded_def
proof (intro allI impI)
  fix t assume t: "t < unat (ph_memsz d)"
  have "unat (z + ph_vaddr d + of_nat t) = unat (z + ph_vaddr d) + t" using assms(3) t by (simp add: segment_ok_def unat_plus_nat)
  then have "\<not> pa C \<le> unat (z + ph_vaddr d + of_nat t)" using assms(2,4) t by (simp add: seg_before_def)
  then have "seg_mem data C off F M m (z + ph_vaddr d + of_nat t) = m (z + ph_vaddr d + of_nat t)"
    by (intro seg_mem_outside) simp
  then show "seg_mem data C off F M m (z + ph_vaddr d + of_nat t) =
      (if t < unat (ph_filesz d) then fbyte data (unat (ph_offset d) + t) else 0)"
    using assms(1) t by (simp add: seg_loaded_def)
qed

lemma seg_vbrk [simp]:
  "bias (s_binary (upd_dbi f s)) = bias (s_binary s)" "fbinary (s_binary (upd_dbi f s)) = fbinary (s_binary s)"
  "fd (s_binary (upd_dbi f s)) = fd (s_binary s)" "pie (s_binary (upd_dbi f s)) = pie (s_binary s)"
  by (simp_all add: upd_dbi_def bias_def)

text \<open>Descriptors that agree on everything loading looks at, and the rest of the process unchanged.\<close>

definition load_erase :: "mach \<Rightarrow> mach" where
  "load_erase s = (upd_dbi (\<lambda>d. d\<lparr>vbrk := 0\<rparr>) s)\<lparr>mem := (\<lambda>_. 0), ktrace := []\<rparr>"

lemma load_erase_vbrk [simp]: "load_erase (upd_dbi (\<lambda>d. d\<lparr>vbrk := v\<rparr>) s) = load_erase s"
  by (simp add: load_erase_def upd_dbi_def)

lemma load_erase_mem [simp]: "load_erase (s\<lparr>mem := m, ktrace := tr\<rparr>) = load_erase s"
  by (simp add: load_erase_def upd_dbi_def)

lemma load_erase_eq:
  assumes "load_erase s = load_erase s'"
  shows "bias (s_binary s) = bias (s_binary s')" "fbinary (s_binary s) = fbinary (s_binary s')"
    "fd (s_binary s) = fd (s_binary s')" "base (s_binary s) = base (s_binary s')" "pie (s_binary s) = pie (s_binary s')"
    "interp (s_binary s) = interp (s_binary s')"
proof -
  let ?z = "\<lambda>d :: dbi_instr_t. d\<lparr>vbrk := 0\<rparr>"
  have "s_binary (load_erase s) = s_binary (load_erase s')" using assms by simp
  then have "(s_binary s)\<lparr>dbi_handler := ?z (dbi s)\<rparr> = (s_binary s')\<lparr>dbi_handler := ?z (dbi s')\<rparr>"
    by (simp add: load_erase_def upd_dbi_def)
  then show b: "base (s_binary s) = base (s_binary s')" "pie (s_binary s) = pie (s_binary s')"
    "fbinary (s_binary s) = fbinary (s_binary s')" "fd (s_binary s) = fd (s_binary s')" "interp (s_binary s) = interp (s_binary s')"
    by (metis mdata_binary_t.update_convs(11) mdata_binary_t.surjective mdata_binary_t.ext_inject)+
  show "bias (s_binary s) = bias (s_binary s')" by (simp add: bias_def b)
qed

definition loads_of :: "elf_file \<Rightarrow> u64 list \<Rightarrow> phdr list" where
  "loads_of f ps = filter (\<lambda>ph. ph_type ph = PT_LOAD) (map (\<lambda>p. the (read_phdr f p)) ps)"

lemma read_phdr_type: "read_phdr f p = Some ph \<Longrightarrow> p_type f p = Some (ph_type ph)"
  by (auto simp: read_phdr_def bind_eq_Some_conv)

lemma map_phdrs_loads:
  assumes K: "loads K (fd (s_binary s)) data" and b: "base (s_binary s) \<noteq> 0"
    and ps: "\<forall>p \<in> set ps. \<exists>ph. read_phdr (fbinary (s_binary s)) p = Some ph \<and> ph_type ph \<noteq> PT_INTERP \<and>
        (ph_type ph = PT_LOAD \<longrightarrow> segment_ok (bias (s_binary s)) ph)"
    and srt: "sorted_wrt (seg_before (bias (s_binary s))) (D @ loads_of (fbinary (s_binary s)) ps)"
    and D: "\<forall>d \<in> set D. segment_ok (bias (s_binary s)) d \<and> seg_loaded data (bias (s_binary s)) (mem s) d"
  shows "\<exists>s'. map_phdrs mb K E ps s = Inr (True, s') \<and> load_erase s' = load_erase s \<and>
    (\<forall>d \<in> set (D @ loads_of (fbinary (s_binary s)) ps). seg_loaded data (bias (s_binary s)) (mem s') d) \<and>
    (\<forall>x. (\<forall>d \<in> set (loads_of (fbinary (s_binary s)) ps). \<not> seg_span (bias (s_binary s)) d x) \<longrightarrow> mem s' x = mem s x)"
  using assms
proof (induction ps arbitrary: s D)
  case Nil
  then show ?case by (auto simp: loads_of_def retR_def)
next
  case (Cons p ps)
  let ?b = "bias (s_binary s)" and ?f = "fbinary (s_binary s)"
  obtain ph where ph: "read_phdr ?f p = Some ph" "ph_type ph \<noteq> PT_INTERP" "ph_type ph = PT_LOAD \<longrightarrow> segment_ok ?b ph"
    using Cons.prems(3) by auto
  show ?case
  proof (cases "ph_type ph = PT_LOAD")
    case False
    then have "map_phdrs mb K E (p # ps) s = map_phdrs mb K E ps s" "loads_of ?f (p # ps) = loads_of ?f ps"
      using ph read_phdr_type [OF ph(1)] by (simp_all add: loads_of_def)
    then show ?thesis using Cons.IH [OF Cons.prems(1,2)] Cons.prems(3-) by simp
  next
    case True
    then have ok: "segment_ok ?b ph" and l: "loads_of ?f (p # ps) = ph # loads_of ?f ps" using ph by (simp_all add: loads_of_def)
    define c where "c = ?b + ph_vaddr ph"
    have cc: "PAGE_ALIGN c \<noteq> 0" "ph_filesz ph \<le> ph_memsz ph" "unat c + unat (ph_memsz ph) + 0x2000 \<le> 2 ^ 64"
      using ok by (simp_all add: segment_ok_def c_def)
    obtain v tr where r: "map_load K E ph s = Inr (0, upd_dbi (\<lambda>d. d\<lparr>vbrk := v\<rparr>) (s\<lparr>mem :=
       seg_mem data (unat c) (unat (ph_offset ph)) (unat (ph_filesz ph)) (unat (ph_memsz ph)) (mem s), ktrace := ktrace s @ tr\<rparr>))"
      using map_load_next [OF Cons.prems(1,2) c_def cc, of E] by blast
    define s1 where "s1 = upd_dbi (\<lambda>d. d\<lparr>vbrk := v\<rparr>) (s\<lparr>mem :=
       seg_mem data (unat c) (unat (ph_offset ph)) (unat (ph_filesz ph)) (unat (ph_memsz ph)) (mem s), ktrace := ktrace s @ tr\<rparr>)"
    have er: "load_erase s1 = load_erase s" by (simp add: s1_def)
    note eq = load_erase_eq [OF er]
    have m1: "mem s1 = seg_mem data (unat c) (unat (ph_offset ph)) (unat (ph_filesz ph)) (unat (ph_memsz ph)) (mem s)" by (simp add: s1_def)
    have new: "seg_loaded data ?b (mem s1) ph" unfolding m1 by (rule seg_mem_loaded [OF ok]) (simp_all add: c_def)
    have old: "seg_loaded data ?b (mem s1) d" if "d \<in> set D" for d
      unfolding m1 by (rule seg_mem_keeps [where ph = ph]) (use that Cons.prems(4,5) l c_def in \<open>auto simp: sorted_wrt_append\<close>)
    have "\<exists>s'. map_phdrs mb K E ps s1 = Inr (True, s') \<and> load_erase s' = load_erase s1 \<and>
      (\<forall>d \<in> set ((D @ [ph]) @ loads_of (fbinary (s_binary s1)) ps). seg_loaded data (bias (s_binary s1)) (mem s') d) \<and>
      (\<forall>x. (\<forall>d \<in> set (loads_of (fbinary (s_binary s1)) ps). \<not> seg_span (bias (s_binary s1)) d x) \<longrightarrow> mem s' x = mem s1 x)"
      by (rule Cons.IH) (use Cons.prems ok old new l in \<open>simp_all add: eq\<close>)
    moreover have "map_phdrs mb K E (p # ps) s = map_phdrs mb K E ps s1"
      using True ph read_phdr_type [OF ph(1)] r by (simp add: s1_def)
    moreover have "mem s1 x = mem s x" if "\<not> seg_span ?b ph x" for x
      unfolding m1 by (rule seg_mem_outside) (use that in \<open>simp add: seg_span_def c_def\<close>)
    ultimately show ?thesis unfolding l by (auto simp: er eq)
  qed
qed

section \<open>Loading a program\<close>

definition strip :: "phdr \<Rightarrow> phdr" where
  "strip ph = ph\<lparr>ph_paddr := 0, ph_align := 0\<rparr>"

lemma strip_simps [simp]:
  "ph_type (strip ph) = ph_type ph" "ph_vaddr (strip ph) = ph_vaddr ph" "ph_offset (strip ph) = ph_offset ph"
  "ph_filesz (strip ph) = ph_filesz ph" "ph_memsz (strip ph) = ph_memsz ph"
  "segment_ok z (strip ph) = segment_ok z ph" "seg_loaded data z m (strip ph) = seg_loaded data z m ph"
  "seg_before z (strip d) ph = seg_before z d ph" "seg_before z d (strip ph) = seg_before z d ph" "seg_span z (strip ph) = seg_span z ph"
  by (simp_all add: strip_def segment_ok_def seg_loaded_def seg_before_def seg_span_def fun_eq_iff)

lemma image_read_phdr:
  assumes "length ident = 12" and "length sect = 6" and "length phs < 2 ^ 16" and "\<forall>p \<in> set phs. phdr_ok p"
    and "f = elf_image ident ty entry shoff sect phs tail" and "i < length phs"
  shows "read_phdr f (phdr_ptrs (length phs) ! i) = Some (strip (phs ! i))"
  using image_fields [OF assms(1,2,6,3) _ assms(5) refl] assms(4,6) by (simp add: read_phdr_def strip_def)

lemma image_read_all:
  assumes "length ident = 12" and "length sect = 6" and "length phs < 2 ^ 16" and "\<forall>p \<in> set phs. phdr_ok p"
    and "f = elf_image ident ty entry shoff sect phs tail"
  shows "map (read_phdr f) (phdr_ptrs (length phs)) = map (Some \<circ> strip) phs"
  using image_read_phdr [OF assms] by (intro nth_equalityI) (simp_all add: phdr_ptrs_def)

lemma map_phdrs_skip:
  assumes "\<forall>p \<in> set ps. \<exists>ph. read_phdr (fbinary (s_binary s)) p = Some ph \<and> ph_type ph \<noteq> PT_LOAD \<and> ph_type ph \<noteq> PT_INTERP"
  shows "map_phdrs mb K E (ps @ qs) s = map_phdrs mb K E qs s"
  using assms by (induction ps) (auto dest: read_phdr_type)

text \<open>
  What the loader assumes of the headers of a program without interpreter, \<open>a\<close> being the address of the first loadable
  segment and \<open>z\<close> what is added to the addresses of the file.
\<close>

definition loadable :: "bool \<Rightarrow> u64 \<Rightarrow> u64 \<Rightarrow> phdr list \<Rightarrow> bool" where
  "loadable pic a z phs = (\<exists>pre p1 rest. phs = pre @ p1 # rest \<and>
     (\<forall>p \<in> set pre. ph_type p \<noteq> PT_LOAD) \<and> (\<forall>p \<in> set phs. ph_type p \<noteq> PT_INTERP \<and> (ph_type p = PT_LOAD \<longrightarrow> segment_ok z p)) \<and>
     ph_type p1 = PT_LOAD \<and> a = z + ph_vaddr p1 \<and> a \<noteq> 0 \<and> PAGE_OFFT a = 0 \<and> ph_memsz p1 = ph_filesz p1 \<and>
     (if pic then z = a else z = 0) \<and> sorted_wrt (seg_before z) (filter (\<lambda>p. ph_type p = PT_LOAD) phs))"

lemma stripped_headers:
  assumes "map (read_phdr f) ps = map (Some \<circ> strip) phs" "p \<in> set ps"
  shows "\<exists>ph \<in> set phs. read_phdr f p = Some (strip ph)"
proof -
  have "read_phdr f p \<in> set (map (Some \<circ> strip) phs)" unfolding assms(1) [symmetric] using assms(2) by simp
  then show ?thesis by auto
qed

lemma stripped_loads:
  assumes "map (read_phdr f) ps = map (Some \<circ> strip) phs"
  shows "loads_of f ps = map strip (filter (\<lambda>p. ph_type p = PT_LOAD) phs)"
proof -
  have "map (\<lambda>p. the (read_phdr f p)) ps = map the (map (read_phdr f) ps)" by simp
  then show ?thesis unfolding loads_of_def assms by (simp add: filter_map comp_def)
qed

text \<open>The address that is taken for the first segment.\<close>

lemma first_addr_base:
  assumes "a = z + ph_vaddr p" "if pie (s_binary s) then z = a else z = 0" "pie (s_binary s) \<longrightarrow> a = base_address E s"
  shows "a = first_addr E s (strip p)"
  using assms by (cases "pie (s_binary s)") (simp_all add: first_addr_def)

lemma map_phdrs_program:
  assumes K: "loads K (fd (s_binary s)) data" and b: "base (s_binary s) = 0"
    and rd: "map (read_phdr (fbinary (s_binary s))) ps = map (Some \<circ> strip) phs"
    and ld: "loadable (pie (s_binary s)) a z phs" and a: "pie (s_binary s) \<longrightarrow> a = base_address E s"
  shows "\<exists>s'. map_phdrs mb K E ps s = Inr (True, s') \<and> load_erase s' = load_erase (s\<lparr>s_binary := (s_binary s)\<lparr>base := a\<rparr>\<rparr>) \<and>
    (\<forall>ph \<in> set phs. ph_type ph = PT_LOAD \<longrightarrow> seg_loaded data z (mem s') ph) \<and> (\<forall>x. \<not> footprint z phs x \<longrightarrow> mem s' x = mem s x)"
proof -
  let ?f = "fbinary (s_binary s)"
  obtain pre p1 rest where phs: "phs = pre @ p1 # rest" and pre: "\<forall>p \<in> set pre. ph_type p \<noteq> PT_LOAD"
    and ok: "\<forall>p \<in> set phs. ph_type p \<noteq> PT_INTERP \<and> (ph_type p = PT_LOAD \<longrightarrow> segment_ok z p)"
    and p1: "ph_type p1 = PT_LOAD" "a = z + ph_vaddr p1" "a \<noteq> 0" "PAGE_OFFT a = 0" "ph_memsz p1 = ph_filesz p1"
    and z: "if pie (s_binary s) then z = a else z = 0" and srt: "sorted_wrt (seg_before z) (filter (\<lambda>p. ph_type p = PT_LOAD) phs)"
    using ld unfolding loadable_def by blast
  obtain ps0 q qs where ps: "ps = ps0 @ q # qs" and r0: "map (read_phdr ?f) ps0 = map (Some \<circ> strip) pre"
    and rq: "read_phdr ?f q = Some (strip p1)" and rs: "map (read_phdr ?f) qs = map (Some \<circ> strip) rest"
    using rd unfolding phs by (auto simp: map_eq_append_conv map_eq_Cons_conv)
  have sk: "map_phdrs mb K E ps s = map_phdrs mb K E (q # qs) s"
    unfolding ps
    by (rule map_phdrs_skip) (use stripped_headers [OF r0] pre ok phs in fastforce)
  note fa = first_addr_base [OF p1(2) z a]
  have s1ok: "segment_ok z p1" using ok p1(1) phs by simp
  then have w: "unat a + unat (ph_filesz (strip p1)) + 0x1000 < 2 ^ 64" using p1(2,5) by (simp add: segment_ok_def)
  obtain v tr where r: "map_load K E (strip p1) s = Inr (0, upd_dbi (\<lambda>d. d\<lparr>vbrk := v\<rparr>) (s\<lparr>mem :=
     seg_mem data (unat a) (unat (ph_offset p1)) (unat (ph_filesz p1)) (unat (ph_filesz p1)) (mem s), ktrace := ktrace s @ tr,
     s_binary := (s_binary s)\<lparr>base := a\<rparr>\<rparr>))"
    using map_load_first [OF K b fa p1(4,3) w] by auto
  define s1 where "s1 = upd_dbi (\<lambda>d. d\<lparr>vbrk := v\<rparr>) (s\<lparr>mem :=
     seg_mem data (unat a) (unat (ph_offset p1)) (unat (ph_filesz p1)) (unat (ph_filesz p1)) (mem s), ktrace := ktrace s @ tr,
     s_binary := (s_binary s)\<lparr>base := a\<rparr>\<rparr>)"
  have er: "load_erase s1 = load_erase (s\<lparr>s_binary := (s_binary s)\<lparr>base := a\<rparr>\<rparr>)"
    by (simp add: s1_def load_erase_def upd_dbi_def)
  note eq = load_erase_eq [OF er, simplified]
  have zb: "bias (s_binary s1) = z" using z by (simp add: eq bias_def split: if_splits)
  have "map_phdrs mb K E (q # qs) s = map_phdrs mb K E qs s1"
    using read_phdr_type [OF rq] rq p1(1) r by (simp add: s1_def)
  moreover note lo = stripped_loads [OF rs]
  moreover have "\<exists>s'. map_phdrs mb K E qs s1 = Inr (True, s') \<and> load_erase s' = load_erase s1 \<and>
    (\<forall>d \<in> set ([p1] @ loads_of (fbinary (s_binary s1)) qs). seg_loaded data (bias (s_binary s1)) (mem s') d) \<and>
    (\<forall>x. (\<forall>d \<in> set (loads_of (fbinary (s_binary s1)) qs). \<not> seg_span (bias (s_binary s1)) d x) \<longrightarrow> mem s' x = mem s1 x)"
  proof (rule map_phdrs_loads)
    show "loads K (fd (s_binary s1)) data" "base (s_binary s1) \<noteq> 0" using K p1(3) by (simp_all add: eq)
    show "\<forall>p \<in> set qs. \<exists>ph. read_phdr (fbinary (s_binary s1)) p = Some ph \<and> ph_type ph \<noteq> PT_INTERP \<and>
        (ph_type ph = PT_LOAD \<longrightarrow> segment_ok (bias (s_binary s1)) ph)"
      using stripped_headers [OF rs] ok phs by (fastforce simp: eq(2) zb)
    show "sorted_wrt (seg_before (bias (s_binary s1))) ([p1] @ loads_of (fbinary (s_binary s1)) qs)"
      using srt pre p1(1) by (simp add: eq(2) zb lo phs sorted_wrt_map sorted_wrt_append)
    show "\<forall>d \<in> set [p1]. segment_ok (bias (s_binary s1)) d \<and> seg_loaded data (bias (s_binary s1)) (mem s1) d"
      using s1ok seg_mem_loaded [OF s1ok, of "unat a"] p1(2,5) by (simp add: zb) (simp add: s1_def)
  qed
  moreover have "mem s1 x = mem s x" if "\<not> seg_span z p1 x" for x
    using that p1(2,5) by (simp add: s1_def seg_span_def seg_mem_outside)
  ultimately show ?thesis using sk er p1(1) pre phs by (auto simp: eq(2) zb lo footprint_def)
qed

text \<open>
  The file \<open>name\<close> can be opened and read, and is an ELF image of the type \<open>ty\<close> with the entry point \<open>entry\<close> and the program headers
  \<open>phs\<close>; \<open>opened\<close> is the descriptor that is built for it.
\<close>

definition opens :: "host_env \<Rightarrow> string \<Rightarrow> host_file \<Rightarrow> u64 \<Rightarrow> u64 \<Rightarrow> phdr list \<Rightarrow> bool" where
  "opens E name hf ty entry phs = (host_open E name = Some hf \<and> hf_stat hf \<and> cs_open_ok E \<and> cs_malloc_ok E \<and>
     ty < 2 ^ 16 \<and> length phs < 2 ^ 16 \<and> (\<forall>p \<in> set phs. phdr_ok p) \<and>
     (\<exists>ident shoff sect tail. length ident = 12 \<and> length sect = 6 \<and> hf_data hf = elf_image ident ty entry shoff sect phs tail))"

lemma opensI:
  assumes "host_open E name = Some hf" "hf_stat hf" "cs_open_ok E" "cs_malloc_ok E" "hf_data hf = elf_image ident ty entry shoff sect phs tail"
    "length ident = 12" "length sect = 6" "ty < 2 ^ 16" "length phs < 2 ^ 16" "\<forall>p \<in> set phs. phdr_ok p"
  shows "opens E name hf ty entry phs"
  unfolding opens_def using assms by blast

definition opened :: "host_env \<Rightarrow> string \<Rightarrow> host_file \<Rightarrow> bool \<Rightarrow> nat \<Rightarrow> mdata_binary_t" where
  "opened E name hf pic n = (alloc_binary E name hf n)\<lparr>s_ph := phdr_ptrs n, pie := pic\<rparr>"

lemma opened_simps [simp]:
  "fbinary (opened E name hf pic n) = hf_data hf" "fd (opened E name hf pic n) = hf_fd hf" "s_ph (opened E name hf pic n) = phdr_ptrs n"
  "pie (opened E name hf pic n) = pic" "base (opened E name hf pic n) = 0" "interp (opened E name hf pic n) = None"
  "memory_map (opened E name hf pic n) = 0" "dbi_handler (opened E name hf pic n) = alloc_dbi E"
  by (simp_all add: opened_def alloc_binary_def calloc_binary_def)

lemma opens_image:
  assumes "opens E name hf ty entry phs"
  shows "init_analysis K E name s = Inr (Some (opened E name hf (ty = ET_DYN) (length phs)), s)"
    "map (read_phdr (hf_data hf)) (phdr_ptrs (length phs)) = map (Some \<circ> strip) phs"
    "e_entry (hf_data hf) = Some entry" "e_phentsize (hf_data hf) = Some 56" "e_phnum (hf_data hf) = Some (of_nat (length phs))"
    "e_phoff (hf_data hf) = Some 64"
proof -
  obtain ident shoff sect tail where i: "length ident = 12" "length sect = 6" "hf_data hf = elf_image ident ty entry shoff sect phs tail"
    and o': "host_open E name = Some hf" "hf_stat hf" "cs_open_ok E" "cs_malloc_ok E" "ty < 2 ^ 16" "length phs < 2 ^ 16" "\<forall>p \<in> set phs. phdr_ok p"
    using assms by (auto simp: opens_def)
  note img = i(1,2) o'(5,6) i(3)
  note h = image_header [OF img]
  show "init_analysis K E name s = Inr (Some (opened E name hf (ty = ET_DYN) (length phs)), s)"
    using init_analysis_builds [OF o'(1-4) h(1,6) image_parse [OF img] h(2)] o'(6) by (simp add: opened_def unat_of_nat_64)
  show "map (read_phdr (hf_data hf)) (phdr_ptrs (length phs)) = map (Some \<circ> strip) phs"
    by (rule image_read_all [OF i(1,2) o'(6,7) i(3)])
  show "e_entry (hf_data hf) = Some entry" "e_phentsize (hf_data hf) = Some 56" "e_phnum (hf_data hf) = Some (of_nat (length phs))"
    "e_phoff (hf_data hf) = Some 64" using h by simp_all
qed

text \<open>\<^verbatim>\<open>map_binary\<close> after the descriptor was built.\<close>

lemma map_binary_opened:
  assumes "opens E name hf ty entry phs"
  shows "map_binary (Suc fuel) K E name args s =
     bindR (map_phdrs (\<lambda>n. map_binary fuel K E n None) K E (phdr_ptrs (length phs))
         (s\<lparr>s_binary := opened E name hf (ty = ET_DYN) (length phs)\<rparr>)) (\<lambda>ok s.
       if \<not> ok then retR False s
       else bindR (case args of
                     None \<Rightarrow> retR 0 s
                   | Some a \<Rightarrow> setup_stack (a_fuel a) K (a_argv a) (a_argc a) (a_random a) (a_arch a) s) (\<lambda>_ s.
         case entry_point (s_binary s) of
           None \<Rightarrow> haltR Buffer_overrun s
         | Some e \<Rightarrow> retR True (s\<lparr>s_binary := (s_binary s)\<lparr>exec_entry := e\<rparr>\<rparr>)))"
  by (simp add: opens_image(1) [OF assms])

lemma map_phdrs_opened:
  assumes "opens E name hf ty entry phs" and "loads K (hf_fd hf) (hf_data hf)" and "loadable (ty = ET_DYN) a z phs"
    and "ty = ET_DYN \<longrightarrow> a = base_address E s" and b: "b = opened E name hf (ty = ET_DYN) (length phs)"
  shows "\<exists>s'. map_phdrs mb K E (phdr_ptrs (length phs)) (s\<lparr>s_binary := b\<rparr>) = Inr (True, s') \<and>
    load_erase s' = load_erase (s\<lparr>s_binary := b\<lparr>base := a\<rparr>\<rparr>) \<and> entry_point (s_binary s') = Some (z + entry) \<and>
    (\<forall>ph \<in> set phs. ph_type ph = PT_LOAD \<longrightarrow> seg_loaded (hf_data hf) z (mem s') ph) \<and> (\<forall>x. \<not> footprint z phs x \<longrightarrow> mem s' x = mem s x)"
proof -
  let ?s = "s\<lparr>s_binary := b\<rparr>"
  obtain s1 where s1: "map_phdrs mb K E (phdr_ptrs (length phs)) ?s = Inr (True, s1)"
    "load_erase s1 = load_erase (s\<lparr>s_binary := b\<lparr>base := a\<rparr>\<rparr>)"
    "\<forall>ph \<in> set phs. ph_type ph = PT_LOAD \<longrightarrow> seg_loaded (hf_data hf) z (mem s1) ph" "\<forall>x. \<not> footprint z phs x \<longrightarrow> mem s1 x = mem s x"
    using map_phdrs_program [of K ?s "hf_data hf" "phdr_ptrs (length phs)" phs a z E mb]
      opens_image(2) [OF assms(1)] assms(2-4) by (cases "ty = ET_DYN") (auto simp: b base_address_def)
  note eq = load_erase_eq [OF s1(2)]
  have "entry_point (s_binary s1) = Some (z + entry)"
    using assms(3) opens_image(3) [OF assms(1)] by (auto simp: entry_point_def eq b loadable_def split: if_splits)
  then show ?thesis using s1 by blast
qed

section \<open>Properties\<close>


definition demo_load_kernel :: kernel where
  "demo_load_kernel tr c m = (case c of
     K_mmap a len p fl f off \<Rightarrow> \<lparr>k_ret = a, k_out = 0,
       k_mem = (\<lambda>x. if unat (x - a) < unat len then (if fl = 0x32 then 0 else fbyte demo_elf (unat off + unat (x - a))) else m x)\<rparr>
   | _ \<Rightarrow> \<lparr>k_ret = 0, k_out = 0, k_mem = m\<rparr>)"

lemma demo_loads: "loads demo_load_kernel 3 demo_elf"
  by (simp add: fun_eq_iff loads_def maps_file_def maps_anon_def grants_def mprotect_keeps_bytes_def mprotect_succeeds_def
      demo_load_kernel_def file_flags_def anon_flags_def)

lemma demo_loadable: "loadable False 0x400000 0 demo_phdrs"
  unfolding loadable_def
proof (intro exI conjI)
  show "demo_phdrs = [demo_phdrs ! 0] @ demo_phdrs ! 1 # [demo_phdrs ! 2]" by (simp add: demo_phdrs_def)
qed (simp_all add: demo_phdrs_def segment_ok_def PAGE_ALIGN_def PAGE_OFFT_def)



definition loop_elf :: elf_file where
  "loop_elf = elf_image (replicate 12 0) 2 0 0 (replicate 6 0)
     [\<lparr>ph_type = 3, ph_flags = 4, ph_offset = 120, ph_vaddr = 0, ph_paddr = 0, ph_filesz = 2, ph_memsz = 2, ph_align = 1\<rparr>] [0x61, 0]"

definition loop_env :: host_env where
  "loop_env = demo_env\<lparr>host_open := (\<lambda>_. Some \<lparr>hf_fd = 3, hf_stat = True, hf_data = loop_elf\<rparr>)\<rparr>"

lemma chr_a: "char_of (97 :: nat) = CHR ''a''"
  by code_simp


end
