(* ===== verification/Startup.thy ===== *)
theory Startup
  imports Engine Stubs Core_Mapper
begin

unbundle bit_operations_syntax

text \<open>
  How an instrumented run begins: \<^verbatim>\<open>main\<close> (\<^verbatim>\<open>src/main.c\<close>) loads the program and passes it to \<^verbatim>\<open>instrument\<close>
  (\<^verbatim>\<open>src/engine.c\<close>), which maps the host stack, crafts the two stubs, sets the two hooks, frames the first block
  and enters the guest through \<^verbatim>\<open>exec_binary\<close> (\<^verbatim>\<open>src/core_mapper.c\<close>).  The theorem shows that the guest starts in
  a state that the refinement of \<open>Engine\<close> starts from, with the processor as a fresh process has it.
\<close>

section \<open>Entering the guest\<close>

text \<open>
  The inline assembler of \<^verbatim>\<open>exec_binary\<close>: besides the instructions of the stubs it clears registers by \<^verbatim>\<open>xor\<close> and
  \<^verbatim>\<open>vzeroall\<close>.  \<^verbatim>\<open>xor\<close> of a register with itself leaves \<^verbatim>\<open>AF\<close> undefined: \<open>u\<close> gives its value.
\<close>

datatype einstr = Stub sinstr | Xor gpr | Vzeroall

definition xor_flags :: "u64 \<Rightarrow> u64 \<Rightarrow> u64" where
  "xor_flags u f = (f AND NOT (CF OR PF OR AF OR ZF OR SF OR OF)) OR PF OR ZF OR (u AND AF)"

fun estep :: "u64 \<Rightarrow> junk \<Rightarrow> einstr \<Rightarrow> cpu \<Rightarrow> cpu" where
  "estep u j (Stub i) c = step j i c"
| "estep u j (Xor r) c = set_reg r 0 (c\<lparr>eflags := xor_flags u (eflags c)\<rparr>)"
| "estep u j Vzeroall c = c\<lparr>ymm := (\<lambda>n. if n < 16 then 0 else ymm c n)\<rparr>"

definition exec_binary_insns :: "u64 \<Rightarrow> u64 \<Rightarrow> einstr list" where
  "exec_binary_insns ip sp =
    [Stub (MovImm RAX ip), Stub (MovImm RSP sp), Xor RBX, Xor RCX, Xor RDX, Xor RDI, Xor RSI, Xor R8, Xor R9, Xor R10, Xor R11,
     Xor R12, Xor R13, Xor R14, Xor R15, Xor RBP, Vzeroall, Stub (Push RAX), Xor RAX, Stub (Push RAX), Stub Popfq, Stub Ret]"

definition exec_binary :: "u64 \<Rightarrow> junk \<Rightarrow> mach \<Rightarrow> cpu \<Rightarrow> cpu" where
  "exec_binary u j s c = fold (estep u j) (exec_binary_insns (rip (guest s)) (rsp (guest s))) c"

section \<open>Starting the instrumentation\<close>

text \<open>
  \<open>sb\<close> is the address of \<^verbatim>\<open>s_binary\<close>, \<open>disp\<close> that of \<^verbatim>\<open>_dispatcher\<close>, \<open>c\<close> the processor when \<^verbatim>\<open>exec_binary\<close> is entered.
  \<^verbatim>\<open>u_handler\<close> is the callback argument of the dispatcher; the allocation of \<^verbatim>\<open>curr_hook\<close> is taken to succeed.  The value is the processor at the first instruction
  of the guest; the function never returns to its caller.
\<close>

definition instrument_setup :: "kernel \<Rightarrow> assembler \<Rightarrow> u64 \<Rightarrow> u64 \<Rightarrow> mach \<Rightarrow> unit run" where
  "instrument_setup K asm sb disp s =
     bindR (map_stack K (upd_dbi (\<lambda>d. d\<lparr>curr_hook := 0\<rparr>) s)) (\<lambda>stack s.
       let s = upd_dbi (\<lambda>d. d\<lparr>host_rsp := stack\<rparr>) s;
           s = s\<lparr>s_binary := (s_binary s)\<lparr>dispatcher := disp\<rparr>\<rparr>;
           s = upd_dbi (\<lambda>d. d\<lparr>take_callback := True\<rparr>) s
       in
     bindR (bindR (craft_hook K asm sb s) (\<lambda>r s.
              if r = -1 then retR True s
              else bindR (craft_restore_stub K asm s) (\<lambda>r s. retR (r = -1) s))) (\<lambda>failed s.
       if failed then fatal_dump K s
       else bindR (set_dump_hook asm s) (\<lambda>r s.
         if r = -1 then fatal_dump K s
         else bindR (set_restore_hook asm s) (\<lambda>r s.
           if r = -1 then fatal_dump K s else retR () s))))"

definition instrument_enter :: "kernel \<Rightarrow> u64 \<Rightarrow> junk \<Rightarrow> cpu \<Rightarrow> mach \<Rightarrow> cpu run" where
  "instrument_enter K u j c s =
    (let s = upd_guest (\<lambda>st. st\<lparr>rip := exec_entry (s_binary s)\<rparr>) s in
     bindR (save_fs_gs K s) (\<lambda>(r, f, g) s.
       let s = upd_dbi (\<lambda>d. d\<lparr>host_state := (host_state d)
                 \<lparr>fs := (case f of Some v \<Rightarrow> v | None \<Rightarrow> fs (host_state d)),
                  gs := (case g of Some v \<Rightarrow> v | None \<Rightarrow> gs (host_state d))\<rparr>\<rparr>) s in
     bindR (if r = -1 then fatal_dump K s
            else if instrumented_fs (dbi s) \<noteq> 0
            then bindR (set_fs_gs K (instrumented_fs (dbi s)) (instrumented_gs (dbi s)) s) (\<lambda>r s.
                   if r = -1 then fatal_dump K s else retR () s)
            else retR () s) (\<lambda>_ s.
       let c' = exec_binary u j s (c\<lparr>cmem := mem s\<rparr>) in retR c' (s\<lparr>mem := cmem c'\<rparr>))))"

definition instrument ::
  "nat \<Rightarrow> kernel \<Rightarrow> assembler \<Rightarrow> disassembler \<Rightarrow> u64 \<Rightarrow> u64 \<Rightarrow> u64 \<Rightarrow> junk \<Rightarrow> cpu \<Rightarrow> mach \<Rightarrow> cpu run" where
  "instrument fuel K asm dis sb disp u j c s =
     bindR (instrument_setup K asm sb disp s) (\<lambda>_ s.
     bindR (instrument_request fuel K dis (exec_entry (s_binary s)) s) (\<lambda>r s.
       if r = -1 then fatal_dump K s else instrument_enter K u j c s))"

text \<open>
  \<^verbatim>\<open>main\<close>: \<open>args\<close> are the strings of \<^verbatim>\<open>argv\<close>, \<open>a\<close> what \<^verbatim>\<open>map_binary\<close> uses of the block they lie in.  The value is \<open>Inl\<close> the exit
  status, or \<open>Inr\<close> the processor at the start of the guest.
\<close>

definition main_fn ::
  "nat \<Rightarrow> kernel \<Rightarrow> host_env \<Rightarrow> assembler \<Rightarrow> disassembler \<Rightarrow> u64 \<Rightarrow> u64 \<Rightarrow> u64 \<Rightarrow> junk \<Rightarrow> cpu \<Rightarrow>
     string list \<Rightarrow> arg_t \<Rightarrow> mach \<Rightarrow> (i32 + cpu) run" where
  "main_fn fuel K E asm dis sb disp u j c args a s =
    (if length args < 2 then retR (Inl (-1)) s
     else bindR (map_binary fuel K E (args ! 1) (Some (a\<lparr>a_argc := of_nat (length args)\<rparr>)) s) (\<lambda>ok s.
       if \<not> ok then retR (Inl (-1)) s
       else let s = upd_dbi (\<lambda>d. d\<lparr>request := \<lparr>rtype = INSTRUMENT_BBL, raddress = 0 + base (s_binary s)\<rparr>\<rparr>) s in
         bindR (instrument fuel K asm dis sb disp u j c s) (\<lambda>c s. retR (Inr c) s)))"

section \<open>Lemmas\<close>

lemma bit_subset: "a AND b = a \<Longrightarrow> bit a n \<Longrightarrow> bit b n" for a b :: u64
  by (metis bit_and_iff)

lemma xor_flags_popped: "pop_flags (xor_flags u f) v = pop_flags f v"
proof (rule bit_word_eqI)
  fix n assume n: "n < LENGTH(64)"
  have "bit (0x4 :: u64) n \<Longrightarrow> bit (0x254DD5 :: u64) n" "bit (0x10 :: u64) n \<Longrightarrow> bit (0x254DD5 :: u64) n"
    "bit (0x40 :: u64) n \<Longrightarrow> bit (0x254DD5 :: u64) n" "bit (0x8D5 :: u64) n \<Longrightarrow> bit (0x254DD5 :: u64) n"
    by (erule bit_subset [rotated], simp)+
  then show "bit (pop_flags (xor_flags u f) v) n = bit (pop_flags f v) n"
    using n unfolding pop_flags_def xor_flags_def user_flags_def by (auto simp: bit_simps)
qed

lemma exec_binary_enters:
  assumes "c' = exec_binary u j s c" and "sp = rsp (guest s)" and "ip = rip (guest s)"
  shows "pc c' = ip" "regs c' RSP = sp" "\<forall>r. r \<noteq> RSP \<longrightarrow> regs c' r = 0" "\<forall>k<16. ymm c' k = 0"
    "eflags c' = pop_flags (eflags c) 0" "cmem c' = write64 (write64 (cmem c) (sp - 8) ip) (sp - 16) 0"
proof -
  note defs = assms exec_binary_def exec_binary_insns_def set_reg_def push64_def xor_flags_popped
  show "pc c' = ip" "regs c' RSP = sp" "\<forall>k<16. ymm c' k = 0" "eflags c' = pop_flags (eflags c) 0"
    "cmem c' = write64 (write64 (cmem c) (sp - 8) ip) (sp - 16) 0" by (simp_all add: defs)
  have "regs c' r = 0" if "r \<noteq> RSP" for r using that by (cases r) (simp_all add: defs)
  then show "\<forall>r. r \<noteq> RSP \<longrightarrow> regs c' r = 0" by blast
qed

text \<open>The two stubs.\<close>

lemma mmap_stub:
  assumes "maps_anon K" and "PAGE_OFFT a = 0" "a \<noteq> 0"
  shows "mmap K a 0x1000 stub_prot stub_flags (-1) 0 s = Inr (a,
     s\<lparr>mem := \<lambda>x. if unat (x - a) < 0x1000 then 0 else mem s x, ktrace := ktrace s @ [K_mmap a 0x1000 stub_prot stub_flags (-1) 0]\<rparr>)"
proof -
  have "stub_flags = anon_flags" by (simp add: stub_flags_def anon_flags_def)
  then show ?thesis using assms by (simp add: mmap_shape maps_anon_def aligned_not_error)
qed

definition stub_at :: "u64 \<Rightarrow> u8 list \<Rightarrow> memory \<Rightarrow> memory" where
  "stub_at a enc m = write_bytes (\<lambda>x. if unat (x - a) < 0x1000 then 0 else m x) a enc"

lemma craft_hook_maps:
  assumes "maps_anon K" and "dump_vector (guest s) = Some vec"
    and "asm (dump_general (host_rsp (dbi s)) @ vec @ dump_enter sb (dispatcher (s_binary s))) = Some enc"
  shows "\<exists>tr. craft_hook K asm sb s = Inr (STUB_ADDR_DUMP,
    upd_dbi (\<lambda>d. d\<lparr>dump_stub := STUB_ADDR_DUMP\<rparr>) (s\<lparr>mem := stub_at STUB_ADDR_DUMP enc (mem s), ktrace := ktrace s @ tr\<rparr>))"
proof -
  have a: "PAGE_OFFT STUB_ADDR_DUMP = 0" "STUB_ADDR_DUMP \<noteq> 0" "STUB_ADDR_DUMP \<noteq> -1" by (simp_all add: PAGE_OFFT_def)
  show ?thesis
    using assms(2,3) unfolding craft_hook_def mmap_stub [OF assms(1) a(1,2)]
    by (intro exI [of _ "[K_mmap STUB_ADDR_DUMP 0x1000 stub_prot stub_flags (-1) 0]"])
      (simp add: a(3) craft_hook_insns_def put_stub_def Let_def retR_def stub_at_def upd_dbi_def)
qed

lemma craft_restore_maps:
  assumes "maps_anon K" and "restore_vector (guest s) = Some vec" and "asm (vec @ restore_general @ restore_leave) = Some enc"
  shows "\<exists>tr. craft_restore_stub K asm s = Inr (STUB_ADDR_RESTORE,
    upd_dbi (\<lambda>d. d\<lparr>restore_stub := STUB_ADDR_RESTORE\<rparr>) (s\<lparr>mem := stub_at STUB_ADDR_RESTORE enc (mem s), ktrace := ktrace s @ tr\<rparr>))"
proof -
  have a: "PAGE_OFFT STUB_ADDR_RESTORE = 0" "STUB_ADDR_RESTORE \<noteq> 0" "STUB_ADDR_RESTORE \<noteq> -1" by (simp_all add: PAGE_OFFT_def)
  show ?thesis
    using assms(2,3) unfolding craft_restore_stub_def mmap_stub [OF assms(1) a(1,2)]
    by (intro exI [of _ "[K_mmap STUB_ADDR_RESTORE 0x1000 stub_prot stub_flags (-1) 0]"])
      (simp add: a(3) craft_restore_insns_def put_stub_def Let_def retR_def stub_at_def upd_dbi_def)
qed

text \<open>The two hooks.\<close>

lemma small_sizes:
  assumes "0 < n" "n \<le> 64"
  shows "(of_nat n :: i32) \<noteq> -1" "(of_nat n :: i32) \<noteq> 0" "unat (of_nat n :: i32) = n"
proof -
  have u: "unat (of_nat k :: i32) = k" if "k \<le> 65" for k using that by (simp add: unat_of_nat take_bit_nat_eq_self)
  show "unat (of_nat n :: i32) = n" using u assms by simp
  have z: "(of_nat k :: i32) \<noteq> 0" if "0 < k" "k \<le> 65" for k
    using u [OF that(2)] that(1) by (metis less_numeral_extra(3) unat_0)
  show "(of_nat n :: i32) \<noteq> 0" using z assms by simp
  show "(of_nat n :: i32) \<noteq> -1" using z [of "Suc n"] assms by (auto simp del: of_nat_eq_0_iff)
qed

lemma set_dump_hook_sets:
  assumes "asm (dump_hook_insns (dump_stub (dbi s))) = Some enc" "0 < length enc" "length enc \<le> 64"
  shows "set_dump_hook asm s = Inr (0, upd_dbi (\<lambda>d. d\<lparr>dump := (dump d)\<lparr>code := enc @ [0], hlength := of_nat (length enc), jmp := 0\<rparr>\<rparr>) s)"
  using assms small_sizes [OF assms(2,3)]
  by (simp add: set_dump_hook_def dump_hook_def buf_put_Some retR_def Let_def scast_of_nat upd_dbi_def)

lemma set_restore_hook_sets:
  assumes "asm restore_hook_insns = Some enc" "0 < length enc" "length enc \<le> 64"
  shows "set_restore_hook asm s = Inr (0, upd_dbi (\<lambda>d. d\<lparr>restore := (restore d)\<lparr>code := enc, hlength := of_nat (length enc)\<rparr>\<rparr>) s)"
  using assms small_sizes [OF assms(2,3)]
  by (simp add: set_restore_hook_def restore_hook_def buf_put_Some retR_def Let_def scast_of_nat upd_dbi_def)

text \<open>The decoder looks at 16 bytes, so a block can be moved to a memory that agrees on it and 16 bytes more.\<close>

lemma cflow_at_cong:
  assumes "cflow_at dis m a n" and "\<forall>i < n + 16. m' (a + of_nat i) = m (a + of_nat i)"
  shows "cflow_at dis m' a n"
  using assms
proof (induction rule: cflow_at.induct)
  case (here a i)
  have "read_bytes m' a 16 = read_bytes m a 16" using here.prems by (simp add: read_bytes_def)
  then have "decode dis m' a = Some i" using here.hyps by (simp add: decode_def)
  then show ?case using here by (intro cflow_at.here)
next
  case (further a i n)
  have "read_bytes m' a 16 = read_bytes m a 16" using further.prems by (simp add: read_bytes_def)
  then have "decode dis m' a = Some i" using further.hyps by (simp add: decode_def)
  moreover have "m' (a + of_nat (insn_size i) + of_nat k) = m (a + of_nat (insn_size i) + of_nat k)" if "k < n + 16" for k
    using further.prems [rule_format, of "insn_size i + k"] that by (simp add: add.assoc)
  ultimately show ?case using further by (intro cflow_at.further) auto
qed

text \<open>Memory when the first block is framed: the host stack at \<open>r\<close>, then the two stubs.\<close>

definition start_image :: "u64 \<Rightarrow> u8 list \<Rightarrow> u8 list \<Rightarrow> memory \<Rightarrow> memory" where
  "start_image r db rb m = stub_at STUB_ADDR_RESTORE rb (stub_at STUB_ADDR_DUMP db (\<lambda>x. if unat (x - r) < 0x50000 then 0 else m x))"

lemma stub_at_other: "length enc \<le> 0x1000 \<Longrightarrow> \<not> unat (x - a) < 0x1000 \<Longrightarrow> stub_at a enc m x = m x"
  by (simp add: stub_at_def write_bytes_in in_range_def)

lemma stub_at_reads: "length enc \<le> 0x1000 \<Longrightarrow> read_bytes (stub_at a enc m) a (length enc) = enc"
  unfolding stub_at_def by (rule read_write_same) simp

lemma start_image_other:
  assumes "length db \<le> 0x1000" "length rb \<le> 0x1000"
    and "\<not> unat (x - r) < 0x50000" "\<not> unat (x - STUB_ADDR_DUMP) < 0x1000" "\<not> unat (x - STUB_ADDR_RESTORE) < 0x1000"
  shows "start_image r db rb m x = m x"
  using assms by (simp add: start_image_def stub_at_other del: STUB_ADDR_DUMP_def STUB_ADDR_RESTORE_def)

lemma start_image_stubs:
  assumes "length db \<le> 0x1000" "length rb \<le> 0x1000"
  shows "read_bytes (start_image r db rb m) STUB_ADDR_DUMP (length db) = db"
    and "read_bytes (start_image r db rb m) STUB_ADDR_RESTORE (length rb) = rb"
proof -
  let ?m = "stub_at STUB_ADDR_DUMP db (\<lambda>x. if unat (x - r) < 0x50000 then 0 else m x)"
  have "start_image r db rb m (STUB_ADDR_DUMP + of_nat i) = ?m (STUB_ADDR_DUMP + of_nat i)" if "i < length db" for i
  proof -
    have "STUB_ADDR_DUMP + of_nat i - STUB_ADDR_RESTORE = of_nat (0x2000000 + i)" by simp
    moreover have "unat (of_nat (0x2000000 + i) :: u64) = 0x2000000 + i" using that assms by (intro unat_of_nat_64) simp
    ultimately have "\<not> unat (STUB_ADDR_DUMP + of_nat i - STUB_ADDR_RESTORE) < 0x1000" by (simp del: STUB_ADDR_DUMP_def STUB_ADDR_RESTORE_def of_nat_add)
    then show ?thesis unfolding start_image_def by (rule stub_at_other [OF assms(2)])
  qed
  then have "read_bytes (start_image r db rb m) STUB_ADDR_DUMP (length db) = read_bytes ?m STUB_ADDR_DUMP (length db)"
    unfolding read_bytes_def by (intro map_cong refl) simp
  then show "read_bytes (start_image r db rb m) STUB_ADDR_DUMP (length db) = db" using stub_at_reads [OF assms(1)] by simp
  show "read_bytes (start_image r db rb m) STUB_ADDR_RESTORE (length rb) = rb"
    unfolding start_image_def by (rule stub_at_reads [OF assms(2)])
qed

lemma instrument_setup_maps:
  assumes kernel: "maps_anon K" "anon_reply (K (ktrace s) stack_call (mem s)) r 0x50000 (mem s)"
    and stubs: "dump_vector (guest s) = Some dv" "restore_vector (guest s) = Some rv"
      "asm (dump_general (r + 0x28000) @ dv @ dump_enter sb disp) = Some db" "asm (rv @ restore_general @ restore_leave) = Some rb"
    and hooks: "asm (dump_hook_insns STUB_ADDR_DUMP) = Some dh" "0 < length dh" "length dh \<le> 64"
      "asm restore_hook_insns = Some rh" "0 < length rh" "length rh \<le> 64"
  shows "\<exists>s'. instrument_setup K asm sb disp s = Inr ((), s') \<and> mem s' = start_image r db rb (mem s) \<and> guest s' = guest s \<and>
    curr_syscall s' = curr_syscall s \<and> exec_entry (s_binary s') = exec_entry (s_binary s) \<and> host_rsp (dbi s') = r + 0x28000 \<and>
    take_callback (dbi s') \<and> hashmap (dbi s') = hashmap (dbi s) \<and>
    hookof Dump s' = (hookof Dump s)\<lparr>code := dh @ [0], hlength := of_nat (length dh), jmp := 0\<rparr> \<and>
    hookof Restore s' = (hookof Restore s)\<lparr>code := rh, hlength := of_nat (length rh)\<rparr>"
proof -
  let ?stk = "\<lambda>x. if unat (x - r) < 0x50000 then 0 else mem s x"
  define s0 where "s0 = upd_dbi (\<lambda>d. d\<lparr>curr_hook := 0\<rparr>) s"
  have s0: "mem s0 = mem s" "ktrace s0 = ktrace s" by (simp_all add: s0_def)
  have "k_mem (K (ktrace s) stack_call (mem s)) = ?stk" using kernel(2) by (simp add: anon_reply_def)
  then have st: "map_stack K s0 = Inr (r + 0x28000, s0\<lparr>mem := ?stk, ktrace := ktrace s @ [stack_call]\<rparr>)"
    using map_stack_granted(1) [where K = K and s = s0 and r = r] kernel(2) by (simp add: s0)
  define s1 where "s1 = upd_dbi (\<lambda>d. d\<lparr>take_callback := True\<rparr>)
    ((upd_dbi (\<lambda>d. d\<lparr>host_rsp := r + 0x28000\<rparr>) (s0\<lparr>mem := ?stk, ktrace := ktrace s @ [stack_call]\<rparr>))
      \<lparr>s_binary := (s_binary (upd_dbi (\<lambda>d. d\<lparr>host_rsp := r + 0x28000\<rparr>) (s0\<lparr>mem := ?stk, ktrace := ktrace s @ [stack_call]\<rparr>)))\<lparr>dispatcher := disp\<rparr>\<rparr>)"
  have s1: "mem s1 = ?stk" "guest s1 = guest s" "host_rsp (dbi s1) = r + 0x28000" "dispatcher (s_binary s1) = disp"
    "hookof w s1 = hookof w s" "take_callback (dbi s1)" "exec_entry (s_binary s1) = exec_entry (s_binary s)"
    "curr_syscall s1 = curr_syscall s" "hashmap (dbi s1) = hashmap (dbi s)" for w
    by (cases w; simp add: s1_def s0_def upd_dbi_def hookof_def)+
  obtain tr2 s2 where c2: "craft_hook K asm sb s1 = Inr (STUB_ADDR_DUMP, s2)"
    and s2: "s2 = upd_dbi (\<lambda>d. d\<lparr>dump_stub := STUB_ADDR_DUMP\<rparr>) (s1\<lparr>mem := stub_at STUB_ADDR_DUMP db (mem s1), ktrace := ktrace s1 @ tr2\<rparr>)"
    using craft_hook_maps [OF kernel(1), of s1 dv asm sb db] stubs(1,3) by (auto simp: s1)
  obtain tr3 s3 where c3: "craft_restore_stub K asm s2 = Inr (STUB_ADDR_RESTORE, s3)"
    and s3: "s3 = upd_dbi (\<lambda>d. d\<lparr>restore_stub := STUB_ADDR_RESTORE\<rparr>) (s2\<lparr>mem := stub_at STUB_ADDR_RESTORE rb (mem s2), ktrace := ktrace s2 @ tr3\<rparr>)"
    using craft_restore_maps [OF kernel(1), of s2 rv asm rb] stubs(2,4) by (auto simp: s2 s1)
  define s4 where "s4 = upd_dbi (\<lambda>d. d\<lparr>dump := (dump d)\<lparr>code := dh @ [0], hlength := of_nat (length dh), jmp := 0\<rparr>\<rparr>) s3"
  have c4: "set_dump_hook asm s3 = Inr (0, s4)"
    unfolding s4_def using hooks(1) by (intro set_dump_hook_sets hooks) (simp add: s3 s2)
  define s5 where "s5 = upd_dbi (\<lambda>d. d\<lparr>restore := (restore d)\<lparr>code := rh, hlength := of_nat (length rh)\<rparr>\<rparr>) s4"
  have c5: "set_restore_hook asm s4 = Inr (0, s5)" unfolding s5_def by (intro set_restore_hook_sets hooks)
  have "instrument_setup K asm sb disp s = Inr ((), s5)"
    unfolding instrument_setup_def s0_def [symmetric] st
    by (simp add: Let_def flip: s1_def) (simp add: c2 c3 c4 c5 retR_def)
  then show ?thesis
    by (simp add: s5_def s4_def s3 s2 start_image_def hookof_def) (simp add: s1 hookof_def [symmetric] flip: hookof_dump hookof_restore)
qed

lemma instrument_enter_jumps:
  assumes "seg_ok K"
  shows "\<exists>t. instrument_enter K u j c s = Inr (exec_binary u j t (c\<lparr>cmem := mem t\<rparr>), t\<lparr>mem := cmem (exec_binary u j t (c\<lparr>cmem := mem t\<rparr>))\<rparr>) \<and>
    mem t = mem s \<and> guest t = (guest s)\<lparr>rip := exec_entry (s_binary s)\<rparr> \<and> hookof Dump t = hookof Dump s \<and> hookof Restore t = hookof Restore s \<and>
    curr_hook (dbi t) = curr_hook (dbi s) \<and> host_rsp (dbi t) = host_rsp (dbi s) \<and> take_callback (dbi t) = take_callback (dbi s) \<and>
    hashmap (dbi t) = hashmap (dbi s) \<and> curr_syscall t = curr_syscall s"
proof -
  let ?u = "upd_guest (\<lambda>st. st\<lparr>rip := exec_entry (s_binary s)\<rparr>) s"
  have P: "prctl_works K" using assms by (simp add: seg_ok_def)
  obtain f g tr where sv: "save_fs_gs K ?u = Inr ((0, Some f, Some g), ?u\<lparr>ktrace := ktrace ?u @ tr\<rparr>)"
    using save_fs_gs_works [OF assms, of ?u] by blast
  define v where "v = upd_dbi (\<lambda>d. d\<lparr>host_state := (host_state d)\<lparr>fs := f, gs := g\<rparr>\<rparr>) (?u\<lparr>ktrace := ktrace ?u @ tr\<rparr>)"
  define t where "t = (if instrumented_fs (dbi v) \<noteq> 0 then v\<lparr>ktrace := ktrace v @ seg_calls (instrumented_fs (dbi v)) (instrumented_gs (dbi v))\<rparr> else v)"
  have "instrument_enter K u j c s = Inr (exec_binary u j t (c\<lparr>cmem := mem t\<rparr>), t\<lparr>mem := cmem (exec_binary u j t (c\<lparr>cmem := mem t\<rparr>))\<rparr>)"
    unfolding instrument_enter_def Let_def sv bindR_Inr prod.case option.case v_def [symmetric]
    by (simp add: set_fs_gs_works [OF P] retR_def t_def)
  then show ?thesis by (intro exI [of _ t] conjI) (simp_all add: t_def v_def hookof_def)
qed

text \<open>
  On a processor whose state the descriptor keeps as AVX-512 registers the stubs cannot be crafted, and the register dump of
  \<^verbatim>\<open>fatal_dump\<close> refuses that state as well: the process exits with \<open>-1\<close> before the guest runs.
\<close>

lemma craft_hook_refuses:
  assumes "maps_anon K" and "dump_vector (guest s) = None"
  shows "\<exists>s'. craft_hook K asm sb s = Inr (-1, s') \<and> guest s' = guest s"
proof -
  have a: "PAGE_OFFT STUB_ADDR_DUMP = 0" "STUB_ADDR_DUMP \<noteq> 0" "STUB_ADDR_DUMP \<noteq> -1" by (simp_all add: PAGE_OFFT_def)
  show ?thesis
    using assms(2) unfolding craft_hook_def mmap_stub [OF assms(1) a(1,2)] by (simp add: a(3) craft_hook_insns_def Let_def retR_def)
qed

lemma instrument_refuses_avx512:
  assumes "maps_anon K" and "anon_reply (K (ktrace s) stack_call (mem s)) r 0x50000 (mem s)"
    and "sse (guest s) = None" "avx2 (guest s) = None" "avx512 (guest s) \<noteq> None"
  shows "\<exists>s'. instrument fuel K asm dis sb disp u j c s = Inl (Exit (-1), s')"
proof -
  define s0 where "s0 = upd_dbi (\<lambda>d. d\<lparr>curr_hook := 0\<rparr>) s"
  have "anon_reply (K (ktrace s0) stack_call (mem s0)) r 0x50000 (mem s0)" using assms(2) by (simp add: s0_def)
  note st = map_stack_granted(1) [where K = K and s = s0 and r = r, OF this]
  have "dump_vector (guest s) = None" using assms by (auto simp: dump_vector_def)
  then have cr: "\<exists>s'. craft_hook K asm sb t = Inr (-1, s') \<and> guest s' = guest s" if "guest t = guest s" for t
    using craft_hook_refuses [OF assms(1)] that by metis
  have fd: "fatal_dump K t = Inl (Exit (-1), t)" if "guest t = guest s" for t :: mach
    using assms(3-5) that by (auto simp: fatal_dump_def log_regs_def haltR_def)
  define s1 where "s1 = upd_dbi (\<lambda>d. d\<lparr>take_callback := True\<rparr>)
    ((upd_dbi (\<lambda>d. d\<lparr>host_rsp := r + 0x28000\<rparr>) (s0\<lparr>mem := k_mem (K (ktrace s0) stack_call (mem s0)), ktrace := ktrace s0 @ [stack_call]\<rparr>))
      \<lparr>s_binary := (s_binary (upd_dbi (\<lambda>d. d\<lparr>host_rsp := r + 0x28000\<rparr>) (s0\<lparr>mem := k_mem (K (ktrace s0) stack_call (mem s0)), ktrace := ktrace s0 @ [stack_call]\<rparr>)))\<lparr>dispatcher := disp\<rparr>\<rparr>)"
  have "guest s1 = guest s" by (simp add: s1_def s0_def upd_dbi_def)
  then obtain s2 where s2: "craft_hook K asm sb s1 = Inr (-1, s2)" "guest s2 = guest s" using cr by blast
  have "instrument_setup K asm sb disp s = fatal_dump K s2"
    unfolding instrument_setup_def s0_def [symmetric] st by (simp add: Let_def flip: s1_def) (simp add: s2 retR_def)
  then show ?thesis by (simp add: instrument_def fd [OF s2(2)])
qed

lemma main_refuses:
  "length args < 2 \<Longrightarrow> main_fn fuel K E asm dis sb disp u j c args a s = Inr (Inl (-1), s)"
  "2 \<le> length args \<Longrightarrow> host_open E (args ! 1) = None \<Longrightarrow> main_fn (Suc fuel) K E asm dis sb disp u j c args a s = Inr (Inl (-1), s)"
  by (simp_all add: main_fn_def retR_def init_analysis_def)

lemma instrument_starts:
  assumes kernel: "grants K" "seg_ok K" "maps_anon K" "anon_reply (K (ktrace s) stack_call (mem s)) r 0x50000 (mem s)"
    and block: "disasm_ok dis" "cflow_at dis (mem s) e off" "off < fuel" "off < 2 ^ 31" "\<not> curr_syscall s"
    and entry: "e = exec_entry (s_binary s)" "e \<noteq> of_nat (length rh)"
    and apart: "\<forall>i < off + 16. \<not> unat (e + of_nat i - r) < 0x50000 \<and> \<not> unat (e + of_nat i - STUB_ADDR_DUMP) < 0x1000 \<and>
      \<not> unat (e + of_nat i - STUB_ADDR_RESTORE) < 0x1000"
    and stubs: "dump_vector (guest s) = Some dv" "restore_vector (guest s) = Some rv"
      "asm (dump_general (r + 0x28000) @ dv @ dump_enter sb disp) = Some db" "length db \<le> 0x1000"
      "asm (rv @ restore_general @ restore_leave) = Some rb" "length rb \<le> 0x1000"
    and hooks: "asm (dump_hook_insns STUB_ADDR_DUMP) = Some dh" "0 < length dh" "length dh \<le> 64"
      "asm restore_hook_insns = Some rh" "0 < length rh" "length rh \<le> 64"
    and fresh: "\<forall>w. length (orig_bytes (hookof w s)) = 64 \<and> to_unmap (hookof w s) = 0"
  shows "\<exists>t c'. instrument fuel K asm dis sb disp u j c s = Inr (c', t\<lparr>mem := cmem c'\<rparr>) \<and>
    patched (start_image r db rb (mem s)) t \<and> jmp (hookof Dump t) = e + of_nat off \<and> curr_hook (dbi t) = e + of_nat off \<and>
    jmp (hookof Restore t) = e - of_nat (length rh) \<and> hook_code (hookof Dump t) = dh \<and> hook_code (hookof Restore t) = rh \<and>
    guest t = (guest s)\<lparr>rip := e\<rparr> \<and> host_rsp (dbi t) = r + 0x28000 \<and> take_callback (dbi t) \<and>
    pc c' = e \<and> regs c' RSP = rsp (guest s) \<and> (\<forall>g. g \<noteq> RSP \<longrightarrow> regs c' g = 0) \<and> (\<forall>k<16. ymm c' k = 0) \<and>
    eflags c' AND user_flags = 0 \<and>
    cmem c' = write64 (write64 (mem t) (rsp (guest s) - 8) e) (rsp (guest s) - 16) 0 \<and>
    hashmap (dbi t) = hashmap (dbi s) \<and> \<not> curr_syscall t"
proof -
  let ?m = "start_image r db rb (mem s)"
  obtain s1 where c1: "instrument_setup K asm sb disp s = Inr ((), s1)" and s1: "mem s1 = ?m" "guest s1 = guest s"
    "curr_syscall s1 = curr_syscall s" "exec_entry (s_binary s1) = e" "host_rsp (dbi s1) = r + 0x28000" "take_callback (dbi s1)"
    "hashmap (dbi s1) = hashmap (dbi s)"
    and h1: "hookof Dump s1 = (hookof Dump s)\<lparr>code := dh @ [0], hlength := of_nat (length dh), jmp := 0\<rparr>"
    "hookof Restore s1 = (hookof Restore s)\<lparr>code := rh, hlength := of_nat (length rh)\<rparr>"
    using instrument_setup_maps [OF kernel(3,4) stubs(1,2,3,5) hooks] entry(1) by auto
  have ul: "unat (of_nat (length dh) :: u64) = length dh" "unat (of_nat (length rh) :: u64) = length rh"
    using hooks(3,6) by (simp_all add: unat_of_nat_64)
  have wf: "hook_wf (hookof Dump s1)" "hook_wf (hookof Restore s1)" using fresh hooks by (simp_all add: h1 hook_wf_def ul)
  have cf: "cflow_at dis (mem s1) e off"
    unfolding s1 by (rule cflow_at_cong [OF block(2)]) (use apart stubs(4,6) in \<open>blast intro: start_image_other\<close>)
  have cs1: "\<not> curr_syscall s1" using block(5) s1(3) by simp
  obtain s2 where c2: "instrument_request fuel K dis e s1 = Inr (0, s2)" and p2: "patched ?m s2" and f2: "eng_frame s1 s2"
    and j2: "jmp (hookof Dump s2) = e + of_nat off" "jmp (hookof Restore s2) = e - of_nat (length rh)" "curr_hook (dbi s2) = e + of_nat off" "\<not> curr_syscall s2"
    using instrument_request_total [OF kernel(1) block(1) wf cf cs1 block(3,4)] entry(2) by (auto simp: h1 s1(1))
  have er: "eng_erase s2 = eng_erase s1" using f2 by (simp add: eng_frame_def)
  have "exec_entry (s_binary (eng_erase x)) = exec_entry (s_binary x)" "host_rsp (dbi (eng_erase x)) = host_rsp (dbi x)" for x
    by (simp_all add: eng_erase_def)
  then have s2: "exec_entry (s_binary s2) = e" "host_rsp (dbi s2) = r + 0x28000" using s1(4,5) er by metis+
  note fr = eng_frame_dest [OF f2]
  have hc: "hook_code (hookof Dump s2) = dh" "hook_code (hookof Restore s2) = rh"
    using hook_erase_code(3) [OF fr(6)] by (simp_all add: h1 hook_code_def hook_len_def ul)
  obtain t where c3: "instrument_enter K u j c s2 = Inr (exec_binary u j t (c\<lparr>cmem := mem t\<rparr>), t\<lparr>mem := cmem (exec_binary u j t (c\<lparr>cmem := mem t\<rparr>))\<rparr>)"
    and t: "mem t = mem s2" "guest t = (guest s)\<lparr>rip := e\<rparr>" "hookof Dump t = hookof Dump s2" "hookof Restore t = hookof Restore s2"
    "curr_hook (dbi t) = e + of_nat off" "host_rsp (dbi t) = r + 0x28000" "take_callback (dbi t)" "hashmap (dbi t) = hashmap (dbi s)" "\<not> curr_syscall t"
    using instrument_enter_jumps [OF kernel(2), of u j c s2] fr(1,2,4) s1(2,6,7) s2 j2(3,4) by auto
  have run: "instrument fuel K asm dis sb disp u j c s = Inr (exec_binary u j t (c\<lparr>cmem := mem t\<rparr>), t\<lparr>mem := cmem (exec_binary u j t (c\<lparr>cmem := mem t\<rparr>))\<rparr>)"
    by (simp add: instrument_def c1 s1(4) c2 c3)
  have pt: "patched ?m t" by (rule patched_cong [OF p2 t(3,4,1)])
  have uf: "pop_flags x 0 AND user_flags = 0" for x
    by (rule bit_word_eqI) (auto simp: pop_flags_def bit_simps)
  note ex = exec_binary_enters [OF refl refl refl, of u j t "c\<lparr>cmem := mem t\<rparr>"]
  show ?thesis
    by (intro exI conjI, rule run) (use pt t j2 hc ex uf in simp_all)
qed

section \<open>Properties\<close>

text \<open>
  C8: when the kernel grants the mappings and the assembler encodes the stubs and hooks, \<^verbatim>\<open>instrument\<close> starts the
  guest in a state that the refinement of the dispatcher starts from.  Memory is the loaded image, the host stack and the two
  stubs added, under the two hooks that frame the first block; the guest's registers are saved with \<^verbatim>\<open>rip\<close> on the entry
  point.  The processor is at the entry point with the stack pointer that the loader chose, every other
  general register, all vector registers and the user flags zero; only the two words below the stack pointer are used on the way.
\<close>

theorem instrument_starts_guest:
  assumes kernel: "grants K" "seg_ok K" "maps_anon K" "anon_reply (K (ktrace s) stack_call (mem s)) r 0x50000 (mem s)"
    and block: "disasm_ok dis" "cflow_at dis (mem s) e off" "off < fuel" "off < 2 ^ 31" "\<not> curr_syscall s"
    and entry: "e = exec_entry (s_binary s)" "e \<noteq> of_nat (length rh)"
    and apart: "\<forall>i < off + 16. \<not> unat (e + of_nat i - r) < 0x50000 \<and> \<not> unat (e + of_nat i - STUB_ADDR_DUMP) < 0x1000 \<and>
      \<not> unat (e + of_nat i - STUB_ADDR_RESTORE) < 0x1000"
    and stubs: "dump_vector (guest s) = Some dv" "restore_vector (guest s) = Some rv"
      "asm (dump_general (r + 0x28000) @ dv @ dump_enter sb disp) = Some db" "length db \<le> 0x1000"
      "asm (rv @ restore_general @ restore_leave) = Some rb" "length rb \<le> 0x1000"
    and hooks: "asm (dump_hook_insns STUB_ADDR_DUMP) = Some dh" "0 < length dh" "length dh \<le> 64"
      "asm restore_hook_insns = Some rh" "0 < length rh" "length rh \<le> 64"
    and fresh: "\<forall>w. length (orig_bytes (hookof w s)) = 64 \<and> to_unmap (hookof w s) = 0"
  shows "\<exists>t c'. instrument fuel K asm dis sb disp u j c s = Inr (c', t\<lparr>mem := cmem c'\<rparr>) \<and>
    patched (start_image r db rb (mem s)) t \<and> jmp (hookof Dump t) = e + of_nat off \<and> curr_hook (dbi t) = e + of_nat off \<and>
    jmp (hookof Restore t) = e - of_nat (length rh) \<and> hook_code (hookof Dump t) = dh \<and> hook_code (hookof Restore t) = rh \<and>
    guest t = (guest s)\<lparr>rip := e\<rparr> \<and> host_rsp (dbi t) = r + 0x28000 \<and> take_callback (dbi t) \<and>
    pc c' = e \<and> regs c' RSP = rsp (guest s) \<and> (\<forall>g. g \<noteq> RSP \<longrightarrow> regs c' g = 0) \<and> (\<forall>k<16. ymm c' k = 0) \<and>
    eflags c' AND user_flags = 0 \<and>
    cmem c' = write64 (write64 (mem t) (rsp (guest s) - 8) e) (rsp (guest s) - 16) 0"
  using instrument_starts [OF assms] by blast

definition demo_start_kernel :: kernel where
  "demo_start_kernel tr k m = (case k of
     K_mmap a len p fl f off \<Rightarrow> (let b = if a = 0 then 0x700000 else a
       in \<lparr>k_ret = b, k_out = 0, k_mem = (\<lambda>x. if unat (x - b) < unat len then 0 else m x)\<rparr>)
   | _ \<Rightarrow> \<lparr>k_ret = 0, k_out = 0, k_mem = m\<rparr>)"

lemma demo_start_kernel_ok:
  "grants demo_start_kernel" "seg_ok demo_start_kernel" "maps_anon demo_start_kernel"
  "anon_reply (demo_start_kernel tr stack_call m) 0x700000 0x50000 m"
  by (simp_all add: grants_def mprotect_keeps_bytes_def mprotect_succeeds_def seg_ok_def prctl_works_def prctl_keeps_bytes_def
      maps_anon_def anon_reply_def stack_call_def demo_start_kernel_def PAGE_OFFT_def)

definition demo_loaded :: mach where
  "demo_loaded = zero_mach\<lparr>mem := demo_mem, s_binary := (s_binary zero_mach)\<lparr>exec_entry := 0x401002,
     dbi_handler := zero_dbi\<lparr>state := calloc_state\<lparr>rsp := 0x728000\<rparr>\<rparr>\<rparr>\<rparr>"

lemma demo_apart:
  assumes "i < 17"
  shows "\<not> unat (0x401002 + of_nat i - 0x700000 :: u64) < 0x50000 \<and> \<not> unat (0x401002 + of_nat i - STUB_ADDR_DUMP) < 0x1000 \<and>
     \<not> unat (0x401002 + of_nat i - STUB_ADDR_RESTORE) < 0x1000"
proof -
  have "i \<in> set [0..<17]" using assms by simp
  then show ?thesis by (simp add: upt_rec) (elim disjE; simp)
qed

lemma instrument_starts_guest_witness:
  "\<exists>t c'. instrument 5 demo_start_kernel (\<lambda>_. Some (replicate 12 0x90)) toy_dis 0x10000 0x20000 0 demo_junk demo_cpu demo_loaded = Inr (c', t) \<and>
     pc c' = 0x401002 \<and> regs c' RSP = 0x728000 \<and> regs c' RDI = 0"
proof -
  let ?asm = "\<lambda>_ :: sinstr list. Some (replicate 12 (0x90 :: u8))"
  have d: "mem demo_loaded = demo_mem" "exec_entry (s_binary demo_loaded) = 0x401002" "\<not> curr_syscall demo_loaded"
    "guest demo_loaded = calloc_state\<lparr>rsp := 0x728000\<rparr>"
    by (simp_all add: demo_loaded_def zero_mach_def)
  have "hookof w demo_loaded = calloc_hook" for w by (cases w) (simp_all add: hookof_def demo_loaded_def zero_dbi_def)
  then have h: "\<forall>w. length (orig_bytes (hookof w demo_loaded)) = 64 \<and> to_unmap (hookof w demo_loaded) = 0"
    by (simp add: calloc_hook_def)
  have v: "dump_vector (guest demo_loaded) = Some []" "restore_vector (guest demo_loaded) = Some []"
    by (simp_all add: d dump_vector_def restore_vector_def calloc_state_def)
  let ?l = "replicate 12 (0x90 :: u8)"
  have a: "anon_reply (demo_start_kernel (ktrace demo_loaded) stack_call (mem demo_loaded)) 0x700000 0x50000 (mem demo_loaded)"
    by (rule demo_start_kernel_ok(4))
  have cf: "cflow_at toy_dis (mem demo_loaded) 0x401002 1" using demo_cflow d(1) by simp
  have n: "(0x401002 :: u64) \<noteq> of_nat (length ?l)" "(1 :: nat) < 5" "(1 :: nat) < 2 ^ 31" "length ?l \<le> 0x1000" "0 < length ?l" "length ?l \<le> 64"
    by simp_all
  have ap: "\<forall>i < 1 + 16. \<not> unat (0x401002 + of_nat i - 0x700000 :: u64) < 0x50000 \<and> \<not> unat (0x401002 + of_nat i - STUB_ADDR_DUMP) < 0x1000 \<and>
     \<not> unat (0x401002 + of_nat i - STUB_ADDR_RESTORE) < 0x1000" using demo_apart by simp
  obtain t c' where "instrument 5 demo_start_kernel ?asm toy_dis 0x10000 0x20000 0 demo_junk demo_cpu demo_loaded = Inr (c', t\<lparr>mem := cmem c'\<rparr>)"
    "pc c' = 0x401002" "regs c' RSP = rsp (guest demo_loaded)" "\<forall>g. g \<noteq> RSP \<longrightarrow> regs c' g = 0"
    using instrument_starts_guest [where asm = ?asm and sb = "0x10000" and disp = "0x20000" and u = 0 and j = demo_junk and c = demo_cpu,
        OF demo_start_kernel_ok(1-3) a toy_dis_ok cf n(2,3) d(3) d(2) [symmetric] n(1) ap v refl n(4) refl n(4) refl n(5,6) refl n(5,6) h]
    by (elim exE conjE)
  then show ?thesis by (simp add: d(4))
qed

end
