(* ===== verification/Dynamic_Load.thy ===== *)
theory Dynamic_Load
  imports Core_Mapper
begin

text \<open>
  Loading a program that names an interpreter (\<^verbatim>\<open>map_binary\<close>, \<^verbatim>\<open>load_interp\<close> of \<^verbatim>\<open>src/core_mapper.c\<close>): the dynamic linker is loaded by the
  same function, without a stack of its own, before the segments of the program; the guest starts in the linker.  Two
  levels of the recursion are enough when the linker names no interpreter itself.
\<close>

section \<open>Placement\<close>

text \<open>
  The headers can be loaded at every base that may be drawn, for a position-independent file, and at the addresses of the
  file otherwise.
\<close>

definition places :: "host_env \<Rightarrow> u64 \<Rightarrow> phdr list \<Rightarrow> bool" where
  "places E ty phs = (if ty = ET_DYN then \<forall>t. loadable True (base_address E t) (base_address E t) phs else \<exists>a. loadable False a 0 phs)"

lemma places_at: "places E ty phs \<Longrightarrow> \<exists>a z. loadable (ty = ET_DYN) a z phs \<and> (ty = ET_DYN \<longrightarrow> a = base_address E t)"
  by (auto simp: places_def split: if_splits)

lemma loadable_bias: "loadable pic a z phs \<Longrightarrow> z = (if pic then a else 0)"
  by (auto simp: loadable_def split: if_splits)

lemma loadable_ok: "loadable pic a z phs \<Longrightarrow> ph \<in> set phs \<Longrightarrow> ph_type ph = PT_LOAD \<Longrightarrow> segment_ok z ph"
  unfolding loadable_def by blast

section \<open>What loading leaves alone\<close>

lemma load_erase_outer:
  assumes "load_erase s = load_erase s'"
  shows "s\<lparr>s_binary := b, mem := m, ktrace := tr\<rparr> = s'\<lparr>s_binary := b, mem := m, ktrace := tr\<rparr>"
proof -
  have "(load_erase x)\<lparr>s_binary := b, mem := m, ktrace := tr\<rparr> = x\<lparr>s_binary := b, mem := m, ktrace := tr\<rparr>" for x
    by (simp add: load_erase_def upd_dbi_def)
  then show ?thesis by (metis assms)
qed

text \<open>Every byte of a segment lies in its span, so a segment survives what does not touch the footprint.\<close>

lemma seg_byte_span:
  assumes "segment_ok z ph" and "t < unat (ph_memsz ph)"
  shows "seg_span z ph (z + ph_vaddr ph + of_nat t)"
proof -
  let ?C = "unat (z + ph_vaddr ph)" and ?F = "unat (ph_filesz ph)" and ?M = "unat (ph_memsz ph)"
  have fm: "?F \<le> ?M" using assms(1) by (simp add: segment_ok_def word_le_nat_alt)
  have "unat (z + ph_vaddr ph + of_nat t) = ?C + t" using assms by (simp add: segment_ok_def unat_plus_nat)
  moreover have "?C + ?M < seg_limit ?C ?F ?M"
    using fm pa_less [of "?C + ?M"] pa_mono [of "?C + ?F" "?C + ?M"] by (auto simp: seg_limit_def bss_limit_def)
  ultimately show ?thesis using assms(2) pa_le [of ?C] by (simp add: seg_span_def)
qed

lemma seg_loaded_footprint:
  assumes "loadable pic a z phs" and "ph \<in> set phs" "ph_type ph = PT_LOAD" and "seg_loaded data z m ph"
    and "\<And>x. footprint z phs x \<Longrightarrow> m' x = m x"
  shows "seg_loaded data z m' ph"
  using assms(4) assms(5) seg_byte_span [OF loadable_ok [OF assms(1-3)]] assms(2,3)
  unfolding seg_loaded_def footprint_def by metis

section \<open>The interpreter\<close>

lemma load_interp_loads:
  assumes o': "opens E iname hi ity ientry iphs" and K: "loads K (hf_fd hi) (hf_data hi)" and l: "loadable (ity = ET_DYN) ai zi iphs"
    and a: "ity = ET_DYN \<longrightarrow> ai = base_address E s"
    and c: "cstr (fbinary (s_binary s)) (unat (if pie (s_binary s) then ph_vaddr ph else ph_offset ph)) = Some iname"
  shows "\<exists>m tr. load_interp (\<lambda>n. map_binary (Suc fuel) K E n None) ph s = Inr (True, s\<lparr>s_binary := (s_binary s)\<lparr>interp :=
       Some \<lparr>i_pie = (ity = ET_DYN), i_base = ai, i_entry = ientry, i_memory_map = 0\<rparr>\<rparr>, mem := m, ktrace := tr\<rparr>) \<and>
     (\<forall>p \<in> set iphs. ph_type p = PT_LOAD \<longrightarrow> seg_loaded (hf_data hi) zi m p) \<and> (\<forall>x. \<not> footprint zi iphs x \<longrightarrow> m x = mem s x)"
proof -
  let ?b = "opened E iname hi (ity = ET_DYN) (length iphs)"
  obtain s1 where s1: "map_phdrs (\<lambda>n. map_binary fuel K E n None) K E (phdr_ptrs (length iphs)) (s\<lparr>s_binary := ?b\<rparr>) = Inr (True, s1)"
    "load_erase s1 = load_erase (s\<lparr>s_binary := ?b\<lparr>base := ai\<rparr>\<rparr>)" "entry_point (s_binary s1) = Some (zi + ientry)"
    and m1: "\<forall>p \<in> set iphs. ph_type p = PT_LOAD \<longrightarrow> seg_loaded (hf_data hi) zi (mem s1) p" "\<forall>x. \<not> footprint zi iphs x \<longrightarrow> mem s1 x = mem s x"
    using map_phdrs_opened [OF o' K l a refl] by blast
  define s2 where "s2 = s1\<lparr>s_binary := (s_binary s1)\<lparr>exec_entry := zi + ientry\<rparr>\<rparr>"
  have run: "map_binary (Suc fuel) K E iname None s = Inr (True, s2)"
    unfolding map_binary_opened [OF o'] s2_def using s1(1,3) by (simp add: retR_def)
  note eq = load_erase_eq [OF s1(2), simplified]
  have mm: "memory_map (s_binary s1) = 0"
  proof -
    have "memory_map (s_binary (load_erase x)) = memory_map (s_binary x)" for x by (simp add: load_erase_def upd_dbi_def)
    from this [of s1] this [of "s\<lparr>s_binary := ?b\<lparr>base := ai\<rparr>\<rparr>"] show ?thesis using s1(2) by simp
  qed
  have "s1\<lparr>s_binary := B, mem := mem s1, ktrace := ktrace s1\<rparr> = s\<lparr>s_binary := B, mem := mem s1, ktrace := ktrace s1\<rparr>" for B
    using load_erase_outer [OF s1(2), where b = B and m = "mem s1" and tr = "ktrace s1"] by simp
  then have "s1\<lparr>s_binary := B\<rparr> = s\<lparr>s_binary := B, mem := mem s1, ktrace := ktrace s1\<rparr>" for B by simp
  then have "load_interp (\<lambda>n. map_binary (Suc fuel) K E n None) ph s = Inr (True, s\<lparr>s_binary := (s_binary s)\<lparr>interp :=
       Some \<lparr>i_pie = (ity = ET_DYN), i_base = ai, i_entry = ientry, i_memory_map = 0\<rparr>\<rparr>, mem := mem s1, ktrace := ktrace s1\<rparr>)"
    using run c opens_image(3) [OF o'] unfolding load_interp_def Let_def by (simp add: s2_def eq mm retR_def)
  then show ?thesis using m1 by blast
qed

section \<open>The program behind it\<close>

text \<open>The stage of \<^verbatim>\<open>map_binary\<close> that walks the program headers, for a program whose interpreter comes before its segments.\<close>

lemma map_phdrs_dynamic:
  assumes o': "opens E name hf ty entry (pre @ pi # post)" and pre: "\<forall>p \<in> set pre. ph_type p \<noteq> PT_LOAD \<and> ph_type p \<noteq> PT_INTERP"
    and pi: "ph_type pi = PT_INTERP" "cstr (hf_data hf) (unat (if ty = ET_DYN then ph_vaddr pi else ph_offset pi)) = Some iname"
    and oi: "opens E iname hi ity ientry iphs" and K: "loads K (hf_fd hf) (hf_data hf)" "loads K (hf_fd hi) (hf_data hi)"
    and pl: "places E ty post" "places E ity iphs" and b: "b = opened E name hf (ty = ET_DYN) (length (pre @ pi # post))"
    and mb: "mb = (\<lambda>n. map_binary (Suc fuel) K E n None)"
  shows "\<exists>s' a z ai zi i. map_phdrs mb K E (phdr_ptrs (length (pre @ pi # post))) (s\<lparr>s_binary := b\<rparr>) = Inr (True, s') \<and>
    loadable (ty = ET_DYN) a z post \<and> loadable (ity = ET_DYN) ai zi iphs \<and>
    (ty = ET_DYN \<longrightarrow> (\<exists>t. a = base_address E t)) \<and> (ity = ET_DYN \<longrightarrow> ai = base_address E s) \<and>
    i = \<lparr>i_pie = (ity = ET_DYN), i_base = ai, i_entry = ientry, i_memory_map = 0\<rparr> \<and>
    load_erase s' = load_erase (s\<lparr>s_binary := b\<lparr>interp := Some i, base := a\<rparr>\<rparr>) \<and> entry_point (s_binary s') = Some (zi + ientry) \<and>
    (\<forall>ph \<in> set post. ph_type ph = PT_LOAD \<longrightarrow> seg_loaded (hf_data hf) z (mem s') ph) \<and>
    ((\<forall>x. footprint zi iphs x \<longrightarrow> \<not> footprint z post x) \<longrightarrow>
       (\<forall>ph \<in> set iphs. ph_type ph = PT_LOAD \<longrightarrow> seg_loaded (hf_data hi) zi (mem s') ph)) \<and>
    (\<forall>x. \<not> footprint z post x \<and> \<not> footprint zi iphs x \<longrightarrow> mem s' x = mem s x)"
proof -
  let ?s = "s\<lparr>s_binary := b\<rparr>"
  obtain ps q qs where ptrs: "phdr_ptrs (length (pre @ pi # post)) = ps @ q # qs" and rp: "map (read_phdr (hf_data hf)) ps = map (Some \<circ> strip) pre"
    and rq: "read_phdr (hf_data hf) q = Some (strip pi)" and rs: "map (read_phdr (hf_data hf)) qs = map (Some \<circ> strip) post"
    using opens_image(2) [OF o'] by (auto simp: map_eq_append_conv map_eq_Cons_conv)
  have sk: "map_phdrs mb K E (ps @ q # qs) ?s = map_phdrs mb K E (q # qs) ?s"
  proof (rule map_phdrs_skip, rule ballI)
    fix p assume "p \<in> set ps"
    then have "read_phdr (hf_data hf) p \<in> set (map (Some \<circ> strip) pre)" unfolding rp [symmetric] by simp
    then show "\<exists>ph. read_phdr (fbinary (s_binary ?s)) p = Some ph \<and> ph_type ph \<noteq> PT_LOAD \<and> ph_type ph \<noteq> PT_INTERP"
      using pre by (auto simp: b)
  qed
  obtain ai zi where li: "loadable (ity = ET_DYN) ai zi iphs" and ai: "ity = ET_DYN \<longrightarrow> ai = base_address E s"
    using places_at [OF pl(2)] by blast
  have ais: "ity = ET_DYN \<longrightarrow> ai = base_address E ?s" using ai by (simp add: base_address_def)
  define i where "i = \<lparr>i_pie = (ity = ET_DYN), i_base = ai, i_entry = ientry, i_memory_map = 0\<rparr>"
  have "cstr (fbinary (s_binary ?s)) (unat (if pie (s_binary ?s) then ph_vaddr (strip pi) else ph_offset (strip pi))) = Some iname"
    using pi(2) by (cases "ty = ET_DYN") (simp_all add: b)
  from load_interp_loads [OF oi K(2) li ais this, of fuel] obtain m tr where
    I: "load_interp mb (strip pi) ?s = Inr (True, ?s\<lparr>s_binary := b\<lparr>interp := Some i\<rparr>, mem := m, ktrace := tr\<rparr>)"
    and m: "\<forall>p \<in> set iphs. ph_type p = PT_LOAD \<longrightarrow> seg_loaded (hf_data hi) zi m p" "\<forall>x. \<not> footprint zi iphs x \<longrightarrow> m x = mem s x"
    unfolding mb i_def by auto
  define t where "t = s\<lparr>s_binary := b\<lparr>interp := Some i\<rparr>, mem := m, ktrace := tr\<rparr>"
  have step: "map_phdrs mb K E (q # qs) ?s = map_phdrs mb K E qs t"
    using I rq read_phdr_type [OF rq] pi(1) by (simp add: b t_def)
  obtain a z where l: "loadable (ty = ET_DYN) a z post" and a: "ty = ET_DYN \<longrightarrow> a = base_address E t" using places_at [OF pl(1)] by blast
  have tb: "fd (s_binary t) = hf_fd hf" "fbinary (s_binary t) = hf_data hf" "base (s_binary t) = 0" "pie (s_binary t) = (ty = ET_DYN)"
    by (simp_all add: t_def b)
  obtain s' where s': "map_phdrs mb K E qs t = Inr (True, s')" "load_erase s' = load_erase (t\<lparr>s_binary := (s_binary t)\<lparr>base := a\<rparr>\<rparr>)"
    "\<forall>ph \<in> set post. ph_type ph = PT_LOAD \<longrightarrow> seg_loaded (hf_data hf) z (mem s') ph" "\<forall>x. \<not> footprint z post x \<longrightarrow> mem s' x = mem t x"
    using map_phdrs_program [of K t "hf_data hf" qs post a z E mb] K(1) rs l a unfolding tb by blast
  have er: "load_erase s' = load_erase (s\<lparr>s_binary := b\<lparr>interp := Some i, base := a\<rparr>\<rparr>)"
    using s'(2) by (simp add: t_def load_erase_def upd_dbi_def)
  have ep: "entry_point (s_binary s') = Some (zi + ientry)"
    using load_erase_eq(6) [OF er] loadable_bias [OF li] by (simp add: entry_point_def i_def)
  have keep: "(\<forall>x. footprint zi iphs x \<longrightarrow> \<not> footprint z post x) \<longrightarrow>
     (\<forall>ph \<in> set iphs. ph_type ph = PT_LOAD \<longrightarrow> seg_loaded (hf_data hi) zi (mem s') ph)"
    using m(1) s'(4) seg_loaded_footprint [OF li, where m = m and m' = "mem s'"] by (simp add: t_def)
  have fr: "\<forall>x. \<not> footprint z post x \<and> \<not> footprint zi iphs x \<longrightarrow> mem s' x = mem s x" using s'(4) m(2) by (simp add: t_def)
  have "map_phdrs mb K E (phdr_ptrs (length (pre @ pi # post))) ?s = Inr (True, s')" unfolding ptrs sk step by (rule s'(1))
  moreover have "ty = ET_DYN \<longrightarrow> (\<exists>t. a = base_address E t)" using a by blast
  ultimately show ?thesis using l li ai i_def er ep s'(3) keep fr by (intro exI conjI)
qed

section \<open>Property\<close>

text \<open>
  A dynamically linked program is loaded together with its interpreter.  When the interpreter is named before the segments and
  names no interpreter itself, \<^verbatim>\<open>map_binary\<close> returns with two levels of recursion; every segment of the
  program is in memory as its file says, the descriptor knows the interpreter and where it was placed, and the entry
  point is the interpreter's.  The segments of the interpreter are in memory too, if the two random bases keep the files apart: nothing in the code
  prevents the program, which is mapped later and at a fixed address, from replacing pages of the interpreter.  No byte
  outside of the pages of both changes.
\<close>

lemma map_binary_loads_interp:
  assumes "opens E name hf ty entry (pre @ pi # post)" and "\<forall>p \<in> set pre. ph_type p \<noteq> PT_LOAD \<and> ph_type p \<noteq> PT_INTERP"
    and "ph_type pi = PT_INTERP" and "cstr (hf_data hf) (unat (if ty = ET_DYN then ph_vaddr pi else ph_offset pi)) = Some iname"
    and "opens E iname hi ity ientry iphs" and "loads K (hf_fd hf) (hf_data hf)" and "loads K (hf_fd hi) (hf_data hi)"
    and "places E ty post" and "places E ity iphs"
  shows "\<exists>s' a z ai zi. map_binary (Suc (Suc fuel)) K E name None s = Inr (True, s') \<and>
    loadable (ty = ET_DYN) a z post \<and> loadable (ity = ET_DYN) ai zi iphs \<and>
    (ty = ET_DYN \<longrightarrow> (\<exists>t. a = base_address E t)) \<and> (ity = ET_DYN \<longrightarrow> ai = base_address E s) \<and> base (s_binary s') = a \<and>
    interp (s_binary s') = Some \<lparr>i_pie = (ity = ET_DYN), i_base = ai, i_entry = ientry, i_memory_map = 0\<rparr> \<and>
    exec_entry (s_binary s') = zi + ientry \<and>
    (\<forall>ph \<in> set post. ph_type ph = PT_LOAD \<longrightarrow> seg_loaded (hf_data hf) z (mem s') ph) \<and>
    ((\<forall>x. footprint zi iphs x \<longrightarrow> \<not> footprint z post x) \<longrightarrow>
       (\<forall>ph \<in> set iphs. ph_type ph = PT_LOAD \<longrightarrow> seg_loaded (hf_data hi) zi (mem s') ph)) \<and>
    (\<forall>x. \<not> footprint z post x \<and> \<not> footprint zi iphs x \<longrightarrow> mem s' x = mem s x)"
proof -
  let ?b = "opened E name hf (ty = ET_DYN) (length (pre @ pi # post))"
  obtain s1 a z ai zi i where r: "map_phdrs (\<lambda>n. map_binary (Suc fuel) K E n None) K E (phdr_ptrs (length (pre @ pi # post))) (s\<lparr>s_binary := ?b\<rparr>) = Inr (True, s1)"
    and l: "loadable (ty = ET_DYN) a z post" "loadable (ity = ET_DYN) ai zi iphs" "ty = ET_DYN \<longrightarrow> (\<exists>t. a = base_address E t)" "ity = ET_DYN \<longrightarrow> ai = base_address E s"
    and i: "i = \<lparr>i_pie = (ity = ET_DYN), i_base = ai, i_entry = ientry, i_memory_map = 0\<rparr>"
    and er: "load_erase s1 = load_erase (s\<lparr>s_binary := ?b\<lparr>interp := Some i, base := a\<rparr>\<rparr>)" and ep: "entry_point (s_binary s1) = Some (zi + ientry)"
    and m: "\<forall>ph \<in> set post. ph_type ph = PT_LOAD \<longrightarrow> seg_loaded (hf_data hf) z (mem s1) ph"
      "(\<forall>x. footprint zi iphs x \<longrightarrow> \<not> footprint z post x) \<longrightarrow> (\<forall>ph \<in> set iphs. ph_type ph = PT_LOAD \<longrightarrow> seg_loaded (hf_data hi) zi (mem s1) ph)"
      "\<forall>x. \<not> footprint z post x \<and> \<not> footprint zi iphs x \<longrightarrow> mem s1 x = mem s x"
    using map_phdrs_dynamic [OF assms refl refl, of fuel s] by blast
  define s2 where "s2 = s1\<lparr>s_binary := (s_binary s1)\<lparr>exec_entry := zi + ientry\<rparr>\<rparr>"
  have "map_binary (Suc (Suc fuel)) K E name None s = Inr (True, s2)"
    unfolding map_binary_opened [OF assms(1)] s2_def using r ep by (simp add: retR_def)
  moreover have "base (s_binary s2) = a" "interp (s_binary s2) = Some i" "mem s2 = mem s1" "exec_entry (s_binary s2) = zi + ientry"
    using load_erase_eq(4,6) [OF er] by (simp_all add: s2_def)
  ultimately show ?thesis using l m unfolding i by (intro exI [of _ s2] exI [of _ a] exI [of _ z] exI [of _ ai] exI [of _ zi] conjI) simp_all
qed

text \<open>A fixed program that names a position-independent interpreter, the name standing behind its program headers.\<close>

definition prog_phdrs :: "phdr list" where
  "prog_phdrs = [\<lparr>ph_type = 3, ph_flags = 4, ph_offset = 176, ph_vaddr = 0x4000b0, ph_paddr = 0, ph_filesz = 2, ph_memsz = 2, ph_align = 1\<rparr>,
     \<lparr>ph_type = 1, ph_flags = 5, ph_offset = 0, ph_vaddr = 0x400000, ph_paddr = 0, ph_filesz = 178, ph_memsz = 178, ph_align = 0x1000\<rparr>]"

definition linker_phdrs :: "phdr list" where
  "linker_phdrs = [\<lparr>ph_type = 1, ph_flags = 5, ph_offset = 0, ph_vaddr = 0, ph_paddr = 0, ph_filesz = 121, ph_memsz = 121, ph_align = 0x1000\<rparr>]"

definition prog_elf :: elf_file where
  "prog_elf = elf_image (replicate 12 0) 2 0x400040 0 (replicate 6 0) prog_phdrs [0x61, 0]"

definition linker_elf :: elf_file where
  "linker_elf = elf_image (replicate 12 0) 3 0x78 0 (replicate 6 0) linker_phdrs [0xc3]"

definition dyn_env :: host_env where
  "dyn_env = demo_env\<lparr>host_open := (\<lambda>name. if name = ''a.out'' then Some \<lparr>hf_fd = 3, hf_stat = True, hf_data = prog_elf\<rparr>
     else Some \<lparr>hf_fd = 4, hf_stat = True, hf_data = linker_elf\<rparr>)\<rparr>"

definition dyn_kernel :: kernel where
  "dyn_kernel tr c m = (case c of
     K_mmap a len p fl f off \<Rightarrow> \<lparr>k_ret = a, k_out = 0,
       k_mem = (\<lambda>x. if unat (x - a) < unat len
         then (if fl = 0x32 then 0 else fbyte (if f = 3 then prog_elf else linker_elf) (unat off + unat (x - a))) else m x)\<rparr>
   | _ \<Rightarrow> \<lparr>k_ret = 0, k_out = 0, k_mem = m\<rparr>)"

lemma dyn_loads: "loads dyn_kernel 3 prog_elf" "loads dyn_kernel 4 linker_elf"
  by (simp_all add: fun_eq_iff loads_def maps_file_def maps_anon_def grants_def mprotect_keeps_bytes_def mprotect_succeeds_def
      dyn_kernel_def file_flags_def anon_flags_def)

lemma dyn_opens:
  "opens dyn_env ''a.out'' \<lparr>hf_fd = 3, hf_stat = True, hf_data = prog_elf\<rparr> 2 0x400040 prog_phdrs"
  "opens dyn_env ''a'' \<lparr>hf_fd = 4, hf_stat = True, hf_data = linker_elf\<rparr> 3 0x78 linker_phdrs"
  by (rule opensI [where ident = "replicate 12 0" and sect = "replicate 6 0" and shoff = 0 and tail = "[0x61, 0]"];
      simp add: dyn_env_def demo_env_def prog_elf_def prog_phdrs_def phdr_ok_def)
    (rule opensI [where ident = "replicate 12 0" and sect = "replicate 6 0" and shoff = 0 and tail = "[0xc3]"];
      simp add: dyn_env_def demo_env_def linker_elf_def linker_phdrs_def phdr_ok_def)

lemma dyn_split:
  "opens dyn_env ''a.out'' \<lparr>hf_fd = 3, hf_stat = True, hf_data = prog_elf\<rparr> 2 0x400040 ([] @ prog_phdrs ! 0 # [prog_phdrs ! 1])"
proof -
  have phs: "prog_phdrs = [] @ prog_phdrs ! 0 # [prog_phdrs ! 1]" by (simp add: prog_phdrs_def)
  show ?thesis using dyn_opens(1) by (simp only: phs [symmetric])
qed

lemma dyn_name:
  "cstr (hf_data \<lparr>hf_fd = 3, hf_stat = True, hf_data = prog_elf\<rparr>)
     (unat (if (2 :: u64) = ET_DYN then ph_vaddr (prog_phdrs ! 0) else ph_offset (prog_phdrs ! 0))) = Some ''a''"
proof -
  have "drop 176 prog_elf = [0x61, 0]" "length prog_elf = 178" by (simp_all add: prog_elf_def elf_image_def prog_phdrs_def)
  then have "cstr prog_elf 176 = Some ''a''" using chr_a by (simp add: cstr_def)
  then show ?thesis by (simp add: prog_phdrs_def)
qed

lemma dyn_base: "base_address dyn_env t = 0x1234567000"
  by (simp add: base_address_def dyn_env_def demo_env_def PAGE_ALIGN_def)

lemma dyn_places:
  "places dyn_env 2 [prog_phdrs ! 1]" "places dyn_env 3 linker_phdrs"
proof -
  have "loadable False 0x400000 0 [prog_phdrs ! 1]"
    unfolding loadable_def
    by (intro exI [of _ "[]"] exI [of _ "prog_phdrs ! 1"]) (simp add: prog_phdrs_def segment_ok_def PAGE_ALIGN_def PAGE_OFFT_def)
  then show "places dyn_env 2 [prog_phdrs ! 1]" by (auto simp: places_def)
  show "places dyn_env 3 linker_phdrs"
    unfolding places_def loadable_def dyn_base
    by (simp, intro exI [of _ "[]"] exI [of _ "linker_phdrs ! 0"]) (simp add: linker_phdrs_def segment_ok_def PAGE_ALIGN_def PAGE_OFFT_def)
qed

lemma magic_byte: "fbyte prog_elf 1 = 0x45" "fbyte linker_elf 1 = 0x45"
  by (simp_all add: fbyte_def prog_elf_def linker_elf_def elf_image_def)

lemma map_binary_loads_interp_witness:
  "\<exists>s'. map_binary 2 dyn_kernel dyn_env ''a.out'' None zero_mach = Inr (True, s') \<and> mem s' 0x400001 = 0x45 \<and> mem s' 0x1234567001 = 0x45 \<and>
     exec_entry (s_binary s') = 0x1234567078"
proof -
  have n: "Suc (Suc 0) = 2" by simp
  let ?hf = "\<lparr>hf_fd = 3, hf_stat = True, hf_data = prog_elf\<rparr>" and ?hi = "\<lparr>hf_fd = 4, hf_stat = True, hf_data = linker_elf\<rparr>"
  have p: "\<forall>p \<in> set []. ph_type p \<noteq> PT_LOAD \<and> ph_type p \<noteq> PT_INTERP" "ph_type (prog_phdrs ! 0) = PT_INTERP"
    "loads dyn_kernel (hf_fd ?hf) (hf_data ?hf)" "loads dyn_kernel (hf_fd ?hi) (hf_data ?hi)"
    using dyn_loads by (simp_all add: prog_phdrs_def)
  obtain s' a z ai zi where s': "map_binary 2 dyn_kernel dyn_env ''a.out'' None zero_mach = Inr (True, s')"
    "loadable ((2 :: u64) = ET_DYN) a z [prog_phdrs ! 1]" "loadable ((3 :: u64) = ET_DYN) ai zi linker_phdrs"
    "(3 :: u64) = ET_DYN \<longrightarrow> ai = base_address dyn_env zero_mach" "exec_entry (s_binary s') = zi + 0x78"
    "\<forall>p \<in> set [prog_phdrs ! 1]. ph_type p = PT_LOAD \<longrightarrow> seg_loaded (hf_data ?hf) z (mem s') p"
    "(\<forall>x. footprint zi linker_phdrs x \<longrightarrow> \<not> footprint z [prog_phdrs ! 1] x) \<longrightarrow>
       (\<forall>p \<in> set linker_phdrs. ph_type p = PT_LOAD \<longrightarrow> seg_loaded (hf_data ?hi) zi (mem s') p)"
    using map_binary_loads_interp [OF dyn_split p(1,2) dyn_name dyn_opens(2) p(3,4) dyn_places, of 0 zero_mach, unfolded n] by (elim exE conjE)
  have z: "z = 0" "zi = 0x1234567000" using loadable_bias [OF s'(2)] loadable_bias [OF s'(3)] s'(4) by (simp_all add: dyn_base)
  have "seg_loaded linker_elf zi (mem s') (linker_phdrs ! 0)"
    using s'(7) by (simp add: z footprint_def seg_span_def seg_limit_def pa_def linker_phdrs_def prog_phdrs_def)
  then have "\<forall>t < 121. mem s' (0x1234567000 + of_nat t) = fbyte linker_elf t" unfolding seg_loaded_def by (auto simp: linker_phdrs_def z)
  from this [rule_format, of 1] have "mem s' 0x1234567001 = 0x45" using magic_byte by simp
  moreover have "\<forall>t < 178. mem s' (0x400000 + of_nat t) = fbyte prog_elf t" using s'(6) unfolding seg_loaded_def by (simp add: prog_phdrs_def z)
  from this [rule_format, of 1] have "mem s' 0x400001 = 0x45" using magic_byte by simp
  ultimately show ?thesis using s' z by auto
qed

end
