(* ===== verification/Whole_Run.thy ===== *)
theory Whole_Run
  imports Startup Dynamic_Load
begin

text \<open>
  A run from \<^verbatim>\<open>main\<close> on: loading, stack and start of the instrumentation composed.  The theorems say that the guest starts with the segments of
  its files in memory, its stack laid out and its registers clean, in a state that the engine simulates from, so that
  everything the process does afterwards is a run of the guest alone.
\<close>

section \<open>What the run relies on\<close>

text \<open>
  The assembler encodes both stubs, whatever the host stack, and both hooks; it is a fact about keystone that
  the encodings fit the pages and buffers reserved for them.
\<close>

definition asm_ok :: "assembler \<Rightarrow> u64 \<Rightarrow> u64 \<Rightarrow> state_rtime_t \<Rightarrow> u8 list \<Rightarrow> u8 list \<Rightarrow> bool" where
  "asm_ok asm sb disp st dh rh = ((\<exists>dv rv. dump_vector st = Some dv \<and> restore_vector st = Some rv \<and>
       (\<forall>h. \<exists>db. asm (dump_general h @ dv @ dump_enter sb disp) = Some db \<and> length db \<le> 0x1000) \<and>
       (\<exists>rb. asm (rv @ restore_general @ restore_leave) = Some rb \<and> length rb \<le> 0x1000)) \<and>
     asm (dump_hook_insns STUB_ADDR_DUMP) = Some dh \<and> 0 < length dh \<and> length dh \<le> 64 \<and>
     asm restore_hook_insns = Some rh \<and> 0 < length rh \<and> length rh \<le> 64)"

definition stub_page :: "u64 \<Rightarrow> bool" where
  "stub_page x = (unat (x - STUB_ADDR_DUMP) < 0x1000 \<or> unat (x - STUB_ADDR_RESTORE) < 0x1000)"

definition stack_page :: "u64 \<Rightarrow> u64 \<Rightarrow> bool" where
  "stack_page r x = (unat (x - r) < 0x50000)"

text \<open>
  The kernel grants the two stacks at \<open>r\<close>, a function of the calls so far, and places them where nothing is: not on the bytes \<open>busy\<close>, on the
  pages of the stubs or on the stack granted before.
\<close>

definition grants_stacks :: "kernel \<Rightarrow> (kcall list \<Rightarrow> u64) \<Rightarrow> (u64 \<Rightarrow> bool) \<Rightarrow> bool" where
  "grants_stacks K r busy = ((\<forall>tr m. anon_reply (K tr stack_call m) (r tr) 0x50000 m) \<and>
     (\<forall>tr x. stack_page (r tr) x \<longrightarrow> \<not> busy x \<and> \<not> stub_page x \<and> \<not> stack_page (r (tr @ [stack_call])) x))"

text \<open>The bytes that the first block and the hooks around it may take.\<close>

definition near :: "u64 \<Rightarrow> nat \<Rightarrow> u64 \<Rightarrow> bool" where
  "near e off x = in_range (e - 64) (off + 128) x"

text \<open>The bytes \<open>foot\<close> of the loaded files, the argument block, the first block, the stacks and the stubs do not overlap where it matters.\<close>

definition argv_block :: "arg_t \<Rightarrow> u64 list \<Rightarrow> u64 list \<Rightarrow> u64 \<Rightarrow> bool" where
  "argv_block ar av envs x = in_range (a_argv ar) (8 * (length av + length envs + 2)) x"

definition fits :: "kernel \<Rightarrow> (kcall list \<Rightarrow> u64) \<Rightarrow> arg_t \<Rightarrow> u64 list \<Rightarrow> u64 list \<Rightarrow> u64 \<Rightarrow> nat \<Rightarrow> (u64 \<Rightarrow> bool) \<Rightarrow> bool" where
  "fits K st ar av envs e off foot = (grants_stacks K st (\<lambda>x. foot x \<or> argv_block ar av envs x \<or> near e off x) \<and>
     (\<forall>x. foot x \<longrightarrow> \<not> argv_block ar av envs x \<and> \<not> stub_page x) \<and> (\<forall>x. near e off x \<longrightarrow> \<not> stub_page x))"

section \<open>Lemmas\<close>

lemma dump_vector_rsp [simp]: "dump_vector (st\<lparr>rsp := v\<rparr>) = dump_vector st" "restore_vector (st\<lparr>rsp := v\<rparr>) = restore_vector st"
  by (simp_all add: dump_vector_def restore_vector_def)

lemma near_from:
  assumes "i < 64 + off" and "off < 2 ^ 31"
  shows "near e off (e + of_nat i)"
proof -
  have "e + of_nat i - (e - 64) = (of_nat (i + 64) :: u64)" by simp
  then have "unat (e + of_nat i - (e - 64)) = i + 64" using assms unat_of_nat_64 [of "i + 64"] by simp
  then show ?thesis using assms by (simp add: near_def in_range_def)
qed

lemma near_range:
  assumes "in_range (e + of_nat off) n x \<or> in_range (e - of_nat k) k x" and "n \<le> 64" "k \<le> 64" and "off < 2 ^ 31"
  shows "near e off x"
  using assms(1)
proof
  assume "in_range (e + of_nat off) n x"
  then have d: "unat (x - (e + of_nat off)) < n" by (simp add: in_range_def)
  define i where "i = unat (x - (e + of_nat off))"
  have "x = e + of_nat (off + i)" by (simp add: i_def)
  then show ?thesis using near_from [of "off + i" off e] d assms(2,4) i_def by simp
next
  assume "in_range (e - of_nat k) k x"
  then have d: "unat (x - (e - of_nat k)) < k" by (simp add: in_range_def)
  define i where "i = unat (x - (e - of_nat k))"
  have "x - (e - 64) = of_nat (64 - k + i)" using assms(3) by (simp add: i_def of_nat_diff)
  moreover have "64 - k + i < 2 ^ 64" using d assms(3) by (simp add: i_def)
  ultimately have "unat (x - (e - 64)) = 64 - k + i" by (metis unat_of_nat_64)
  then show ?thesis using d assms(3) i_def by (simp add: near_def in_range_def)
qed

lemma patched_write:
  assumes p: "patched m s" and out: "\<And>x. in_range a (length bs) x \<Longrightarrow> \<not> in_hooks s x"
  shows "patched (write_bytes m a bs) (s\<lparr>mem := write_bytes (mem s) a bs\<rparr>)"
proof -
  define ws where "ws x = (if in_range a (length bs) x then Some (bs ! unat (x - a)) else None)" for x
  have ov: "overlay m' ws = write_bytes m' a bs" for m' by (auto simp: fun_eq_iff overlay_def ws_def write_bytes_in)
  have "patched (overlay m ws) ((upd_guest (\<lambda>_. guest s) s)\<lparr>mem := overlay (mem s) ws\<rparr>)"
    by (rule patched_overlay [OF p]) (use out in \<open>auto simp: ws_def\<close>)
  moreover have "upd_guest (\<lambda>_. guest s) s = s" by (simp add: upd_guest_def upd_dbi_def)
  ultimately show ?thesis by (simp add: ov)
qed

text \<open>What the loader leaves of the descriptor.\<close>

lemma load_erase_dbi:
  assumes "load_erase s = load_erase s'"
  shows "guest s = guest s'" "hashmap (dbi s) = hashmap (dbi s')" "hookof w s = hookof w s'" "curr_syscall s = curr_syscall s'"
proof -
  have "guest (load_erase x) = guest x" "hashmap (dbi (load_erase x)) = hashmap (dbi x)" "hookof w (load_erase x) = hookof w x"
    "curr_syscall (load_erase x) = curr_syscall x" for x
    by (cases w; simp add: load_erase_def upd_dbi_def hookof_def)+
  then show "guest s = guest s'" "hashmap (dbi s) = hashmap (dbi s')" "hookof w s = hookof w s'" "curr_syscall s = curr_syscall s'"
    by (metis assms)+
qed

lemma fresh_dbi [simp]: "state (alloc_dbi E) = alloc_state E" "hashmap (alloc_dbi E) = init_hashmap" "dump (alloc_dbi E) = calloc_hook"
  "restore (alloc_dbi E) = calloc_hook"
  by (simp_all add: alloc_dbi_def)

section \<open>The stack\<close>

lemma words_cong:
  assumes "\<And>x. in_range a (8 * n) x \<Longrightarrow> m' x = m x" and "n \<le> 2 ^ 60"
  shows "map (word_at m' a) [0..<n] = map (word_at m a) [0..<n]"
proof (rule map_cong [OF refl])
  fix i assume "i \<in> set [0..<n]"
  then have i: "i < n" by simp
  show "word_at m' a i = word_at m a i"
    unfolding word_at_def
  proof (rule read64_cong)
    fix k :: nat assume k: "k < 8"
    then have "unat (a + 8 * of_nat i + of_nat k - a) = 8 * i + k" using i assms(2) by (intro unat_word_offset) auto
    then have "in_range a (8 * n) (a + 8 * of_nat i + of_nat k)" using i k by (simp add: in_range_def)
    then show "m' (a + 8 * of_nat i + of_nat k) = m (a + 8 * of_nat i + of_nat k)" by (rule assms(1))
  qed
qed

lemma entry_point_stack [simp]:
  "entry_point (s_binary (upd_guest f s)) = entry_point (s_binary s)" "entry_point (s_binary (upd_dbi h s)) = entry_point (s_binary s)"
  by (cases "interp (s_binary s)"; cases "pie (s_binary s)"; simp add: entry_point_def upd_guest_def upd_dbi_def)+

lemma map_binary_stack:
  assumes o': "opens E name hf ty entry phs"
    and r: "map_phdrs (\<lambda>n. map_binary fuel K E n None) K E (phdr_ptrs (length phs)) (s\<lparr>s_binary := opened E name hf (ty = ET_DYN) (length phs)\<rparr>) = Inr (True, s1)"
    and ep: "entry_point (s_binary s1) = Some e" and K: "anon_reply (K (ktrace s1) stack_call (mem s1)) g 0x50000 (mem s1)"
    and av: "2 \<le> length av" "0 \<notin> set av" "0 \<notin> set envs" "map (word_at (mem s1) (a_argv ar)) [0..<length av + length envs + 2] = av @ [0] @ envs @ [0]"
      "apart (a_argv ar) (length av + length envs + 2) g 0xa000"
    and aux: "aux_entries (s_binary s1) (a_random ar) (a_arch ar) (av ! 1) = Some ents" "0 \<notin> set (flat (take 14 ents))"
      "length av + length envs + 34 \<le> 0x5000" "0x5000 \<le> a_fuel ar"
  shows "\<exists>s2. map_binary (Suc fuel) K E name (Some ar) s = Inr (True, s2) \<and> guest s2 = (guest s1)\<lparr>rsp := g + 0x28000\<rparr> \<and>
     map (word_at (mem s2) (g + 0x28000)) [0..<length av + length envs + 34] = stack_words (a_argc ar) av envs ents \<and>
     (\<forall>x. \<not> stack_page g x \<longrightarrow> mem s2 x = mem s1 x) \<and> ktrace s2 = ktrace s1 @ [stack_call] \<and> exec_entry (s_binary s2) = e \<and>
     hashmap (dbi s2) = hashmap (dbi s1) \<and> (\<forall>w. hookof w s2 = hookof w s1) \<and> curr_syscall s2 = curr_syscall s1"
proof -
  obtain m' where m': "setup_stack (a_fuel ar) K (a_argv ar) (a_argc ar) (a_random ar) (a_arch ar) s1 = Inr (g + 0x28000,
       upd_guest (\<lambda>st. st\<lparr>rsp := g + 0x28000\<rparr>) (upd_dbi (\<lambda>d. d\<lparr>base_guest_stack := g + 0x28000 - 0x200000\<rparr>)
         (s1\<lparr>mem := m', ktrace := ktrace s1 @ [stack_call]\<rparr>)))"
    "map (word_at m' (g + 0x28000)) [0..<length av + length envs + 34] = stack_words (a_argc ar) av envs ents"
    "\<forall>x. \<not> unat (x - g) < 0x50000 \<longrightarrow> m' x = mem s1 x"
    using setup_stack_fills [where K = K and s = s1 and argc = "a_argc ar", OF K av aux] by blast
  define t where "t = upd_guest (\<lambda>st. st\<lparr>rsp := g + 0x28000\<rparr>) (upd_dbi (\<lambda>d. d\<lparr>base_guest_stack := g + 0x28000 - 0x200000\<rparr>)
         (s1\<lparr>mem := m', ktrace := ktrace s1 @ [stack_call]\<rparr>))"
  define s2 where "s2 = t\<lparr>s_binary := (s_binary t)\<lparr>exec_entry := e\<rparr>\<rparr>"
  have et: "entry_point (s_binary t) = Some e" using ep by (simp add: t_def)
  have "map_binary (Suc fuel) K E name (Some ar) s = Inr (True, s2)"
    unfolding map_binary_opened [OF o'] r using m'(1) [folded t_def] by (simp add: et retR_def s2_def)
  moreover have "hookof w s2 = hookof w s1" for w by (cases w) (simp_all add: s2_def t_def hookof_def upd_guest_def upd_dbi_def)
  ultimately show ?thesis
    using m'(2,3) by (intro exI [of _ s2] conjI) (simp_all add: s2_def t_def upd_guest_def upd_dbi_def stack_page_def)
qed

section \<open>The start\<close>

text \<open>
  The guest starts at \<open>e\<close> with the stack pointer \<open>sp\<close> and the memory \<open>m\<close>: the process is a framed first block, which the engine simulates
  from, and the processor is at the entry point with everything else cleared.
\<close>

definition started :: "kernel \<Rightarrow> host_env \<Rightarrow> u64 \<Rightarrow> nat \<Rightarrow> u8 list \<Rightarrow> u8 list \<Rightarrow> u64 \<Rightarrow> memory \<Rightarrow> cpu \<Rightarrow> mach \<Rightarrow> bool" where
  "started K E e off dh rh sp m c t = (guest_sim K t (guest t, m) \<and> guest t = (alloc_state E)\<lparr>rsp := sp, rip := e\<rparr> \<and> \<not> curr_syscall t \<and>
     jmp (hookof Dump t) = e + of_nat off \<and> curr_hook (dbi t) = e + of_nat off \<and> jmp (hookof Restore t) = e - of_nat (length rh) \<and>
     hook_code (hookof Dump t) = dh \<and> hook_code (hookof Restore t) = rh \<and> take_callback (dbi t) \<and> cmem c = mem t \<and>
     pc c = e \<and> regs c RSP = sp \<and> (\<forall>g. g \<noteq> RSP \<longrightarrow> regs c g = 0) \<and> (\<forall>k<16. ymm c k = 0) \<and> eflags c AND user_flags = 0)"

lemma started_transparent:
  assumes "started K E e off dh rh sp m c t"
  shows "\<forall>evs t'. steps (engine_step K dis n) evs t t' \<longrightarrow> (\<exists>m'. steps (guest_step K dis) evs (guest t, m) (guest t', m') \<and> patched m' t')"
proof (intro allI impI)
  fix evs t' assume st: "steps (engine_step K dis n) evs t t'"
  have "guest_sim K t (guest t, m)" using assms unfolding started_def by blast
  from gs_sim.run_simulates [OF st this] show "\<exists>m'. steps (guest_step K dis) evs (guest t, m) (guest t', m') \<and> patched m' t'"
    by (auto simp: guest_sim_def)
qed

lemma lower_part:
  assumes "in_range (g + 0x28000 - of_nat k) k x" and "k \<le> 0x28000"
  shows "stack_page g x" "\<not> in_range (g + 0x28000) 0x28000 x"
proof -
  define i where "i = unat (x - (g + 0x28000 - of_nat k))"
  have i: "i < k" using assms(1) by (simp add: in_range_def i_def)
  have "x - g = of_nat (0x28000 - k + i)" using assms(2) by (simp add: i_def of_nat_diff)
  moreover have "0x28000 - k + i < 2 ^ 64" using i assms(2) by simp
  ultimately have u: "unat (x - g) = 0x28000 - k + i" by (metis unat_of_nat_64)
  then show "stack_page g x" using i assms(2) by (simp add: stack_page_def)
  show "\<not> in_range (g + 0x28000) 0x28000 x"
  proof
    assume "in_range (g + 0x28000) 0x28000 x"
    then have j: "unat (x - (g + 0x28000)) < 0x28000" by (simp add: in_range_def)
    have "x - g = (x - (g + 0x28000)) + 0x28000" by simp
    then have "unat (x - g) = (unat (x - (g + 0x28000)) + 0x28000) mod 2 ^ 64" by (simp only: unat_word_ariths) simp
    then show False using u i j assms(2) by simp
  qed
qed

lemma low_words:
  assumes "in_range (g + 0x28000 - 8) 8 x \<or> in_range (g + 0x28000 - 16) 8 x"
  shows "stack_page g x" "\<not> in_range (g + 0x28000) 0x28000 x"
  using assms lower_part [of g 8 x] lower_part [of g 16 x] by (auto simp: in_range_def)

lemma hooks_near:
  assumes "jmp (hookof Dump t) = e + of_nat off" "jmp (hookof Restore t) = e - of_nat (length rh)"
    and "hook_len (hookof Dump t) \<le> 64" "hook_len (hookof Restore t) = length rh" "length rh \<le> 64" and "off < 2 ^ 31" and "in_hooks t x"
  shows "near e off x"
proof -
  obtain w where "in_range (jmp (hookof w t)) (hook_len (hookof w t)) x" using assms(7) by (auto simp: in_hooks_def)
  then have "in_range (e + of_nat off) (hook_len (hookof Dump t)) x \<or> in_range (e - of_nat (length rh)) (length rh) x"
    using assms(1,2,4) by (cases w) auto
  then show ?thesis by (rule near_range) (use assms in auto)
qed

lemma instrument_started:
  assumes kernel: "grants K" "seg_ok K" "maps_anon K" "anon_reply (K (ktrace s) stack_call (mem s)) h 0x50000 (mem s)"
    and block: "disasm_ok dis" "cflow_at dis (mem s) e off" "off < fuel" "off < 2 ^ 31" "\<not> curr_syscall s"
    and entry: "e = exec_entry (s_binary s)" "e \<noteq> of_nat (length rh)"
    and asm: "asm_ok asm sb disp (alloc_state E) dh rh"
    and s: "guest s = (alloc_state E)\<lparr>rsp := sp\<rparr>" "hashmap (dbi s) = init_hashmap" "\<forall>w. hookof w s = calloc_hook"
    and sp: "sp = g + 0x28000" "\<forall>x. stack_page g x \<longrightarrow> \<not> near e off x \<and> \<not> stub_page x \<and> \<not> stack_page h x"
    and hs: "\<forall>x. near e off x \<longrightarrow> \<not> stack_page h x \<and> \<not> stub_page x"
  shows "\<exists>c' t m. instrument fuel K asm dis sb disp u j c s = Inr (c', t) \<and> started K E e off dh rh sp m c' t \<and>
    (\<forall>x. \<not> stack_page g x \<and> \<not> stack_page h x \<and> \<not> stub_page x \<longrightarrow> m x = mem s x) \<and> (\<forall>x. in_range sp 0x28000 x \<longrightarrow> m x = mem s x)"
proof -
  obtain dv rv db rb where v: "dump_vector (guest s) = Some dv" "restore_vector (guest s) = Some rv"
    and stubs: "asm (dump_general (h + 0x28000) @ dv @ dump_enter sb disp) = Some db" "length db \<le> 0x1000"
      "asm (rv @ restore_general @ restore_leave) = Some rb" "length rb \<le> 0x1000"
    and hk: "asm (dump_hook_insns STUB_ADDR_DUMP) = Some dh" "0 < length dh" "length dh \<le> 64" "asm restore_hook_insns = Some rh" "0 < length rh" "length rh \<le> 64"
    using asm unfolding asm_ok_def s(1) dump_vector_rsp by blast
  have fresh: "\<forall>w. length (orig_bytes (hookof w s)) = 64 \<and> to_unmap (hookof w s) = 0" using s(3) by (simp add: calloc_hook_def)
  have apart: "\<forall>i < off + 16. \<not> unat (e + of_nat i - h) < 0x50000 \<and> \<not> unat (e + of_nat i - STUB_ADDR_DUMP) < 0x1000 \<and>
      \<not> unat (e + of_nat i - STUB_ADDR_RESTORE) < 0x1000"
  proof (intro allI impI)
    fix i assume "i < off + 16"
    then have "near e off (e + of_nat i)" using block(4) by (intro near_from) simp_all
    from hs [rule_format, OF this] show "\<not> unat (e + of_nat i - h) < 0x50000 \<and> \<not> unat (e + of_nat i - STUB_ADDR_DUMP) < 0x1000 \<and>
      \<not> unat (e + of_nat i - STUB_ADDR_RESTORE) < 0x1000" by (simp add: stack_page_def stub_page_def)
  qed
  let ?m = "start_image h db rb (mem s)"
  obtain t c' where run: "instrument fuel K asm dis sb disp u j c s = Inr (c', t\<lparr>mem := cmem c'\<rparr>)" and p: "patched ?m t"
    and t: "jmp (hookof Dump t) = e + of_nat off" "curr_hook (dbi t) = e + of_nat off" "jmp (hookof Restore t) = e - of_nat (length rh)"
      "hook_code (hookof Dump t) = dh" "hook_code (hookof Restore t) = rh" "guest t = (guest s)\<lparr>rip := e\<rparr>" "take_callback (dbi t)"
    and c': "pc c' = e" "regs c' RSP = rsp (guest s)" "\<forall>g. g \<noteq> RSP \<longrightarrow> regs c' g = 0" "\<forall>k<16. ymm c' k = 0" "eflags c' AND user_flags = 0"
      "cmem c' = write64 (write64 (mem t) (rsp (guest s) - 8) e) (rsp (guest s) - 16) 0"
    and f: "hashmap (dbi t) = hashmap (dbi s)" "\<not> curr_syscall t"
    using instrument_starts [where u = u and j = j and c = c, OF kernel block entry apart v stubs hk fresh] by (elim exE conjE)
  define m where "m = write64 (write64 ?m (sp - 8) e) (sp - 16) 0"
  have rsp: "rsp (guest s) = sp" using s(1) by simp
  have wf: "hook_wf (hookof Dump t)" "hook_wf (hookof Restore t)" using p by (simp_all add: patched_def Let_def)
  have hl: "hook_len (hookof Dump t) \<le> 64" "hook_len (hookof Restore t) = length rh"
    using wf t(5) length_hook_code [OF wf(2)] by (simp_all add: hook_wf_def hook_len_def)
  have nh: "\<not> in_hooks t x" if "in_range (sp - 8) 8 x \<or> in_range (sp - 16) 8 x" for x
    using hooks_near [OF t(1,3) hl hk(6) block(4), of x] sp(2) low_words(1) [of g x] that unfolding sp(1) by blast
  have p1: "patched (write64 ?m (sp - 8) e) (t\<lparr>mem := write64 (mem t) (sp - 8) e\<rparr>)"
    unfolding write64_def by (rule patched_write [OF p]) (use nh in simp)
  have "patched m (t\<lparr>mem := write64 (write64 (mem t) (sp - 8) e) (sp - 16) 0\<rparr>)"
    using patched_write [OF p1, of "sp - 16" "le_bytes 8 0"] nh unfolding m_def write64_def [symmetric] by (simp add: in_hooks_def)
  then have "started K E e off dh rh sp m c' (t\<lparr>mem := cmem c'\<rparr>)"
    using t c' f s(1,2) kernel(1,2) unfolding started_def guest_sim_def by (simp add: rsp)
  moreover have "m x = ?m x" if "\<not> stack_page g x \<or> in_range sp 0x28000 x" for x
    using low_words [of g x] that unfolding m_def write64_def write_bytes_in sp(1) by auto
  moreover have "?m x = mem s x" if "\<not> stack_page h x \<and> \<not> stub_page x" for x
    using that start_image_other [OF stubs(2,4)] by (simp add: stack_page_def stub_page_def)
  moreover have "stack_page g x" if "in_range sp 0x28000 x" for x
    using that upper_part [of x g] by (simp add: in_range_def stack_page_def sp(1))
  ultimately show ?thesis using run sp(2) by metis
qed

section \<open>From \<open>main\<close> to the first block\<close>

text \<open>
  The arguments of the process at \<^verbatim>\<open>argv\<close>: the pointers \<open>av\<close>, a null word, the environment \<open>envs\<close> and a null word, all of it fitting
  the guest's stack.
\<close>

definition argv_at :: "memory \<Rightarrow> arg_t \<Rightarrow> string list \<Rightarrow> u64 list \<Rightarrow> u64 list \<Rightarrow> bool" where
  "argv_at m ar args av envs = (2 \<le> length args \<and> length args = length av \<and> 0 \<notin> set av \<and> 0 \<notin> set envs \<and>
     map (word_at m (a_argv ar)) [0..<length av + length envs + 2] = av @ [0] @ envs @ [0] \<and>
     length av + length envs + 34 \<le> 0x5000 \<and> 0x5000 \<le> a_fuel ar)"

text \<open>What \<open>fits\<close> says of the two stacks that are mapped one after the other.\<close>

lemma fits_stacks:
  assumes "fits K st ar av envs e off foot"
  shows "anon_reply (K tr stack_call m) (st tr) 0x50000 m"
    and "stack_page (st tr) x \<Longrightarrow> \<not> foot x \<and> \<not> argv_block ar av envs x \<and> \<not> near e off x \<and> \<not> stub_page x \<and> \<not> stack_page (st (tr @ [stack_call])) x"
    and "foot x \<Longrightarrow> \<not> argv_block ar av envs x \<and> \<not> stub_page x" and "near e off x \<Longrightarrow> \<not> stub_page x"
  using assms unfolding fits_def grants_stacks_def by blast+

text \<open>\<^verbatim>\<open>map_binary\<close> as \<^verbatim>\<open>main\<close> calls it: the image, then the stack from the argument block, which loading has not touched.\<close>

lemma main_loads:
  assumes o': "opens E (args ! 1) hf ty entry phs"
    and r: "map_phdrs (\<lambda>n. map_binary fuel K E n None) K E (phdr_ptrs (length phs)) (s\<lparr>s_binary := opened E (args ! 1) hf (ty = ET_DYN) (length phs)\<rparr>) = Inr (True, s1)"
    and ep: "entry_point (s_binary s1) = Some e" and keep: "\<forall>x. \<not> foot x \<longrightarrow> mem s1 x = mem s x"
    and f: "fits K st ar av envs e off foot" and av: "argv_at (mem s) ar args av envs"
    and aux: "aux_entries (s_binary s1) (a_random ar) (a_arch ar) (av ! 1) = Some ents" "0 \<notin> set (flat (take 14 ents))" and g: "g = st (ktrace s1)"
  shows "\<exists>s2. map_binary (Suc fuel) K E (args ! 1) (Some (ar\<lparr>a_argc := of_nat (length args)\<rparr>)) s = Inr (True, s2) \<and> guest s2 = (guest s1)\<lparr>rsp := g + 0x28000\<rparr> \<and>
     map (word_at (mem s2) (g + 0x28000)) [0..<length av + length envs + 34] = stack_words (of_nat (length args)) av envs ents \<and>
     (\<forall>x. \<not> stack_page g x \<longrightarrow> mem s2 x = mem s1 x) \<and> ktrace s2 = ktrace s1 @ [stack_call] \<and> exec_entry (s_binary s2) = e \<and>
     hashmap (dbi s2) = hashmap (dbi s1) \<and> (\<forall>w. hookof w s2 = hookof w s1) \<and> curr_syscall s2 = curr_syscall s1"
proof -
  let ?n = "length av + length envs + 2" and ?ar = "ar\<lparr>a_argc := of_nat (length args)\<rparr>"
  note a = av [unfolded argv_at_def]
  have wc: "map (word_at (mem s1) (a_argv ar)) [0..<?n] = map (word_at (mem s) (a_argv ar)) [0..<?n]"
    by (rule words_cong) (use a keep fits_stacks(3) [OF f] in \<open>auto simp: argv_block_def\<close>)
  have aa: "a_argv ?ar = a_argv ar" by simp
  have w: "map (word_at (mem s1) (a_argv ?ar)) [0..<?n] = av @ [0] @ envs @ [0]" unfolding aa wc using a by blast
  have ap: "apart (a_argv ?ar) ?n g 0xa000"
    using fits_stacks(2) [OF f] unfolding g apart_def argv_block_def stack_page_def in_range_def by auto
  have x: "2 \<le> length av" "0 \<notin> set av" "0 \<notin> set envs" "length av + length envs + 34 \<le> 0x5000" "0x5000 \<le> a_fuel ?ar"
    "aux_entries (s_binary s1) (a_random ?ar) (a_arch ?ar) (av ! 1) = Some ents"
    using a aux(1) by simp_all
  show ?thesis
    using map_binary_stack [where K = K, OF o' r ep _ x(1-3) w ap x(6) aux(2) x(4,5)] fits_stacks(1) [OF f, of "ktrace s1" "mem s1"] unfolding g by simp
qed

lemma main_starts:
  assumes o': "opens E (args ! 1) hf ty entry phs"
    and r: "map_phdrs (\<lambda>n. map_binary fuel K E n None) K E (phdr_ptrs (length phs)) (s\<lparr>s_binary := opened E (args ! 1) hf (ty = ET_DYN) (length phs)\<rparr>) = Inr (True, s1)"
    and er: "load_erase s1 = load_erase (s\<lparr>s_binary := B\<rparr>)" "dbi_handler B = alloc_dbi E" and ep: "entry_point (s_binary s1) = Some e"
    and keep: "\<And>x. \<not> foot x \<Longrightarrow> mem s1 x = mem s x"
    and kernel: "grants K" "seg_ok K" "maps_anon K" "fits K st ar av envs e off foot"
    and av: "argv_at (mem s) ar args av envs"
    and aux: "aux_entries (s_binary s1) (a_random ar) (a_arch ar) (av ! 1) = Some ents" "0 \<notin> set (flat (take 14 ents))"
    and block: "disasm_ok dis" "cflow_at dis (mem s1) e off" "off \<le> fuel" "off < 2 ^ 31" "\<not> curr_syscall s"
    and asm: "asm_ok asm sb disp (alloc_state E) dh rh" "e \<noteq> of_nat (length rh)"
  shows "\<exists>tr c' t m. main_fn (Suc fuel) K E asm dis sb disp u j c args ar s = Inr (Inr c', t) \<and> started K E e off dh rh (st tr + 0x28000) m c' t \<and>
     map (word_at m (st tr + 0x28000)) [0..<length av + length envs + 34] = stack_words (of_nat (length args)) av envs ents \<and>
     (\<forall>x. foot x \<longrightarrow> m x = mem s1 x)"
proof -
  define g h where "g = st (ktrace s1)" and "h = st (ktrace s1 @ [stack_call])"
  note gp = fits_stacks(2) [OF kernel(4), of "ktrace s1", folded g_def h_def] and foot = fits_stacks(3) [OF kernel(4)] and nb = fits_stacks(4) [OF kernel(4)]
  note hp = fits_stacks(2) [OF kernel(4), of "ktrace s1 @ [stack_call]", folded h_def]
  note a = av [unfolded argv_at_def]
  have keep': "\<forall>x. \<not> foot x \<longrightarrow> mem s1 x = mem s x" using keep by blast
  obtain s2 where c1: "map_binary (Suc fuel) K E (args ! 1) (Some (ar\<lparr>a_argc := of_nat (length args)\<rparr>)) s = Inr (True, s2)" and g2: "guest s2 = (guest s1)\<lparr>rsp := g + 0x28000\<rparr>"
    and w2: "map (word_at (mem s2) (g + 0x28000)) [0..<length av + length envs + 34] = stack_words (of_nat (length args)) av envs ents"
    and m2: "\<forall>x. \<not> stack_page g x \<longrightarrow> mem s2 x = mem s1 x" and k2: "ktrace s2 = ktrace s1 @ [stack_call]" and e2: "exec_entry (s_binary s2) = e"
    and f2: "hashmap (dbi s2) = hashmap (dbi s1)" "\<forall>w. hookof w s2 = hookof w s1" "curr_syscall s2 = curr_syscall s1"
    using main_loads [where K = K, OF o' r ep keep' kernel(4) av aux g_def] by (elim exE conjE)
  note l = load_erase_dbi [OF er(1), simplified, unfolded er(2)]
  define s3 where "s3 = upd_dbi (\<lambda>d. d\<lparr>request := \<lparr>rtype = INSTRUMENT_BBL, raddress = 0 + base (s_binary s2)\<rparr>\<rparr>) s2"
  have s3: "mem s3 = mem s2" "ktrace s3 = ktrace s2" "guest s3 = (alloc_state E)\<lparr>rsp := g + 0x28000\<rparr>" "hashmap (dbi s3) = init_hashmap"
    "e = exec_entry (s_binary s3)" "\<not> curr_syscall s3"
    using g2 f2 l e2 block(5) by (simp_all add: s3_def upd_dbi_def)
  have h3: "\<forall>w. hookof w s3 = calloc_hook"
  proof
    fix w
    have "hookof w s3 = hookof w s2" by (cases w) (simp_all add: s3_def hookof_def)
    moreover have "hookof w s1 = calloc_hook" using l(3) [of w] by (cases w) (simp_all add: hookof_def er(2))
    ultimately show "hookof w s3 = calloc_hook" using f2(2) by metis
  qed
  have cf: "cflow_at dis (mem s3) e off"
    unfolding s3(1)
  proof (rule cflow_at_cong [OF block(2)], intro allI impI)
    fix i assume "i < off + 16"
    then have "near e off (e + of_nat i)" using block(4) by (intro near_from) simp_all
    then show "mem s2 (e + of_nat i) = mem s1 (e + of_nat i)" using m2 gp by blast
  qed
  have a3: "anon_reply (K (ktrace s3) stack_call (mem s3)) h 0x50000 (mem s3)" using fits_stacks(1) [OF kernel(4)] by (simp add: s3(2) k2 h_def)
  have q: "off < Suc fuel" "\<forall>x. stack_page g x \<longrightarrow> \<not> near e off x \<and> \<not> stub_page x \<and> \<not> stack_page h x"
    "\<forall>x. near e off x \<longrightarrow> \<not> stack_page h x \<and> \<not> stub_page x"
    using block(3) nb gp hp by auto
  obtain c' t m where run: "instrument (Suc fuel) K asm dis sb disp u j c s3 = Inr (c', t)" and S: "started K E e off dh rh (g + 0x28000) m c' t"
    and mm: "\<forall>x. \<not> stack_page g x \<and> \<not> stack_page h x \<and> \<not> stub_page x \<longrightarrow> m x = mem s3 x" "\<forall>x. in_range (g + 0x28000) 0x28000 x \<longrightarrow> m x = mem s3 x"
    using instrument_started [where K = K and u = u and j = j and c = c and g = g, OF kernel(1-3) a3 block(1) cf q(1) block(4) s3(6,5) asm(2,1) s3(3,4) h3 refl q(2,3)]
    by (elim exE conjE)
  have "main_fn (Suc fuel) K E asm dis sb disp u j c args ar s = Inr (Inr c', t)"
    using a run unfolding main_fn_def Let_def c1 bindR_Inr s3_def [symmetric] by (simp add: retR_def)
  moreover have "map (word_at m (g + 0x28000)) [0..<length av + length envs + 34] = map (word_at (mem s2) (g + 0x28000)) [0..<length av + length envs + 34]"
    by (rule words_cong) (use mm(2) s3(1) a in \<open>auto simp: in_range_def\<close>)
  moreover have "m x = mem s1 x" if "foot x" for x
    using that foot gp hp mm(1) m2 s3(1) by metis
  ultimately show ?thesis using S w2 unfolding g_def by (intro exI [of _ "ktrace s1"] exI conjI) auto
qed

section \<open>The auxiliary vector\<close>

text \<open>\<open>n\<close> program headers behind the header of a file mapped at \<open>a\<close>, with the entry point \<open>pe\<close>; the interpreter at \<open>ib\<close>.\<close>

definition aux_vector :: "i32 \<Rightarrow> nat \<Rightarrow> u64 \<Rightarrow> u64 \<Rightarrow> u64 \<Rightarrow> arg_t \<Rightarrow> u64 \<Rightarrow> (u64 \<times> u64) list" where
  "aux_vector f n a pe ib ar fn =
    [(AT_ENTRY, pe), (AT_EXECFD, scast f), (AT_PHENT, 56), (AT_PHNUM, of_nat n), (AT_BASE, ib), (AT_RANDOM, a_random ar), (AT_PHDR, a + 64),
     (AT_PLATFORM, a_arch ar), (AT_EGID, 1000), (AT_EUID, 1000), (AT_GID, 1000), (AT_UID, 1000), (AT_PAGESZ, 0x1000), (AT_EXECFN, fn),
     (AT_SECURE, 0), (AT_NULL, 0)]"

lemma aux_entries_opened:
  assumes "opens E name hf ty entry phs" and "fbinary b = hf_data hf" "fd b = hf_fd hf" "pie b = (ty = ET_DYN)" "base b = a"
    and "z = (if ty = ET_DYN then a else 0)" and "ib = (case interp b of None \<Rightarrow> a | Some i \<Rightarrow> i_base i)"
  shows "aux_entries b (a_random ar) (a_arch ar) fn = Some (aux_vector (hf_fd hf) (length phs) a (z + entry) ib ar fn)"
  using opens_image(3-6) [OF assms(1)] assms(2-) by (auto simp: aux_entries_def aux_vector_def)

lemma scast_nonzero: "f \<noteq> 0 \<Longrightarrow> (scast (f :: i32) :: u64) \<noteq> 0"
proof
  assume f: "f \<noteq> 0" and z: "(scast f :: u64) = 0"
  have "scast (scast f :: u64) = f" by (rule scast_up_scast_id) (simp add: is_up)
  then show False using f unfolding z by simp
qed

lemma aux_vector_nonzero:
  assumes "f \<noteq> 0" "a_random ar \<noteq> 0" "a_arch ar \<noteq> 0" "pe \<noteq> 0" "ib \<noteq> 0" "fn \<noteq> 0" "PAGE_OFFT a = 0" "0 < n" "n < 2 ^ 16"
  shows "0 \<notin> set (flat (take 14 (aux_vector f n a pe ib ar fn)))"
proof -
  have "PAGE_OFFT (a + 64) = PAGE_OFFT 64" using assms(7) by (rule PAGE_OFFT_add_aligned)
  then have "a + 64 \<noteq> 0" by (auto simp: PAGE_OFFT_def)
  moreover have "unat (of_nat n :: u64) = n" using assms(9) by (simp add: unat_of_nat_64)
  then have "(of_nat n :: u64) \<noteq> 0" using assms(8) by (metis less_irrefl unat_0)
  ultimately show ?thesis using assms(1-6) scast_nonzero [OF assms(1)] by (simp add: aux_vector_def flat_def)
qed

section \<open>Properties\<close>

text \<open>
  C3: a whole run of a program without interpreter.  The file is an ELF image whose loadable segments determine the code from the entry
  point to its first control-flow instruction, the kernel grants the mappings, the assembler encodes stubs and hooks.  Then
  \<^verbatim>\<open>main\<close> starts the guest: in its memory \<open>m\<close> every byte of every loadable segment is what the file says, the words from the stack pointer on
  are the argument count, the arguments, the environment and the auxiliary vector; the processor is at the entry point, everything
  else cleared.  And whatever the process does from there on is a run of the guest alone in \<open>m\<close>, with the same writes and
  the same control transfers.
\<close>

theorem main_runs_program:
  assumes img: "opens E (args ! 1) hf ty entry phs" "loads K (hf_fd hf) (hf_data hf)" "loadable (ty = ET_DYN) a z phs"
      "ty = ET_DYN \<longrightarrow> a = base_address E s" "hf_fd hf \<noteq> 0"
    and entry: "e = z + entry" "e \<noteq> 0" "e \<noteq> of_nat (length rh)"
    and kernel: "seg_ok K" "fits K st ar av envs e off (footprint z phs)"
    and args: "argv_at (mem s) ar args av envs" "a_random ar \<noteq> 0" "a_arch ar \<noteq> 0"
    and block: "disasm_ok dis" "\<forall>m. (\<forall>ph \<in> set phs. ph_type ph = PT_LOAD \<longrightarrow> seg_loaded (hf_data hf) z m ph) \<longrightarrow> cflow_at dis m e off"
      "off \<le> fuel" "off < 2 ^ 31" "\<not> curr_syscall s"
    and asm: "asm_ok asm sb disp (alloc_state E) dh rh"
  shows "\<exists>tr c' t m sp. main_fn (Suc fuel) K E asm dis sb disp u j c args ar s = Inr (Inr c', t) \<and> sp = st tr + 0x28000 \<and>
    started K E e off dh rh sp m c' t \<and> (\<forall>ph \<in> set phs. ph_type ph = PT_LOAD \<longrightarrow> seg_loaded (hf_data hf) z m ph) \<and>
    map (word_at m sp) [0..<length av + length envs + 34] =
      stack_words (of_nat (length args)) av envs (aux_vector (hf_fd hf) (length phs) a e a ar (av ! 1)) \<and>
    (\<forall>evs t'. steps (engine_step K dis (Suc fuel)) evs t t' \<longrightarrow>
       (\<exists>m'. steps (guest_step K dis) evs (guest t, m) (guest t', m') \<and> patched m' t'))"
proof -
  let ?b = "opened E (args ! 1) hf (ty = ET_DYN) (length phs)"
  obtain s1 where s1: "map_phdrs (\<lambda>n. map_binary fuel K E n None) K E (phdr_ptrs (length phs)) (s\<lparr>s_binary := ?b\<rparr>) = Inr (True, s1)"
    "load_erase s1 = load_erase (s\<lparr>s_binary := ?b\<lparr>base := a\<rparr>\<rparr>)" "entry_point (s_binary s1) = Some e"
    and m1: "\<forall>ph \<in> set phs. ph_type ph = PT_LOAD \<longrightarrow> seg_loaded (hf_data hf) z (mem s1) ph" "\<forall>x. \<not> footprint z phs x \<longrightarrow> mem s1 x = mem s x"
    using map_phdrs_opened [OF img(1-4) refl] unfolding entry(1) by blast
  note eq = load_erase_eq [OF s1(2), simplified]
  have la: "a \<noteq> 0" "PAGE_OFFT a = 0" "phs \<noteq> []" using img(3) by (auto simp: loadable_def)
  have n: "0 < length phs" "length phs < 2 ^ 16" using la(3) img(1) by (simp_all add: opens_def)
  have "1 < length av" "0 \<notin> set av" using args(1) unfolding argv_at_def by linarith+
  then have fn: "av ! 1 \<noteq> 0" using nth_mem by metis
  have aux: "aux_entries (s_binary s1) (a_random ar) (a_arch ar) (av ! 1) = Some (aux_vector (hf_fd hf) (length phs) a e a ar (av ! 1))"
    unfolding entry(1) by (rule aux_entries_opened [OF img(1)]) (use loadable_bias [OF img(3)] in \<open>simp_all add: eq\<close>)
  have nz: "0 \<notin> set (flat (take 14 (aux_vector (hf_fd hf) (length phs) a e a ar (av ! 1))))"
    by (rule aux_vector_nonzero [OF img(5) args(2,3) entry(2) la(1) fn la(2) n])
  have K: "grants K" "maps_anon K" using img(2) by (simp_all add: loads_def)
  have "dbi_handler (?b\<lparr>base := a\<rparr>) = alloc_dbi E" by simp
  from main_starts [where foot = "footprint z phs" and u = u and j = j and c = c, OF img(1) s1(1,2) this s1(3) _ K(1) kernel(1) K(2) kernel(2) args(1) aux nz block(1) _ block(3-5) asm entry(3)]
  obtain tr c' t m where run: "main_fn (Suc fuel) K E asm dis sb disp u j c args ar s = Inr (Inr c', t)"
    and S: "started K E e off dh rh (st tr + 0x28000) m c' t" and M: "\<forall>x. footprint z phs x \<longrightarrow> m x = mem s1 x"
    "map (word_at m (st tr + 0x28000)) [0..<length av + length envs + 34] =
       stack_words (of_nat (length args)) av envs (aux_vector (hf_fd hf) (length phs) a e a ar (av ! 1))"
    using m1 block(2) by blast
  have "\<forall>ph \<in> set phs. ph_type ph = PT_LOAD \<longrightarrow> seg_loaded (hf_data hf) z m ph"
    using m1(1) M(1) seg_loaded_footprint [OF img(3), where m = "mem s1" and m' = m] by blast
  then show ?thesis using run S M(2) started_transparent [OF S]
    by (intro exI [of _ tr] exI [of _ c'] exI [of _ t] exI [of _ m] exI [of _ "st tr + 0x28000"] conjI refl)
qed

text \<open>A program of one segment whose only instruction is \<^verbatim>\<open>ret\<close>, run under a kernel that grants two stacks in turn.\<close>

definition ret_phdrs :: "phdr list" where
  "ret_phdrs = [\<lparr>ph_type = 1, ph_flags = 5, ph_offset = 0, ph_vaddr = 0x400000, ph_paddr = 0, ph_filesz = 121, ph_memsz = 121, ph_align = 0x1000\<rparr>]"

definition ret_elf :: elf_file where
  "ret_elf = elf_image (replicate 12 0) 2 0x400078 0 (replicate 6 0) ret_phdrs [0xc3]"

definition ret_file :: host_file where
  "ret_file = \<lparr>hf_fd = 3, hf_stat = True, hf_data = ret_elf\<rparr>"

definition ret_env :: host_env where
  "ret_env = demo_env\<lparr>host_open := (\<lambda>_. Some ret_file)\<rparr>"

definition run_stack :: "kcall list \<Rightarrow> u64" where
  "run_stack tr = (if even (length (filter (\<lambda>k. k = stack_call) tr)) then 0x700000 else 0x800000)"

definition run_kernel :: "(i32 \<Rightarrow> elf_file) \<Rightarrow> kernel" where
  "run_kernel files tr k m = (case k of
     K_mmap a len p fl f off \<Rightarrow> (let b = if a = 0 then run_stack tr else a
       in \<lparr>k_ret = b, k_out = 0, k_mem = (\<lambda>x. if unat (x - b) < unat len then (if fl = file_flags then fbyte (files f) (unat off + unat (x - b)) else 0) else m x)\<rparr>)
   | _ \<Rightarrow> \<lparr>k_ret = 0, k_out = 0, k_mem = m\<rparr>)"

definition run_args :: arg_t where
  "run_args = \<lparr>a_argc = 0, a_argv = 0x1000, a_random = 0x5000, a_arch = 0x5008, a_fuel = 0x5000\<rparr>"

lemma run_kernel_ok: "loads (run_kernel files) f (files f)" "seg_ok (run_kernel files)" "anon_reply (run_kernel files tr stack_call m) (run_stack tr) 0x50000 m"
  by (simp_all add: fun_eq_iff loads_def maps_file_def maps_anon_def grants_def mprotect_keeps_bytes_def mprotect_succeeds_def seg_ok_def prctl_works_def
      prctl_keeps_bytes_def anon_reply_def stack_call_def run_kernel_def run_stack_def file_flags_def anon_flags_def PAGE_OFFT_def)

lemma ret_opens: "opens ret_env ''a.out'' ret_file 2 0x400078 ret_phdrs"
  by (rule opensI [where ident = "replicate 12 0" and sect = "replicate 6 0" and shoff = 0 and tail = "[0xc3]"])
    (simp_all add: ret_env_def ret_file_def demo_env_def ret_elf_def ret_phdrs_def phdr_ok_def)

lemma ret_loadable: "loadable False 0x400000 0 ret_phdrs"
  unfolding loadable_def
  by (intro exI [of _ "[]"] exI [of _ "ret_phdrs ! 0"]) (simp add: ret_phdrs_def segment_ok_def PAGE_ALIGN_def PAGE_OFFT_def)

lemma ret_block:
  assumes "\<forall>ph \<in> set ret_phdrs. ph_type ph = PT_LOAD \<longrightarrow> seg_loaded ret_elf 0 m ph"
  shows "cflow_at toy_dis m 0x400078 0"
proof -
  have "\<forall>t < 121. m (0x400000 + of_nat t) = fbyte ret_elf t" using assms by (simp add: ret_phdrs_def seg_loaded_def)
  from this [rule_format, of 120] have "m 0x400078 = 0xc3" by (simp add: fbyte_def ret_elf_def elf_image_def ret_phdrs_def nth_append)
  moreover have "read_bytes m a 16 = m a # read_bytes m (a + 1) 15" for a using read_bytes_Suc [of m a 15] by simp
  ultimately have "decode toy_dis m 0x400078 = Some \<lparr>insn_id = X86_INS_other 1, insn_size = 1, groups = [X86_GRP_RET], operands = []\<rparr>"
    by (simp add: decode_def toy_dis_def)
  then show ?thesis by (rule cflow_at.here) (simp add: is_cflow_def)
qed

text \<open>The ranges of the example, in natural numbers.\<close>

lemma run_ranges:
  "stack_page (run_stack tr) x \<longleftrightarrow> unat (run_stack tr) \<le> unat x \<and> unat x < unat (run_stack tr) + 0x50000"
  "argv_block run_args [0x10, 0x20] [0x30] x \<longleftrightarrow> 0x1000 \<le> unat x \<and> unat x < 0x1028"
  "near 0x400078 0 x \<longleftrightarrow> 0x400038 \<le> unat x \<and> unat x < 0x4000b8"
  "stub_page x \<longleftrightarrow> 0xff1d000 \<le> unat x \<and> unat x < 0xff1e000 \<or> 0xdf1d000 \<le> unat x \<and> unat x < 0xdf1e000"
  "footprint 0 ret_phdrs x \<longleftrightarrow> 0x400000 \<le> unat x \<and> unat x < 0x401000"
  by (simp_all add: stack_page_def argv_block_def near_def stub_page_def in_range_def in_span run_args_def run_stack_def footprint_def seg_span_def
      seg_limit_def pa_def ret_phdrs_def)

lemma run_space: "fits (run_kernel (\<lambda>_. ret_elf)) run_stack run_args [0x10, 0x20] [0x30] 0x400078 0 (footprint 0 ret_phdrs)"
  unfolding fits_def grants_stacks_def run_ranges using run_kernel_ok(3) by (auto simp: run_stack_def)

lemma run_argv: "argv_at demo_argv run_args [''dbi'', ''a.out''] [0x10, 0x20] [0x30]"
proof -
  let ?v = "[0x10, 0x20, 0, 0x30, 0] :: u64 list"
  have "map (word_at demo_argv 0x1000) [0..<0 + length ?v] = [] @ ?v"
    unfolding demo_argv_def by (rule ws.contents_extend) simp_all
  moreover have "length [0x10, 0x20 :: u64] + length [0x30 :: u64] + 2 = 0 + length ?v" by simp
  ultimately have "map (word_at demo_argv 0x1000) [0..<length [0x10, 0x20 :: u64] + length [0x30 :: u64] + 2] = [0x10, 0x20] @ [0] @ [0x30] @ [0]"
    by (simp only: append_Nil append_Cons)
  then show ?thesis unfolding argv_at_def run_args_def by simp
qed

lemma run_asm: "asm_ok (\<lambda>_. Some (replicate 12 0x90)) sb disp (alloc_state ret_env) (replicate 12 0x90) (replicate 12 0x90)"
  by (simp add: asm_ok_def alloc_state_def ret_env_def demo_env_def dump_vector_def restore_vector_def)

lemma main_runs_program_witness:
  "\<exists>c' t. main_fn 1 (run_kernel (\<lambda>_. ret_elf)) ret_env (\<lambda>_. Some (replicate 12 0x90)) toy_dis 0x10000 0x20000 0 demo_junk demo_cpu
       [''dbi'', ''a.out''] run_args (zero_mach\<lparr>mem := demo_argv\<rparr>) = Inr (Inr c', t) \<and>
     pc c' = 0x400078 \<and> regs c' RDI = 0 \<and> jmp (hookof Restore t) = 0x40006c"
proof -
  let ?h = "replicate 12 (0x90 :: u8)" and ?s = "zero_mach\<lparr>mem := demo_argv\<rparr>" and ?args = "[''dbi'', ''a.out'']"
  have f: "opens ret_env (?args ! 1) ret_file 2 0x400078 ret_phdrs" "loads (run_kernel (\<lambda>_. ret_elf)) (hf_fd ret_file) (hf_data ret_file)"
    "loadable ((2 :: u64) = ET_DYN) 0x400000 0 ret_phdrs" "(2 :: u64) = ET_DYN \<longrightarrow> 0x400000 = base_address ret_env ?s" "hf_fd ret_file \<noteq> 0"
    using ret_opens run_kernel_ok(1) [of "\<lambda>_. ret_elf"] ret_loadable by (simp_all add: ret_file_def)
  have e: "(0x400078 :: u64) = 0 + 0x400078" "(0x400078 :: u64) \<noteq> 0" "(0x400078 :: u64) \<noteq> of_nat (length ?h)" by simp_all
  have a: "argv_at (mem ?s) run_args ?args [0x10, 0x20] [0x30]" "a_random run_args \<noteq> 0" "a_arch run_args \<noteq> 0"
    using run_argv by (simp_all add: run_args_def)
  have b: "\<forall>m. (\<forall>ph \<in> set ret_phdrs. ph_type ph = PT_LOAD \<longrightarrow> seg_loaded (hf_data ret_file) 0 m ph) \<longrightarrow> cflow_at toy_dis m 0x400078 0"
    "(0 :: nat) \<le> 0" "(0 :: nat) < 2 ^ 31" "\<not> curr_syscall ?s"
    using ret_block by (simp_all add: ret_file_def) (simp add: zero_mach_def)
  have n: "Suc 0 = 1" by simp
  obtain tr c' t m sp where r: "main_fn 1 (run_kernel (\<lambda>_. ret_elf)) ret_env (\<lambda>_. Some ?h) toy_dis 0x10000 0x20000 0 demo_junk demo_cpu ?args run_args ?s = Inr (Inr c', t)"
    and s: "started (run_kernel (\<lambda>_. ret_elf)) ret_env 0x400078 0 ?h ?h sp m c' t"
    using main_runs_program [where sb = "0x10000" and disp = "0x20000" and u = 0 and j = demo_junk and c = demo_cpu, OF f e run_kernel_ok(2) run_space a toy_dis_ok b run_asm, unfolded n]
    by (elim exE conjE)
  then show ?thesis unfolding started_def by auto
qed

text \<open>
  Where the loader may put a program and its interpreter: the interpreter's base is drawn first, at the start; the program's base
  later.
\<close>

definition placement :: "host_env \<Rightarrow> mach \<Rightarrow> u64 \<Rightarrow> phdr list \<Rightarrow> u64 \<Rightarrow> phdr list \<Rightarrow> u64 \<Rightarrow> u64 \<Rightarrow> u64 \<Rightarrow> u64 \<Rightarrow> bool" where
  "placement E s ty post ity iphs a z ai zi = (loadable (ty = ET_DYN) a z post \<and> loadable (ity = ET_DYN) ai zi iphs \<and>
     (ty = ET_DYN \<longrightarrow> (\<exists>t. a = base_address E t)) \<and> (ity = ET_DYN \<longrightarrow> ai = base_address E s))"


definition dyn_files :: "i32 \<Rightarrow> elf_file" where
  "dyn_files f = (if f = 3 then prog_elf else linker_elf)"

lemma linker_block:
  assumes "\<forall>ph \<in> set linker_phdrs. ph_type ph = PT_LOAD \<longrightarrow> seg_loaded linker_elf z m ph"
  shows "cflow_at toy_dis m (z + 0x78) 0"
proof -
  have "\<forall>t < 121. m (z + of_nat t) = fbyte linker_elf t" using assms by (simp add: linker_phdrs_def seg_loaded_def)
  from this [rule_format, of 120] have "m (z + 0x78) = 0xc3" by (simp add: fbyte_def linker_elf_def elf_image_def linker_phdrs_def nth_append)
  moreover have "read_bytes m a 16 = m a # read_bytes m (a + 1) 15" for a using read_bytes_Suc [of m a 15] by simp
  ultimately have "decode toy_dis m (z + 0x78) = Some \<lparr>insn_id = X86_INS_other 1, insn_size = 1, groups = [X86_GRP_RET], operands = []\<rparr>"
    by (simp add: decode_def toy_dis_def)
  then show ?thesis by (rule cflow_at.here) (simp add: is_cflow_def)
qed

lemma dyn_ranges:
  "near 0x1234567078 0 x \<longleftrightarrow> 0x1234567038 \<le> unat x \<and> unat x < 0x12345670b8"
  "footprint 0 [prog_phdrs ! 1] x \<longleftrightarrow> 0x400000 \<le> unat x \<and> unat x < 0x401000"
  "footprint 0x1234567000 linker_phdrs x \<longleftrightarrow> 0x1234567000 \<le> unat x \<and> unat x < 0x1234568000"
  by (simp_all add: near_def in_range_def in_span footprint_def seg_span_def seg_limit_def pa_def prog_phdrs_def linker_phdrs_def)

lemma dyn_placed:
  assumes "placement dyn_env s 2 [prog_phdrs ! 1] 3 linker_phdrs a z ai zi"
  shows "z = 0" "zi = 0x1234567000" "zi + 0x78 = 0x1234567078"
proof -
  have l: "loadable False a z [prog_phdrs ! 1] \<and> loadable True ai zi linker_phdrs \<and> ai = 0x1234567000" using assms by (auto simp: placement_def dyn_base)
  show "z = 0" "zi = 0x1234567000" "zi + 0x78 = 0x1234567078" using loadable_bias [OF conjunct1 [OF l]] loadable_bias [of True ai zi linker_phdrs] l by auto
qed

lemma dyn_space:
  assumes "placement dyn_env s 2 [prog_phdrs ! 1] 3 linker_phdrs a z ai zi"
  shows "z + 0x400040 \<noteq> 0 \<and> zi + 0x78 \<noteq> of_nat (length (replicate 12 (0x90 :: u8))) \<and>
    (\<forall>x. footprint zi linker_phdrs x \<longrightarrow> \<not> footprint z [prog_phdrs ! 1] x) \<and>
    fits (run_kernel dyn_files) run_stack run_args [0x10, 0x20] [0x30] (zi + 0x78) 0 (\<lambda>x. footprint z [prog_phdrs ! 1] x \<or> footprint zi linker_phdrs x) \<and>
    (\<forall>m. (\<forall>ph \<in> set linker_phdrs. ph_type ph = PT_LOAD \<longrightarrow> seg_loaded linker_elf zi m ph) \<longrightarrow> cflow_at toy_dis m (zi + 0x78) 0)"
proof -
  note z = dyn_placed [OF assms]
  have "fits (run_kernel dyn_files) run_stack run_args [0x10, 0x20] [0x30] 0x1234567078 0 (\<lambda>x. footprint 0 [prog_phdrs ! 1] x \<or> footprint 0x1234567000 linker_phdrs x)"
    unfolding fits_def grants_stacks_def run_ranges(1,2,4) dyn_ranges using run_kernel_ok(3) by (auto simp: run_stack_def)
  moreover have "\<forall>x. footprint 0x1234567000 linker_phdrs x \<longrightarrow> \<not> footprint 0 [prog_phdrs ! 1] x" unfolding dyn_ranges by auto
  moreover note linker_block [of zi]
  ultimately show ?thesis unfolding z by simp
qed

lemma dyn_asm: "asm_ok (\<lambda>_. Some (replicate 12 0x90)) sb disp (alloc_state dyn_env) (replicate 12 0x90) (replicate 12 0x90)"
  by (simp add: asm_ok_def alloc_state_def dyn_env_def demo_env_def dump_vector_def restore_vector_def)


end
