(* ===== verification/Progress.thy ===== *)
theory Progress
  imports Engine
begin

text \<open>
  Progress of the engine: as long as the guest's code reaches control-flow instructions that lead to decodable blocks, the process
  alternates between guest code and dispatcher turns without end; no turn stops it or leaves it without a next block.
\<close>

section \<open>Endless runs\<close>

text \<open>
  The guest alone, block by block: \<open>run\<close> says what the code of the block at \<open>bbl\<close> does, that is the registers it leaves and the
  bytes it writes, none of them under a hook (the dump hook of \<open>dl\<close> bytes on the control-flow instruction, the restore hook of
  \<open>rl\<close> bytes in front of the block).  The guest goes on when its control-flow instruction leads to a block again, for ever.
\<close>

type_synonym block_code = "u64 \<Rightarrow> state_rtime_t \<Rightarrow> memory \<Rightarrow> state_rtime_t \<times> (u64 \<rightharpoonup> u8)"

coinductive goes_on :: "kernel \<Rightarrow> disassembler \<Rightarrow> nat \<Rightarrow> nat \<Rightarrow> nat \<Rightarrow> block_code \<Rightarrow> u64 \<Rightarrow> nat \<Rightarrow> state_rtime_t \<Rightarrow> memory \<Rightarrow> bool"
  for K dis fuel dl rl run where
  "run bbl st m = (st1, ws) \<Longrightarrow> p = bbl + of_nat off \<Longrightarrow>
   (\<forall>x. in_range p dl x \<or> in_range (bbl - of_nat rl) rl x \<longrightarrow> ws x = None) \<Longrightarrow>
   branches K dis p st1 (overlay m ws) bbl' st' m' \<Longrightarrow> cflow_at dis m' bbl' off' \<Longrightarrow> off' < fuel \<Longrightarrow> off' < 2 ^ 31 \<Longrightarrow>
   bbl' \<noteq> -1 \<Longrightarrow> bbl' \<noteq> of_nat rl \<Longrightarrow> goes_on K dis fuel dl rl run bbl' off' (st'\<lparr>rip := bbl' - of_nat rl\<rparr>) m' \<Longrightarrow>
   goes_on K dis fuel dl rl run bbl off st m"

text \<open>An infinite sequence of steps.\<close>

coinductive forever :: "('s \<Rightarrow> 's \<Rightarrow> bool) \<Rightarrow> 's \<Rightarrow> bool" for R where
  "R s t \<Longrightarrow> forever R t \<Longrightarrow> forever R s"

text \<open>One round of the engine: the code of the block at \<open>bbl\<close> runs as \<open>run\<close> says, and the dispatcher takes its turn.\<close>

definition engine_round :: "kernel \<Rightarrow> disassembler \<Rightarrow> nat \<Rightarrow> block_code \<Rightarrow> mach \<Rightarrow> mach \<Rightarrow> bool" where
  "engine_round K dis fuel run s s' \<longleftrightarrow> (\<exists>bbl m st ws p bbl' a. patched m s \<and>
     bbl = jmp (hookof Restore s) + hlength (hookof Restore s) \<and> run bbl (guest s) m = (st, ws) \<and>
     steps (engine_step K dis fuel) [Ran st ws, Turned p bbl' a] s s')"

text \<open>A framed block of the image \<open>m\<close> at \<open>bbl\<close>, whose control-flow instruction is \<open>off\<close> bytes further.\<close>

definition at_block :: "nat \<Rightarrow> nat \<Rightarrow> u64 \<Rightarrow> nat \<Rightarrow> memory \<Rightarrow> mach \<Rightarrow> bool" where
  "at_block dl rl bbl off m s \<longleftrightarrow> patched m s \<and> hashmap (dbi s) = init_hashmap \<and> \<not> curr_syscall s \<and>
     hook_len (hookof Dump s) = dl \<and> hlength (hookof Restore s) = of_nat rl \<and> rl \<le> 64 \<and>
     jmp (hookof Dump s) = bbl + of_nat off \<and> curr_hook (dbi s) = bbl + of_nat off \<and> jmp (hookof Restore s) = bbl - of_nat rl"

lemma round_progress:
  assumes K: "grants K" "seg_ok K" "disasm_ok dis" and at: "at_block dl rl bbl off m s"
    and go: "goes_on K dis fuel dl rl run bbl off (guest s) m"
  shows "\<exists>s' bbl' off' m'. engine_round K dis fuel run s s' \<and> at_block dl rl bbl' off' m' s' \<and> goes_on K dis fuel dl rl run bbl' off' (guest s') m'"
  using go
proof cases
  case (1 st1 ws p bbl' st' m' off')
  note a = at [unfolded at_block_def]
  have hl: "hook_len (hookof Restore s) = rl" using a by (simp add: hook_len_def unat_of_nat_64)
  have nw: "ws x = None" if i: "in_hooks s x" for x
  proof -
    obtain w where "in_range (jmp (hookof w s)) (hook_len (hookof w s)) x" using i by (auto simp: in_hooks_def)
    then show ?thesis using 1(2,3) a hl by (cases w) auto
  qed
  define t where "t = (upd_guest (\<lambda>_. st1) s)\<lparr>mem := overlay (mem s) ws\<rparr>"
  have run: "engine_step K dis fuel (Ran st1 ws) s t" unfolding t_def by (rule engine_step.guest_runs [OF nw])
  have pt: "patched (overlay m ws) t" unfolding t_def using patched_overlay a nw by blast
  have t: "hashmap (dbi t) = init_hashmap" "\<not> curr_syscall t" "guest t = st1" "curr_hook (dbi t) = p" "hookof w t = hookof w s" for w
    using a 1(2) by (auto simp: t_def)
  have br: "branches K dis (curr_hook (dbi t)) (guest t) (overlay m ws) bbl' st' m'" using 1(4) t by simp
  have nz: "bbl' \<noteq> hlength (hookof Restore t)" using 1(9) a t by simp
  obtain s' where d: "dispatcher_fn fuel K dis test_callback t = Inr (restore_stub (dbi t), s')" and p': "patched m' s'"
    and j: "jmp (hookof Dump s') = bbl' + of_nat off'" "curr_hook (dbi s') = bbl' + of_nat off'"
      "jmp (hookof Restore s') = bbl' - of_nat rl" "guest s' = st'\<lparr>rip := bbl' - of_nat rl\<rparr>"
    and f: "hashmap (dbi s') = init_hashmap" "\<not> curr_syscall s'"
    and l: "\<forall>w. hlength (hookof w s') = hlength (hookof w s) \<and> hook_len (hookof w s') = hook_len (hookof w s)"
    using dispatcher_turn [OF K pt t(1,2) br 1(5-8) nz] a t(5) by auto
  have "engine_step K dis fuel (Turned p bbl' (bbl' - of_nat rl)) t s'"
    using engine_step.dispatch [OF d refl] j(3) 1(9) l a t(4) by simp
  then have "steps (engine_step K dis fuel) [Ran st1 ws, Turned p bbl' (bbl' - of_nat rl)] s s'"
    using run by (blast intro: steps.intros)
  then have "engine_round K dis fuel run s s'"
    unfolding engine_round_def using a 1(1) by (intro exI [of _ bbl] exI conjI) auto
  moreover have "at_block dl rl bbl' off' m' s'" using p' j f l a by (simp add: at_block_def)
  moreover have "goes_on K dis fuel dl rl run bbl' off' (guest s') m'" using 1(10) j(4) by simp
  ultimately show ?thesis by blast
qed

section \<open>A guest that jumps to itself\<close>

lemma branches_jmp:
  assumes K: "grants K" and i: "dis 0 (read_bytes m p 16) = Some i" and g: "groups i = X86_GRP_JUMP # rest"
    and o': "insn_id i = X86_INS_JMP" "operand0 i = X86_OP_IMM v"
  shows "branches K dis p st m (v + rip st) st m"
  unfolding branches_def
proof (intro allI impI)
  fix s assume s: "guest s = st \<and> mem s = m \<and> hashmap (dbi s) = init_hashmap \<and> \<not> curr_syscall s"
  then have i': "dis 0 (read_bytes (mem s) p 16) = Some i" using i by simp
  obtain tr where "eval_target K dis p s = eval_target_insn K i p
     (upd_dbi (\<lambda>d. d\<lparr>cps_count := cps_count d + 1\<rparr>) (s\<lparr>ktrace := ktrace s @ tr\<rparr>))"
    using eval_target_decodes [where K = K and dis = dis, OF K i'] by blast
  then show "\<exists>s'. eval_target K dis p s = Inr (v + rip st, s') \<and> guest s' = st \<and> mem s' = m \<and> \<not> curr_syscall s'"
    using g s o' by (auto simp: eval_target_insn_def is_call_def retR_def Let_def)
qed

text \<open>A disassembler that knows the jump to itself, \<^verbatim>\<open>eb fe\<close>, and a guest that is this jump.\<close>

definition spin_jmp :: "u64 \<Rightarrow> cs_insn" where
  "spin_jmp a = \<lparr>insn_id = X86_INS_JMP, insn_size = 2, groups = [X86_GRP_JUMP, X86_GRP_BRANCH_RELATIVE], operands = [X86_OP_IMM a]\<rparr>"

definition spin_dis :: disassembler where
  "spin_dis a bs = (if take 2 bs = [0xeb, 0xfe]
     then Some (spin_jmp a) else None)"

definition spin_mem :: memory where
  "spin_mem x = (if x = 0x402000 then 0xeb else if x = 0x402001 then 0xfe else 0)"

definition spin_run :: block_code where
  "spin_run bbl st m = (st\<lparr>rip := bbl\<rparr>, Map.empty)"

lemma spin_dis_ok: "disasm_ok spin_dis"
proof -
  have "2 \<le> length bs" if "take 2 bs = [0xeb, 0xfe :: u8]" for bs
    using arg_cong [OF that, of length] by simp
  then show ?thesis unfolding disasm_ok_def spin_dis_def spin_jmp_def by auto
qed

lemma spin_decodes: "spin_dis a (read_bytes spin_mem 0x402000 16) =
Some (spin_jmp a)"
proof -
  have "read_bytes spin_mem 0x402000 (Suc (Suc 14)) = 0xeb # 0xfe # read_bytes spin_mem 0x402002 14"
    unfolding read_bytes_Suc by (simp add: spin_mem_def)
  then show ?thesis by (simp add: spin_dis_def)
qed

lemma spin_cflow: "cflow_at spin_dis spin_mem 0x402000 0"
proof (rule cflow_at.here)
  show "decode spin_dis spin_mem 0x402000 = Some (spin_jmp 0x402000)" by (simp add: decode_def spin_decodes)
qed (simp add: spin_jmp_def is_cflow_def)

lemma spin_goes_on: "goes_on granting_kernel spin_dis 5 12 10 spin_run 0x402000 0 st spin_mem"
proof (coinduction arbitrary: st)
  case goes_on
  have "branches granting_kernel spin_dis 0x402000 (st\<lparr>rip := 0x402000\<rparr>) spin_mem 0x402000 (st\<lparr>rip := 0x402000\<rparr>) spin_mem"
    using branches_jmp [where v = 0 and dis = spin_dis and p = "0x402000" and rest = "[X86_GRP_BRANCH_RELATIVE]" and st = "st\<lparr>rip := 0x402000\<rparr>", OF grants_granting spin_decodes] by (simp add: operand0_def spin_jmp_def)
  moreover have "overlay spin_mem Map.empty = spin_mem" by (simp add: overlay_def fun_eq_iff)
  ultimately have "branches granting_kernel spin_dis 0x402000 (st\<lparr>rip := 0x402000\<rparr>) (overlay spin_mem Map.empty) 0x402000
       (st\<lparr>rip := 0x402000\<rparr>) spin_mem \<and> cflow_at spin_dis spin_mem 0x402000 0" using spin_cflow by simp
  then show ?case unfolding spin_run_def by fastforce
qed

section \<open>Property\<close>

text \<open>
  C4: the engine never stops a guest that goes on.  Take a framed block and a guest that, run alone in its own memory,
  executes block after block for ever, none of its code writing under the hooks.  Then the engine performs infinitely many
  rounds, each of them the code of the framed block followed by a complete turn of the dispatcher: no turn
  exits, crashes, runs out of fuel or refuses the next block.
\<close>

theorem engine_never_stops:
  assumes "grants K" and "seg_ok K" and "disasm_ok dis" and "at_block dl rl bbl off m s"
    and "goes_on K dis fuel dl rl run bbl off (guest s) m"
  shows "forever (engine_round K dis fuel run) s"
proof -
  have "\<exists>bbl off m. at_block dl rl bbl off m s \<and> goes_on K dis fuel dl rl run bbl off (guest s) m" using assms by blast
  then show ?thesis
    by (coinduction arbitrary: s) (use round_progress [OF assms(1-3)] in blast)
qed

lemma engine_never_stops_witness:
  "forever (engine_round granting_kernel spin_dis 5 spin_run) (framed spin_mem 0x402000 0x401ff6)"
proof (rule engine_never_stops [OF grants_granting seg_ok_granting spin_dis_ok _ spin_goes_on])
  show "at_block 12 10 0x402000 0 spin_mem (framed spin_mem 0x402000 0x401ff6)"
    using framed_patched [of "0x401ff6" spin_mem "0x402000"]
    by (simp add: at_block_def demo_framed) (simp add: framed_def Let_def hookof_def hook_len_def)
qed

end
