(* ===== verification/Memory_Safety.thy ===== *)
theory Memory_Safety
  imports Engine
begin

text \<open>
  Buffers of the engine.  Host code copies guest bytes into buffers of fixed size: 64 bytes per hook, one page in the sweep, 16 bytes for an
  instruction.  A small calculus of postconditions on runs shows that no copy leaves its buffer and that the buffers of the descriptor keep
  their sizes, whatever the kernel and the disassembler answer.
\<close>

section \<open>Postconditions\<close>

text \<open>A run that does not overrun a buffer, and whose value and state satisfy \<open>Q\<close> if it returns.\<close>

definition within :: "('a \<Rightarrow> mach \<Rightarrow> bool) \<Rightarrow> 'a run \<Rightarrow> bool" where
  "within Q r = (case r of Inl (h, s) \<Rightarrow> h \<noteq> Buffer_overrun | Inr (x, s) \<Rightarrow> Q x s)"

named_theorems within_rules

lemma within_retR [within_rules]: "Q x s \<Longrightarrow> within Q (retR x s)"
  by (simp add: within_def retR_def)

lemma within_haltR [within_rules]: "h \<noteq> Buffer_overrun \<Longrightarrow> within Q (haltR h s)"
  by (simp add: within_def haltR_def)

lemma within_bindR: "within P r \<Longrightarrow> (\<And>x s. P x s \<Longrightarrow> within Q (f x s)) \<Longrightarrow> within Q (bindR r f)"
  by (cases r) (auto simp: within_def [of P] bindR_def within_def [of Q "Inl _"])

lemma within_if [within_rules]: "(b \<Longrightarrow> within Q r) \<Longrightarrow> (\<not> b \<Longrightarrow> within Q r') \<Longrightarrow> within Q (if b then r else r')"
  by simp

lemma within_mono: "within P r \<Longrightarrow> (\<And>x s. P x s \<Longrightarrow> Q x s) \<Longrightarrow> within Q r"
  by (auto simp: within_def split: sum.splits prod.splits)

lemma within_fatal [within_rules]: "within Q (fatal_dump K s)" "within Q (default_dtor K s)"
  by (simp_all add: within_def fatal_dump_def default_dtor_def haltR_def split: sum.splits)

section \<open>Kernel calls keep the descriptor\<close>

abbreviation same_binary :: "mach \<Rightarrow> 'a \<Rightarrow> mach \<Rightarrow> bool" where
  "same_binary s \<equiv> (\<lambda>_ s'. s_binary s' = s_binary s)"

lemma within_libc [within_rules]: "within (same_binary s) (libc_call K c s)"
  by (simp add: within_def libc_call_shape)

lemma within_calls [within_rules]:
  "within (same_binary s) (mprotect K a len p s)" "within (same_binary s) (mmap K a len p fl f off s)" "within (same_binary s) (munmap K a len s)"
  "within (same_binary s) (syscall K nr args s)" "within (same_binary s) (set_fs_gs K f' g s)" "within (same_binary s) (save_fs_gs K s)"
  by (auto simp: within_def mprotect_def mmap_def munmap_def syscall_def libc_call_shape set_fs_gs_def arch_prctl_def save_fs_gs_def arch_prctl_get_def
      kern_def Let_def bindR_def retR_def)

section \<open>Reading and writing guest memory\<close>

lemma round_read_within:
  assumes "unat offt + unat sz \<le> length buf"
  shows "within (\<lambda>(r, buf') s'. length buf' = length buf \<and> s_binary s' = s_binary s) (round_read K buf src offt sz s)"
proof -
  let ?Q = "\<lambda>(r, buf') s'. length buf' = length buf \<and> s_binary s' = s_binary s"
  have put: "\<exists>b. buf_put buf (unat offt) (read_bytes m (src + offt) (unat sz)) = Some b \<and> length b = length buf" for m
    using assms by (simp add: buf_put_def)
  have step: "within ?Q (if r = -1 then retR (0, buf) t else case buf_put buf (unat offt) (read_bytes (mem t) (src + offt) (unat sz)) of
       None \<Rightarrow> haltR Buffer_overrun t
     | Some buf' \<Rightarrow> bindR (mprotect K (PAGE_ALIGN (src + offt)) PAGE_SZ p t) (\<lambda>r s. if r = -1 then retR (0, buf') s else retR (ucast sz, buf') s))"
    if "s_binary t = s_binary s" for r :: i32 and t :: mach and p
  proof -
    obtain b where b: "buf_put buf (unat offt) (read_bytes (mem t) (src + offt) (unat sz)) = Some b" "length b = length buf" using put by blast
    have "within ?Q (bindR (mprotect K (PAGE_ALIGN (src + offt)) PAGE_SZ p t) (\<lambda>r s. if r = -1 then retR (0, b) s else retR (ucast sz, b) s))"
      by (rule within_bindR [OF within_calls(1)]) (auto intro!: within_rules simp: b that)
    then show ?thesis using b that by (auto intro: within_rules)
  qed
  show ?thesis
    unfolding round_read_def Let_def
    by (intro within_if within_retR within_bindR [where P = "same_binary s"] within_calls(1) step) simp_all
qed

lemma mem_read_loop_within:
  assumes n: "n = unat len" and j: "j \<le> n" "j < n \<Longrightarrow> sz = of_nat (chunk (unat src) n j)" and b: "n \<le> length buf"
  shows "within (\<lambda>(r, buf') s'. length buf' = length buf \<and> s_binary s' = s_binary s) (mem_read_loop fuel K src len (of_nat j) sz count ret buf s)"
  using j b
proof (induction fuel arbitrary: j sz count ret buf s)
  case 0
  show ?case by (auto intro: within_rules)
next
  case (Suc fuel)
  have n64: "n < 2 ^ 64" using unat_less_64 [of len] n by simp
  have jw: "unat (of_nat j :: u64) = j" using Suc.prems(1) n64 by (intro unat_of_nat_64) simp
  show ?case
  proof (cases "j = n")
    case True
    then have "(of_nat j :: u64) = len" using n by simp
    then show ?thesis by (auto intro!: within_rules)
  next
    case False
    let ?c = "chunk (unat src) n j"
    from False Suc.prems(1) have lt: "j < n" by simp
    have sz: "sz = of_nat ?c" using Suc.prems(2) [OF lt] .
    note cw = chunk_word(1) [OF lt n64, of "unat src"] and cb = chunk_bounds [OF lt, of "unat src"]
    have ne: "(of_nat j :: u64) \<noteq> len" using lt n jw by auto
    have k': "of_nat j + sz = (of_nat (j + ?c) :: u64)" by (simp add: sz)
    define sz' where "sz' = (if PAGE_ALIGN (of_nat (j + ?c) + src) = PAGE_ALIGN (len + src) then len - of_nat (j + ?c) else PAGE_SZ)"
    have rd: "within (\<lambda>(r, buf') s'. length buf' = length buf \<and> s_binary s' = s_binary s) (round_read K buf src (of_nat j) sz s)"
      by (rule round_read_within) (use Suc.prems(3) cb lt in \<open>simp add: jw sz cw, linarith\<close>)
    have nx: "sz' = of_nat (chunk (unat src) n (j + ?c))" if "j + ?c < n"
      using next_chunk [of "j + ?c" len src] chunk_next_aligned [OF lt, of "unat src"] that n by (auto simp: sz'_def)
    have go: "within (\<lambda>(r, buf') s'. length buf' = length buf \<and> s_binary s' = s_binary s)
        (mem_read_loop fuel K src len (of_nat (j + ?c)) sz' co re b t)" if "length b = length buf" "s_binary t = s_binary s" for co re b t
    proof -
      have "j + ?c \<le> n" using cb lt by linarith
      moreover have "n \<le> length b" using that Suc.prems(3) by simp
      ultimately show ?thesis using Suc.IH [where j = "j + ?c" and sz = sz' and buf = b and s = t] nx unfolding that by blast
    qed
    show ?thesis
      unfolding mem_read_loop.simps(2) k' using ne go
      by (auto intro!: within_rules within_bindR [OF rd] simp: Let_def sz'_def)
  qed
qed

lemma mem_read_within:
  assumes "unat len \<le> length buf"
  shows "within (\<lambda>(r, buf') s'. length buf' = length buf \<and> s_binary s' = s_binary s) (mem_read K buf src len s)"
proof -
  let ?Q = "\<lambda>(r, buf') s'. length buf' = length buf \<and> s_binary s' = s_binary s"
  have "within ?Q (mem_read_loop (unat len + 1) K src len 0 (PAGE_SZ - PAGE_OFFT src) 0 0 buf s)" if "PAGE_SZ - PAGE_OFFT src < len"
    using mem_read_loop_within [where j = 0 and src = src and sz = "PAGE_SZ - PAGE_OFFT src", OF refl le0 _ assms, unfolded semiring_1_class.of_nat_0, OF first_chunk [OF that [unfolded page_rest_less]]] .
  moreover have "within ?Q (bindR (round_read K buf src 0 len s) (\<lambda>(ret, buf) s. if ret = 0 then retR (-1, buf) s else retR (ret, buf) s))"
    by (rule within_bindR [OF round_read_within]) (use assms in \<open>auto intro!: within_rules\<close>)
  ultimately show ?thesis unfolding mem_read_def by (auto intro!: within_rules)
qed

lemma mem_write_loop_within:
  assumes n: "n = unat len" "n < 2 ^ 31" "n \<le> length src" and j: "j \<le> n"
  shows "within (same_binary s) (mem_write_loop fuel K dst src len (of_nat j) s)"
  using j
proof (induction fuel arbitrary: j s)
  case 0
  show ?case by (auto intro: within_rules)
next
  case (Suc fuel)
  let ?c = "chunk (unat dst) n j"
  have sc: "(scast (of_nat j :: i32) :: u64) = of_nat j" using Suc.prems n(2) by (intro scast_of_nat) simp
  have jw: "unat (of_nat j :: u64) = j" using Suc.prems n(2) by (intro unat_of_nat_64) simp
  have cn: "?c \<le> n - j" by (simp add: chunk_def)
  have cw: "unat (of_nat ?c :: u64) = ?c" using cn n(2) by (intro unat_of_nat_64) simp
  have fits: "\<not> length src < j + ?c" using cn n(3) Suc.prems by linarith
  note sz = write_chunk [of j len dst, folded n(1), OF Suc.prems]
  have k: "ucast (of_nat j + of_nat ?c :: u64) = (of_nat (j + ?c) :: i32)" by (simp only: of_nat_add [symmetric] ucast_of_nat_i32)
  have "j + ?c \<le> n" using cn Suc.prems by linarith
  from Suc.IH [OF this] have IH: "within (same_binary s) (mem_write_loop fuel K dst src len (of_nat (j + ?c)) t)" if "s_binary t = s_binary s" for t
    using that by metis
  show ?case
    unfolding mem_write_loop.simps(2) Let_def sc sz jw cw k
    by (intro within_if within_retR within_bindR [where P = "same_binary s"] IH) (use fits in \<open>auto intro!: within_rules within_mono [OF within_calls(1)]\<close>)
qed

lemma mem_write_within:
  assumes "unat len \<le> length src" "unat len < 2 ^ 31"
  shows "within (same_binary s) (mem_write K dst src len s)"
  unfolding mem_write_def
  by (intro within_if within_retR mem_write_loop_within [where j = 0, unfolded semiring_1_class.of_nat_0, OF refl assms(2,1) le0]) simp

section \<open>The buffers of the hooks\<close>

text \<open>The type of the two hooks: 64 bytes of saved code, and a length that fits these and the code.\<close>

definition hooks_fit :: "mach \<Rightarrow> bool" where
  "hooks_fit s = (\<forall>w. length (orig_bytes (hookof w s)) = 64 \<and> unat (hlength (hookof w s)) \<le> 64 \<and>
     unat (hlength (hookof w s)) \<le> length (code (hookof w s)))"

abbreviation fit :: "'a \<Rightarrow> mach \<Rightarrow> bool" where
  "fit \<equiv> (\<lambda>_. hooks_fit)"

lemma hooks_fit_binary: "s_binary s' = s_binary s \<Longrightarrow> hooks_fit s' = hooks_fit s"
  by (simp add: hooks_fit_def hookof_def)

lemma hooks_fit_simps [simp]:
  "hooks_fit (s\<lparr>mem := m\<rparr>) = hooks_fit s" "hooks_fit (s\<lparr>ktrace := tr\<rparr>) = hooks_fit s" "hooks_fit (s\<lparr>curr_syscall := c\<rparr>) = hooks_fit s"
  "hooks_fit (s\<lparr>must_change := c\<rparr>) = hooks_fit s" "hooks_fit (s\<lparr>bbl_count := n\<rparr>) = hooks_fit s"
  by (rule hooks_fit_binary, simp)+

lemma hooks_fit_dbi [simp]:
  "dump (f (dbi s)) = dump (dbi s) \<Longrightarrow> restore (f (dbi s)) = restore (dbi s) \<Longrightarrow> hooks_fit (upd_dbi f s) = hooks_fit s"
proof -
  assume a: "dump (f (dbi s)) = dump (dbi s)" "restore (f (dbi s)) = restore (dbi s)"
  have "hookof w (upd_dbi f s) = hookof w s" for w using a by (cases w) (simp_all add: hookof_def)
  then show ?thesis by (simp add: hooks_fit_def)
qed

lemma hooks_fit_guest [simp]: "hooks_fit (upd_guest f s) = hooks_fit s"
  by (simp add: upd_guest_def)

lemma hooks_fit_set:
  "hooks_fit s \<Longrightarrow> length (orig_bytes (f (hookof w s))) = 64 \<Longrightarrow> hlength (f (hookof w s)) = hlength (hookof w s) \<Longrightarrow>
     code (f (hookof w s)) = code (hookof w s) \<Longrightarrow> hooks_fit (set_hook w f s)"
  by (simp add: hooks_fit_def)

lemma hooks_fit_dest:
  assumes "hooks_fit s"
  shows "length (orig_bytes (hookof w s)) = 64" "unat (hlength (hookof w s)) \<le> 64" "unat (hlength (hookof w s)) \<le> length (code (hookof w s))"
  using assms by (simp_all add: hooks_fit_def)

named_theorems fit_rules

lemma fit_bindR [fit_rules]: "within fit r \<Longrightarrow> (\<And>x s. hooks_fit s \<Longrightarrow> within Q (f x s)) \<Longrightarrow> within Q (bindR r f)"
  by (rule within_bindR)

declare within_retR [fit_rules] within_haltR [fit_rules] within_if [fit_rules] within_fatal [fit_rules]

lemma fit_same: "within (same_binary s) r \<Longrightarrow> hooks_fit s \<Longrightarrow> within fit r"
  by (erule within_mono) (metis hooks_fit_binary)

lemmas fit_calls [fit_rules] = within_calls [THEN fit_same]

section \<open>System call handlers\<close>

lemma do_syscall_fit [fit_rules]: "hooks_fit s \<Longrightarrow> within fit (do_syscall K nr args s)"
  unfolding do_syscall_def Let_def by (intro fit_rules) simp_all

lemma special_fit:
  assumes "hooks_fit s"
  shows "within fit (hook_access K s)" "within fit (hook_mmap K s)" "within fit (hook_exit K s)" "within fit (hook_exit_grp K s)" "within fit (hook_close K s)"
    "within fit (passthru nr k K s)" "within fit (hook_brk K s)" "within fit (hook_arch_prctl K s)"
  using assms unfolding hook_access_def hook_mmap_def hook_exit_def hook_exit_grp_def hook_close_def passthru_def hook_brk_def hook_arch_prctl_def Let_def
  by (intro fit_rules; simp)+

lemma handler_fit: "get_syscall_hook n = Some h \<Longrightarrow> hooks_fit s \<Longrightarrow> within fit (h K s)"
  using table_cases [of n h] special_fit [of s] by blast

section \<open>Analysis\<close>

lemma mem_read_fit:
  assumes "hooks_fit s" and "unat len \<le> length buf" and "\<And>r b s'. length b = length buf \<Longrightarrow> hooks_fit s' \<Longrightarrow> within Q (f (r, b) s')"
  shows "within Q (bindR (mem_read K buf src len s) f)"
  by (rule within_bindR [OF mem_read_within [OF assms(2)]]) (use assms(1,3) hooks_fit_binary in blast)

lemma mem_read_fits [fit_rules]: "hooks_fit s \<Longrightarrow> unat len \<le> length buf \<Longrightarrow> within fit (mem_read K buf src len s)"
  by (rule within_mono [OF mem_read_within]) (use hooks_fit_binary in \<open>blast+\<close>)

lemma cflow_loop_fit [fit_rules]: "hooks_fit s \<Longrightarrow> within fit (cflow_loop fuel dis sz a buf n beg s)"
  by (induction fuel arbitrary: a buf n beg s) (auto simp: Let_def split: option.splits intro!: fit_rules)

lemma opcodes_cflow_fit [fit_rules]: "hooks_fit s \<Longrightarrow> within fit (opcodes_cflow fuel K dis a beg s)"
proof (induction fuel arbitrary: a beg s)
  case (Suc fuel)
  show ?case
    unfolding opcodes_cflow.simps
    by (intro fit_rules) (use Suc in \<open>auto intro!: fit_rules split: sum.splits\<close>)
qed (auto intro: fit_rules)

lemma insn_len_fit [fit_rules]: "hooks_fit s \<Longrightarrow> within fit (insn_len K dis a s)"
  unfolding insn_len_def by (intro fit_rules) (auto intro!: fit_rules split: option.splits)

lemma reg_val_fit [fit_rules]: "hooks_fit s \<Longrightarrow> within fit (reg_val k s)"
  unfolding reg_val_def by (auto intro!: fit_rules split: option.splits)

lemma is_set_fit [fit_rules]: "hooks_fit s \<Longrightarrow> within fit (is_set K fl s)"
  unfolding is_set_def by (intro fit_rules)

lemma flags_fit [fit_rules]: "hooks_fit s \<Longrightarrow> within fit (not_set K fl s)" "hooks_fit s \<Longrightarrow> within fit (sf_eq_of K s)"
  unfolding not_set_def sf_eq_of_def by (intro fit_rules; assumption)+

lemma is_jmp_taken_fit [fit_rules]: "hooks_fit s \<Longrightarrow> within fit (is_jmp_taken K i s)"
  by (cases i) (auto intro!: fit_rules)

lemma mem_operand_fit [fit_rules]: "hooks_fit s \<Longrightarrow> within fit (mem_operand b ix sc disp sz s)"
  unfolding mem_operand_def Let_def by (intro fit_rules)

lemma eval_target_groups_fit [fit_rules]: "hooks_fit s \<Longrightarrow> within fit (eval_target_groups K insn a grps s)"
proof (induction grps arbitrary: s)
  case (Cons g grps)
  have op: "within fit (case opd of X86_OP_REG r \<Rightarrow> reg_val r t | X86_OP_IMM v \<Rightarrow> retR (v + rip (guest t)) t
      | X86_OP_MEM b ix sc disp \<Rightarrow> mem_operand b ix sc disp n t | X86_OP_INVALID \<Rightarrow> retR (-1) t)" if "hooks_fit t" for opd t n
    using that by (cases opd) (auto intro!: fit_rules)
  have sy: "within fit (case get_syscall_hook nr of Some h \<Rightarrow> bindR (set_fs_gs K f f' t) (\<lambda>_ s. bindR (h K s) (k s)) | None \<Rightarrow> retR a (t\<lparr>curr_syscall := True\<rparr>))"
    if "hooks_fit t" "\<And>s x s'. hooks_fit s' \<Longrightarrow> within fit (k s x s')" for nr f f' t k
  proof (cases "get_syscall_hook nr")
    case (Some h)
    show ?thesis unfolding Some option.case by (intro fit_bindR fit_calls handler_fit [OF Some] that)
  qed (use that in \<open>auto intro: fit_rules\<close>)
  show ?case
    unfolding eval_target_groups.simps Let_def
    by (intro fit_rules op sy Cons.IH) (use Cons.prems in \<open>simp_all split: if_split\<close>)
qed (auto intro: fit_rules)

lemma eval_target_fit [fit_rules]: "hooks_fit s \<Longrightarrow> within fit (eval_target K dis a s)"
  unfolding eval_target_def eval_target_insn_def by (intro fit_rules) (auto intro!: fit_rules split: option.splits)

section \<open>Hooks and dispatcher\<close>

lemma mem_write_fit [fit_rules]:
  "hooks_fit s \<Longrightarrow> unat len \<le> length src \<Longrightarrow> unat len \<le> 64 \<Longrightarrow> within fit (mem_write K dst src len s)"
  by (rule fit_same [OF mem_write_within]) simp_all

lemma map_page_fit [fit_rules]: "hooks_fit s \<Longrightarrow> within fit (map_page K a p s)"
  unfolding map_page_def by (intro fit_rules)

lemma protect_fit [fit_rules]: "hooks_fit s \<Longrightarrow> within fit (make_executable K a sz s)" "hooks_fit s \<Longrightarrow> within fit (unmap K a sz s)"
  unfolding make_executable_def w_mem_protect_def unmap_def by (intro fit_rules; assumption)+

lemma write_hook_fit [fit_rules]: "hooks_fit s \<Longrightarrow> within fit (write_hook K w s)"
  unfolding write_hook_def Let_def
  by (intro fit_rules mem_read_fit) (auto intro!: fit_rules hooks_fit_set simp: hooks_fit_dest)

lemma undo_hook_fit [fit_rules]: "hooks_fit s \<Longrightarrow> within fit (undo_hook K w s)"
  unfolding undo_hook_def restore_bytes_def by (intro fit_rules) (simp_all add: hooks_fit_dest)

lemma instrument_request_fit [fit_rules]: "hooks_fit s \<Longrightarrow> within fit (instrument_request fuel K dis a s)"
  unfolding instrument_request_def instrument_bbl_def Let_def
  by (intro fit_rules) (auto intro!: hooks_fit_set simp: hooks_fit_dest)

lemma undone_fit [simp]: "hooks_fit (set_hook w (\<lambda>h. h\<lparr>to_unmap := 0\<rparr>) s) = hooks_fit s"
  by (auto simp: hooks_fit_def)

lemma get_bbl_base_fit [fit_rules]: "hooks_fit s \<Longrightarrow> within fit (get_bbl_base K dis s)"
  unfolding get_bbl_base_def br_emulation_def by (intro fit_rules)

lemma continue_exec_fit [fit_rules]: "hooks_fit s \<Longrightarrow> within fit (continue_exec K s)"
  unfolding continue_exec_def by (intro fit_rules)

lemma fit_triple [fit_rules]: "(\<And>a b c. within Q (f a b c s)) \<Longrightarrow> within Q ((case x of (a, b, c) \<Rightarrow> f a b c) s)"
  by (simp add: split_beta)

lemma dispatcher_fit:
  assumes "hooks_fit s" and cb: "\<And>s. hooks_fit s \<Longrightarrow> hooks_fit (cb s)"
  shows "within fit (dispatcher_fn fuel K dis cb s)"
  unfolding dispatcher_fn_def Let_def by (intro fit_rules) (simp_all add: assms split: if_split)

text \<open>Two installed hooks have that type.\<close>

lemma patched_fit: "patched m s \<Longrightarrow> hooks_fit s"
  unfolding patched_def Let_def hooks_fit_def hook_wf_def by (elim conjE, rule allI, case_tac w) simp_all

text \<open>
  C6: whatever the kernel and the disassembler answer, a turn of the dispatcher copies no byte outside its buffers (the 64 saved bytes of
  a hook, the page of the sweep, the 16 bytes of an instruction), and the two hooks keep their type: 64 saved bytes and a length that fits
  them and the code.  The callback is asked to keep that type too.
\<close>

theorem dispatcher_type_safe:
  assumes "hooks_fit s" and "\<forall>s. hooks_fit s \<longrightarrow> hooks_fit (cb s)"
  shows "(\<forall>h s'. dispatcher_fn fuel K dis cb s = Inl (h, s') \<longrightarrow> h \<noteq> Buffer_overrun) \<and>
    (\<forall>r s'. dispatcher_fn fuel K dis cb s = Inr (r, s') \<longrightarrow> hooks_fit s')"
proof -
  have "within fit (dispatcher_fn fuel K dis cb s)" using assms by (intro dispatcher_fit) blast+
  then show ?thesis by (auto simp: within_def)
qed

theorem dispatcher_type_safe_witness:
  "hooks_fit (framed demo_mem 0x402000 0x401ff6) \<and> (\<exists>a s'. dispatcher_fn 5 granting_kernel toy_dis test_callback (framed demo_mem 0x402000 0x401ff6) = Inr (a, s') \<and> hooks_fit s')"
proof -
  let ?s = "framed demo_mem 0x402000 0x401ff6"
  have fit: "hooks_fit ?s" by (rule patched_fit [OF framed_patched]) simp
  moreover have "\<forall>s. hooks_fit s \<longrightarrow> hooks_fit (test_callback s)" by (simp add: test_callback_def)
  ultimately show ?thesis
    using dispatcher_type_safe [of ?s test_callback 5 granting_kernel toy_dis] demo_turn by blast
qed

end
