(* ===== verification/Refusals.thy ===== *)
theory Refusals
  imports Memory_Safety
begin

text \<open>
  A kernel that refuses changes of protection.  Reads of guest memory come back short, writes fail, and the dispatcher ends the process
  rather than resume a guest whose hooks it could not move.  A kernel whose answer for a page changes over time is enough to break
  this: the engine does not notice a short read.
\<close>

section \<open>A kernel with refused pages\<close>

definition ENOMEM :: u64 where
  "ENOMEM = 12"

definition refusing_kernel :: "(u64 \<Rightarrow> bool) \<Rightarrow> kernel" where
  "refusing_kernel P tr c m = \<lparr>k_ret = (case c of K_mprotect a len p \<Rightarrow> if P a then - ENOMEM else 0 | _ \<Rightarrow> 0), k_out = 0, k_mem = m\<rparr>"

lemma ucast_minus_one: "ucast (- 1 :: u64) = (- 1 :: i32)"
  by (rule bit_word_eqI) (simp add: bit_simps)

lemma refusing_reply: "page_reply (refusing_kernel P) a s = (if P (PAGE_ALIGN a) then -1 else 0)"
  by (simp add: page_reply_def refusing_kernel_def libc_ret_def ENOMEM_def ucast_minus_one)

lemma refusing_pages: "refused (refusing_kernel P) a = P (PAGE_ALIGN a)" "admitted (refusing_kernel P) a = (\<not> P (PAGE_ALIGN a))"
  by (simp_all add: refused_def admitted_def refusing_reply)

lemma refusing_ok: "mprotect_keeps_bytes (refusing_kernel P)" "steady (refusing_kernel P)" "seg_ok (refusing_kernel P)"
  by (simp_all add: steady_def mprotect_keeps_bytes_def refusing_pages seg_ok_def prctl_works_def prctl_keeps_bytes_def)
    (simp_all add: refusing_kernel_def)

section \<open>A short read that is not noticed\<close>

text \<open>
  A kernel that refuses its first call and grants the others, and a hook over two pages: \<^verbatim>\<open>write_hook\<close> reports success although it has kept
  only the bytes of the first page.
\<close>

definition moody_kernel :: kernel where
  "moody_kernel tr c m = \<lparr>k_ret = (if tr = [] then - ENOMEM else 0), k_out = 0, k_mem = m\<rparr>"

definition crossing :: mach where
  "crossing = set_hook Dump (\<lambda>h. h\<lparr>orig_bytes := replicate 64 0, code := replicate 12 0x90, jmp := 0xffa, to_unmap := 0, hlength := 12\<rparr>) zero_mach"

lemma moody_reply: "page_reply moody_kernel a s = (if ktrace s = [] then -1 else 0)"
  by (simp add: page_reply_def moody_kernel_def libc_ret_def ENOMEM_def ucast_minus_one)

lemma moody_write:
  assumes n: "unat len < 2 ^ 31" "unat len \<le> length src" and tr: "ktrace s \<noteq> []"
  shows "\<exists>m' tr'. mem_write moody_kernel dst src len s = Inr (ucast len, s\<lparr>mem := m', ktrace := tr'\<rparr>)"
proof -
  have "mem_write_loop fuel moody_kernel dst src len k s = mem_write_loop fuel granting_kernel dst src len k s" if "ktrace s \<noteq> []" for fuel k s
    using that
  proof (induction fuel arbitrary: k s)
    case (Suc fuel)
    have "mprotect moody_kernel a PAGE_SZ p t = mprotect granting_kernel a PAGE_SZ p t" if "ktrace t \<noteq> []" for a p t
      using that by (simp add: mprotect_def libc_call_shape moody_kernel_def granting_kernel_def)
    then show ?case using Suc by (simp add: Let_def get_prot_7 mprotect_granted [of granting_kernel] grants_granting [unfolded grants_def])
  qed simp
  then show ?thesis using mem_write_granted [OF grants_ready(2) [OF grants_granting] n, of dst s] tr by (auto simp: mem_write_def simp del: mem_write_loop.simps)
qed

lemma short_read_unnoticed:
  "\<exists>s'. write_hook moody_kernel Dump crossing = Inr (0, s') \<and>
     take 12 (orig_bytes (hookof Dump s')) \<noteq> read_bytes (mem crossing) (jmp (hookof Dump crossing)) 12"
proof -
  let ?K = moody_kernel and ?s = crossing and ?buf = "replicate 64 0 :: u8 list"
  have h: "orig_bytes (hookof Dump ?s) = ?buf" "code (hookof Dump ?s) = replicate 12 0x90" "jmp (hookof Dump ?s) = 0xffa" "hlength (hookof Dump ?s) = 12"
    by (simp_all add: crossing_def)
  have k: "mprotect_keeps_bytes ?K" by (simp add: mprotect_keeps_bytes_def moody_kernel_def)
  have z: "ktrace ?s = []" by (simp add: crossing_def zero_mach_def)
  have c: "(6 :: nat) = chunk (unat (0xffa :: u64)) 12 0" by (simp add: chunk_def)
  define b where "b = read_bytes (mem ?s) 0xffa 6 @ drop 6 ?buf"
  define t where "t = ?s\<lparr>ktrace := [K_mprotect 0 PAGE_SZ 7]\<rparr>"
  have "mem_read_loop (unat (12 :: u64) + 1) ?K 0xffa 12 (of_nat 0) (of_nat 6) 0 0 ?buf ?s = Inr ((0, b), t)"
    using mem_read_loop_turn [OF k _ _ _ c refl refl, of 12 ?buf 12 0 0 ?s] by (simp add: z moody_reply b_def t_def retR_def PAGE_ALIGN_def)
  then have rd: "mem_read ?K ?buf 0xffa 12 ?s = Inr ((0, b), t)" by (simp add: mem_read_def PAGE_OFFT_def del: mem_read_loop.simps)
  let ?t = "set_hook Dump (\<lambda>h. h\<lparr>orig_bytes := b\<rparr>) t"
  obtain m' tr' where wr: "mem_write ?K 0xffa (replicate 12 0x90) 12 ?t = Inr (12, ?t\<lparr>mem := m', ktrace := tr'\<rparr>)"
    using moody_write [of 12 "replicate 12 0x90" ?t "0xffa"] by (auto simp: t_def)
  have ht: "hookof Dump t = hookof Dump ?s" by (simp add: t_def)
  have "write_hook ?K Dump ?s = Inr (0, ?t\<lparr>mem := m', ktrace := tr'\<rparr>)"
    using rd wr by (simp add: write_hook_def is_mapped_def Let_def h ht get_prot_7 retR_def)
  moreover have "take 12 b ! 7 \<noteq> read_bytes (mem ?s) 0xffa 12 ! 7"
    by (simp add: b_def nth_append) (simp add: crossing_def)
  then have "take 12 b \<noteq> read_bytes (mem ?s) 0xffa 12" by metis
  ultimately show ?thesis
    by (intro exI [of _ "?t\<lparr>mem := m', ktrace := tr'\<rparr>"] conjI) (simp_all add: h)
qed

section \<open>Properties\<close>



text \<open>
  C7: the dispatcher is fail-stop.  Under a kernel that may refuse any page, always with the same answer, a turn that cannot write
  one of its hooks back ends the process.  A turn that returns has emulated the control-flow instruction on the guest's image,
  has framed the block it leads to over the image that results, and the pages of its two new hooks are admitted.
\<close>

theorem dispatcher_fail_stop:
  assumes "steady K" and "seg_ok K" and "patched m s"
  shows "((\<exists>w. \<not> ready K (jmp (hookof w s)) (Suc (hook_len (hookof w s)))) \<longrightarrow> (\<exists>c s'. dispatcher_fn fuel K dis test_callback s = Inl (Exit c, s'))) \<and>
    (\<forall>a s'. dispatcher_fn fuel K dis test_callback s = Inr (a, s') \<and> jmp (hookof Restore s') \<noteq> 0 \<longrightarrow>
      (\<exists>t bbl u. guest t = guest s \<and> mem t = m \<and> eval_target K dis (curr_hook (dbi s)) t = Inr (bbl, u) \<and> patched (mem u) s' \<and>
         jmp (hookof Restore s') = bbl - hlength (hookof Restore s') \<and> guest s' = (guest u)\<lparr>rip := jmp (hookof Restore s')\<rparr> \<and>
         (\<forall>w. ready K (jmp (hookof w s')) (Suc (hook_len (hookof w s'))))))"
proof (intro conjI allI impI)
  show "\<exists>c s'. dispatcher_fn fuel K dis test_callback s = Inl (Exit c, s')"
    if "\<exists>w. \<not> ready K (jmp (hookof w s)) (Suc (hook_len (hookof w s)))"
    using that dispatcher_refused [OF assms] by blast
next
  fix a s' assume r: "dispatcher_fn fuel K dis test_callback s = Inr (a, s') \<and> jmp (hookof Restore s') \<noteq> 0"
  obtain t bbl u where "guest t = guest s" "mem t = m" "eval_target K dis (curr_hook (dbi s)) t = Inr (bbl, u)" "patched (mem u) s'"
    "guest s' = (guest u)\<lparr>rip := jmp (hookof Restore s')\<rparr>" "bbl = jmp (hookof Restore s') + hlength (hookof Restore s')"
    "\<forall>w. ready K (jmp (hookof w s')) (Suc (hook_len (hookof w s')))"
    using dispatcher_emulates [OF assms conjunct1 [OF r] conjunct2 [OF r]] by (elim exE conjE)
  then show "\<exists>t bbl u. guest t = guest s \<and> mem t = m \<and> eval_target K dis (curr_hook (dbi s)) t = Inr (bbl, u) \<and> patched (mem u) s' \<and>
         jmp (hookof Restore s') = bbl - hlength (hookof Restore s') \<and> guest s' = (guest u)\<lparr>rip := jmp (hookof Restore s')\<rparr> \<and>
         (\<forall>w. ready K (jmp (hookof w s')) (Suc (hook_len (hookof w s'))))"
    by (intro exI [of _ t] exI [of _ bbl] exI [of _ u] conjI) (simp_all add: eq_diff_eq)
qed

theorem dispatcher_fail_stop_witness:
  "\<exists>c s'. dispatcher_fn 5 (refusing_kernel (\<lambda>a. a = 0x402000)) toy_dis test_callback (framed demo_mem 0x402000 0x401ff6) = Inl (Exit c, s')"
proof -
  let ?K = "refusing_kernel (\<lambda>a. a = 0x402000)" and ?s = "framed demo_mem 0x402000 0x401ff6"
  have "jmp (hookof Dump ?s) = 0x402000" by (simp add: framed_def Let_def hookof_def)
  then have "\<not> admitted ?K (jmp (hookof Dump ?s) + of_nat 0)" by (simp add: refusing_pages PAGE_ALIGN_def)
  then have "\<not> ready ?K (jmp (hookof Dump ?s)) (Suc (hook_len (hookof Dump ?s)))" unfolding ready_def by blast
  moreover have "patched demo_mem ?s" by (rule framed_patched) simp
  ultimately show ?thesis using dispatcher_fail_stop [OF refusing_ok(2,3), of demo_mem ?s "\<lambda>a. a = 0x402000" 5 toy_dis] by blast
qed

end
