(* ===== verification/Kernel_List.thy ===== *)
theory Kernel_List
  imports Dry_Prelude
begin

text \<open>
  The circular doubly linked list of \<^verbatim>\<open>include/kernel_list.h\<close>.  Pointers are natural numbers, 0 is the
  null pointer; the heap gives every \<^verbatim>\<open>list_head\<close> its \<^verbatim>\<open>next\<close> and \<^verbatim>\<open>prev\<close>.  \<open>ring l h xs\<close> says that from
  \<open>h\<close> the list runs through \<open>xs\<close> and back, in both directions; the operations are shown to do on \<open>xs\<close> what
  their comments say: insert in front, append, delete, join, iterate.  \<^verbatim>\<open>container_of\<close> is the identity,
  a structure and the \<^verbatim>\<open>list_head\<close> in it having the same name.
\<close>

section \<open>The list\<close>

type_synonym ptr = nat

record list_head =
  next_of :: "ptr \<Rightarrow> ptr"
  prev_of :: "ptr \<Rightarrow> ptr"

definition set_next :: "ptr \<Rightarrow> ptr \<Rightarrow> list_head \<Rightarrow> list_head" where
  "set_next p v l = l\<lparr>next_of := (next_of l)(p := v)\<rparr>"

definition set_prev :: "ptr \<Rightarrow> ptr \<Rightarrow> list_head \<Rightarrow> list_head" where
  "set_prev p v l = l\<lparr>prev_of := (prev_of l)(p := v)\<rparr>"

definition INIT_LIST_HEAD :: "ptr \<Rightarrow> list_head \<Rightarrow> list_head" where
  "INIT_LIST_HEAD p l = set_prev p p (set_next p p l)"

definition list_empty :: "ptr \<Rightarrow> list_head \<Rightarrow> bool" where
  "list_empty h l = (next_of l h = h)"

definition list_add_between :: "ptr \<Rightarrow> ptr \<Rightarrow> ptr \<Rightarrow> list_head \<Rightarrow> list_head" where
  "list_add_between new prev nxt l =
     set_next prev new (set_prev new prev (set_next new nxt (set_prev nxt new l)))"

definition list_add :: "ptr \<Rightarrow> ptr \<Rightarrow> list_head \<Rightarrow> list_head" where
  "list_add new h l = list_add_between new h (next_of l h) l"

definition list_add_tail :: "ptr \<Rightarrow> ptr \<Rightarrow> list_head \<Rightarrow> list_head" where
  "list_add_tail new h l = list_add_between new (prev_of l h) h l"

text \<open>
  The loop of \<^verbatim>\<open>list_for_each_entry\<close>: the entries it visits in order; \<open>None\<close> when the fuel is used up.
\<close>

fun for_each_from :: "nat \<Rightarrow> ptr \<Rightarrow> ptr \<Rightarrow> list_head \<Rightarrow> ptr list option" where
  "for_each_from 0 pos h l = None"
| "for_each_from (Suc fuel) pos h l =
     (if pos = h then Some [] else map_option ((#) pos) (for_each_from fuel (next_of l pos) h l))"

definition list_for_each_entry :: "nat \<Rightarrow> ptr \<Rightarrow> list_head \<Rightarrow> ptr list option" where
  "list_for_each_entry fuel h l = for_each_from fuel (next_of l h) h l"

definition list_splice_raw :: "ptr \<Rightarrow> ptr \<Rightarrow> list_head \<Rightarrow> list_head" where
  "list_splice_raw lst h l =
     (let first = next_of l lst; last = prev_of l lst; at = next_of l h in
      set_prev at last (set_next last at (set_next h first (set_prev first h l))))"

definition list_splice :: "ptr \<Rightarrow> ptr \<Rightarrow> list_head \<Rightarrow> list_head" where
  "list_splice lst h l = (if list_empty lst l then l else list_splice_raw lst h l)"

definition list_del_between :: "ptr \<Rightarrow> ptr \<Rightarrow> list_head \<Rightarrow> list_head" where
  "list_del_between prev nxt l = set_next prev nxt (set_prev nxt prev l)"

definition list_del :: "ptr \<Rightarrow> list_head \<Rightarrow> list_head" where
  "list_del entry l =
     (let l = list_del_between (prev_of l entry) (next_of l entry) l in
      set_prev entry 0 (set_next entry 0 l))"

section \<open>Segments and rings\<close>

text \<open>\<open>seg l a xs b\<close>: from \<open>a\<close> the links lead through \<open>xs\<close> to \<open>b\<close>, and back.\<close>

fun seg :: "list_head \<Rightarrow> ptr \<Rightarrow> ptr list \<Rightarrow> ptr \<Rightarrow> bool" where
  "seg l a [] b = (next_of l a = b \<and> prev_of l b = a)"
| "seg l a (x # xs) b = (next_of l a = x \<and> prev_of l x = a \<and> seg l x xs b)"

definition ring :: "list_head \<Rightarrow> ptr \<Rightarrow> ptr list \<Rightarrow> bool" where
  "ring l h xs = (distinct (h # xs) \<and> seg l h xs h)"

lemma links_simps [simp]:
  "next_of (set_next p v l) = (next_of l)(p := v)" "prev_of (set_next p v l) = prev_of l"
  "next_of (set_prev p v l) = next_of l" "prev_of (set_prev p v l) = (prev_of l)(p := v)"
  by (simp_all add: set_next_def set_prev_def)

lemma seg_append: "seg l a (xs @ x # ys) b \<longleftrightarrow> seg l a xs x \<and> seg l x ys b"
  by (induction xs arbitrary: a) auto

lemma seg_cong:
  assumes "\<And>p. p \<in> insert a (set xs) \<Longrightarrow> next_of l' p = next_of l p"
    and "\<And>p. p \<in> insert b (set xs) \<Longrightarrow> prev_of l' p = prev_of l p"
  shows "seg l' a xs b = seg l a xs b"
  using assms by (induction xs arbitrary: a) auto

lemma seg_first: "seg l a xs b \<Longrightarrow> next_of l a = hd (xs @ [b])"
  by (cases xs) auto

lemma seg_last: "seg l a xs b \<Longrightarrow> prev_of l b = last (a # xs)"
  by (induction xs arbitrary: a) auto

lemma ring_next: "ring l h xs \<Longrightarrow> next_of l h = hd (xs @ [h])"
  by (auto simp: ring_def dest: seg_first)

lemma ring_prev: "ring l h xs \<Longrightarrow> prev_of l h = last (h # xs)"
  unfolding ring_def using seg_last by blast

section \<open>The operations on rings\<close>

lemma list_empty_ring: "ring l h xs \<Longrightarrow> list_empty h l \<longleftrightarrow> xs = []"
  by (cases xs) (auto simp: list_empty_def ring_def)

lemma init_ring: "ring (INIT_LIST_HEAD p l) p []"
  by (simp add: INIT_LIST_HEAD_def ring_def)

lemma list_add_ring:
  assumes r: "ring l h xs" and new: "new \<notin> set (h # xs)"
  shows "ring (list_add new h l) h (new # xs)"
proof (cases xs)
  case Nil
  then show ?thesis using assms by (auto simp: ring_def list_add_def list_add_between_def)
next
  case (Cons y ys)
  have "seg (list_add new h l) y ys h = seg l y ys h"
    using assms Cons by (intro seg_cong) (auto simp: ring_def list_add_def list_add_between_def)
  then show ?thesis using assms Cons by (auto simp: ring_def list_add_def list_add_between_def)
qed

lemma list_add_tail_ring:
  assumes r: "ring l h xs" and new: "new \<notin> set (h # xs)"
  shows "ring (list_add_tail new h l) h (xs @ [new])"
proof (cases xs rule: rev_cases)
  case Nil
  then show ?thesis using assms by (auto simp: ring_def list_add_tail_def list_add_between_def)
next
  case (snoc ys y)
  have p: "prev_of l h = y" using ring_prev [OF r] snoc by simp
  have "seg (list_add_tail new h l) h ys y = seg l h ys y"
    using assms snoc by (intro seg_cong) (auto simp: ring_def list_add_tail_def list_add_between_def p)
  then show ?thesis using assms snoc p
    by (auto simp: ring_def list_add_tail_def list_add_between_def seg_append)
qed

lemma seg_unlink:
  assumes s: "seg l a (xs @ e # ys) b" and d: "distinct (a # xs @ e # ys)" and b: "b \<notin> set (xs @ e # ys)"
    and l': "next_of l' = (next_of l)(last (a # xs) := hd (ys @ [b]), e := n)"
      "prev_of l' = (prev_of l)(hd (ys @ [b]) := last (a # xs), e := q)"
  shows "seg l' a (xs @ ys) b"
proof -
  have s1: "seg l a xs e" and s2: "seg l e ys b" using s by (simp_all add: seg_append)
  show ?thesis
  proof (cases xs rule: rev_cases)
    case Nil
    show ?thesis
    proof (cases ys)
      case Nil
      then show ?thesis using \<open>xs = []\<close> d b l' by auto
    next
      case (Cons y zs)
      have "seg l' y zs b = seg l y zs b"
        using d b by (intro seg_cong) (auto simp: l' Cons \<open>xs = []\<close>)
      then show ?thesis using s2 d b Cons \<open>xs = []\<close> by (auto simp: l')
    qed
  next
    case (snoc ws w)
    have w: "seg l' a ws w = seg l a ws w"
      using d b snoc by (intro seg_cong) (cases ys; auto simp: l')+
    show ?thesis
    proof (cases ys)
      case Nil
      then show ?thesis using w s1 d b snoc by (auto simp: l' seg_append)
    next
      case (Cons y zs)
      have "seg l' y zs b = seg l y zs b"
        using d b snoc by (intro seg_cong) (auto simp: l' Cons)
      then show ?thesis using w s1 s2 d b Cons snoc by (auto simp: l' seg_append)
    qed
  qed
qed

lemma list_del_ring:
  assumes r: "ring l h (xs @ e # ys)"
  shows "ring (list_del e l) h (xs @ ys)"
proof -
  have s: "seg l h xs e" "seg l e ys h" using r by (simp_all add: ring_def seg_append)
  have "seg (list_del e l) h (xs @ ys) h"
    by (rule seg_unlink [where n = 0 and q = 0])
      (use r in \<open>auto simp: ring_def list_del_def list_del_between_def Let_def seg_last [OF s(1)] seg_first [OF s(2)]\<close>)
  then show ?thesis using r by (simp add: ring_def)
qed

lemma list_splice_ring:
  assumes r: "ring l h xs" and q: "ring l lst ys" and d: "set (h # xs) \<inter> set (lst # ys) = {}"
  shows "ring (list_splice lst h l) h (ys @ xs)"
proof (cases ys)
  case Nil
  then show ?thesis using r list_empty_ring [OF q] by (simp add: list_splice_def)
next
  case (Cons y zs)
  define l' where "l' = list_splice lst h l"
  define w where "w = last ys"
  have e: "next_of l' = (next_of l)(h := y, w := hd (xs @ [h]))"
    "prev_of l' = (prev_of l)(y := h, hd (xs @ [h]) := w)"
    using Cons ring_next [OF q] ring_prev [OF q] ring_next [OF r] list_empty_ring [OF q]
    by (simp_all add: l'_def w_def list_splice_def list_splice_raw_def Let_def)
  have nd: "h \<notin> set ys" "distinct ys" "distinct (h # xs)" "w \<in> set ys" "y \<in> set ys" "set xs \<inter> set ys = {}"
    using r q d Cons by (auto simp: ring_def w_def)
  have s: "seg l y zs lst" using q Cons by (simp add: ring_def)
  have "seg l' h (ys @ xs) h"
  proof -
    have mid: "seg l' y vs w" if z: "zs = vs @ [w]" for vs
    proof -
      have "seg l y vs w" using s z by (simp add: seg_append)
      moreover have "seg l' y vs w = seg l y vs w"
        using nd Cons z by (intro seg_cong) (cases xs; auto simp: e)+
      ultimately show ?thesis by simp
    qed
    have tail: "seg l' w xs h"
    proof (cases xs)
      case Nil
      then show ?thesis using nd by (auto simp: e)
    next
      case (Cons x us)
      have "seg l' x us h = seg l x us h"
        using nd Cons by (intro seg_cong) (auto simp: e)
      then show ?thesis using r nd Cons by (auto simp: e ring_def)
    qed
    have y: "next_of l' h = y" "prev_of l' y = h" using nd by (cases xs; auto simp: e)+
    show ?thesis
    proof (cases zs rule: rev_cases)
      case Nil
      then show ?thesis using y tail Cons by (simp add: w_def)
    next
      case (snoc vs v)
      then have z: "zs = vs @ [w]" using Cons by (simp add: w_def)
      then have "ys @ xs = y # vs @ w # xs" using Cons by simp
      then show ?thesis using y mid [OF z] tail by (simp add: seg_append)
    qed
  qed
  then show ?thesis using nd by (auto simp: ring_def l'_def)
qed

lemma for_each_seg:
  "seg l a xs h \<Longrightarrow> h \<notin> set xs \<Longrightarrow> length xs < fuel \<Longrightarrow> for_each_from fuel (next_of l a) h l = Some xs"
proof (induction xs arbitrary: a fuel)
  case Nil
  then show ?case by (cases fuel) auto
next
  case (Cons x xs)
  then show ?case by (cases fuel) auto
qed

lemma for_each_ring: "ring l h xs \<Longrightarrow> length xs < fuel \<Longrightarrow> list_for_each_entry fuel h l = Some xs"
  by (simp add: ring_def list_for_each_entry_def for_each_seg)

section \<open>The list as an interface\<close>

text \<open>
  What users of the header rely on: a heap \<open>l\<close> represents at \<open>h\<close> a sequence, which the operations
  change as on the abstract sequence, and which iteration enumerates.
\<close>

locale linked_sequence =
  fixes rep :: "'l \<Rightarrow> 'p \<Rightarrow> 'p list \<Rightarrow> bool"
    and fresh :: "'p \<Rightarrow> 'l \<Rightarrow> 'l"
    and push_front :: "'p \<Rightarrow> 'p \<Rightarrow> 'l \<Rightarrow> 'l"
    and push_back :: "'p \<Rightarrow> 'p \<Rightarrow> 'l \<Rightarrow> 'l"
    and remove :: "'p \<Rightarrow> 'l \<Rightarrow> 'l"
    and iterate :: "nat \<Rightarrow> 'p \<Rightarrow> 'l \<Rightarrow> 'p list option"
  assumes rep_distinct: "rep l h xs \<Longrightarrow> distinct (h # xs)"
    and rep_fresh: "rep (fresh h l) h []"
    and rep_front: "rep l h xs \<Longrightarrow> x \<notin> set (h # xs) \<Longrightarrow> rep (push_front x h l) h (x # xs)"
    and rep_back: "rep l h xs \<Longrightarrow> x \<notin> set (h # xs) \<Longrightarrow> rep (push_back x h l) h (xs @ [x])"
    and rep_remove: "rep l h (xs @ x # ys) \<Longrightarrow> rep (remove x l) h (xs @ ys)"
    and rep_iterate: "rep l h xs \<Longrightarrow> length xs < n \<Longrightarrow> iterate n h l = Some xs"
begin

lemma rep_unique:
  assumes "rep l h xs" and "rep l h ys"
  shows "xs = ys"
  using rep_iterate [OF assms(1), of "Suc (length xs + length ys)"]
    rep_iterate [OF assms(2), of "Suc (length xs + length ys)"] by simp

lemma fill_back:
  "rep l h xs \<Longrightarrow> distinct (h # xs @ ys) \<Longrightarrow> rep (fold (\<lambda>y. push_back y h) ys l) h (xs @ ys)"
proof (induction ys arbitrary: l xs)
  case (Cons y ys)
  have "rep (push_back y h l) h (xs @ [y])" using Cons.prems by (intro rep_back) auto
  from Cons.IH [OF this] show ?case using Cons.prems by simp
qed simp

lemma fill_front:
  "rep l h xs \<Longrightarrow> distinct (h # xs @ ys) \<Longrightarrow> rep (fold (\<lambda>y. push_front y h) ys l) h (rev ys @ xs)"
proof (induction ys arbitrary: l xs)
  case (Cons y ys)
  have "rep (push_front y h l) h (y # xs)" using Cons.prems by (intro rep_front) auto
  from Cons.IH [OF this] show ?case using Cons.prems by simp
qed simp

lemma remove_element:
  assumes "rep l h xs" and "x \<in> set xs"
  shows "rep (remove x l) h (removeAll x xs)"
proof -
  obtain us vs where xs: "xs = us @ x # vs" using split_list [OF assms(2)] by blast
  then have "removeAll x xs = us @ vs" using rep_distinct [OF assms(1)] by auto
  then show ?thesis using rep_remove assms(1) xs by metis
qed

lemma queue_order:
  assumes "distinct (h # ys)" and "x \<in> set ys" and "length ys < n"
  shows "iterate n h (fold (\<lambda>y. push_back y h) ys (fresh h l)) = Some ys"
    and "iterate n h (fold (\<lambda>y. push_front y h) ys (fresh h l)) = Some (rev ys)"
    and "iterate n h (remove x (fold (\<lambda>y. push_back y h) ys (fresh h l))) = Some (removeAll x ys)"
proof -
  have b: "rep (fold (\<lambda>y. push_back y h) ys (fresh h l)) h ys"
    using fill_back [OF rep_fresh] assms(1) by fastforce
  have f: "rep (fold (\<lambda>y. push_front y h) ys (fresh h l)) h (rev ys)"
    using fill_front [OF rep_fresh] assms(1) by fastforce
  show "iterate n h (fold (\<lambda>y. push_back y h) ys (fresh h l)) = Some ys"
    using rep_iterate [OF b] assms(3) by simp
  show "iterate n h (fold (\<lambda>y. push_front y h) ys (fresh h l)) = Some (rev ys)"
    using rep_iterate [OF f] assms(3) by simp
  have "length (removeAll x ys) < n" using assms(3) le_less_trans [OF length_filter_le]
    by (simp add: removeAll_filter_not_eq)
  then show "iterate n h (remove x (fold (\<lambda>y. push_back y h) ys (fresh h l))) = Some (removeAll x ys)"
    using rep_iterate [OF remove_element [OF b assms(2)]] by simp
qed

end

interpretation kl: linked_sequence ring INIT_LIST_HEAD list_add list_add_tail list_del list_for_each_entry
proof
  show "ring l h xs \<Longrightarrow> distinct (h # xs)" for l h xs by (simp add: ring_def)
qed (simp_all add: init_ring list_add_ring list_add_tail_ring list_del_ring for_each_ring)

text \<open>
  C40: a list filled with \<^verbatim>\<open>list_add_tail\<close> is iterated in the order of insertion, one filled with \<^verbatim>\<open>list_add\<close>
  in the opposite order, deleting an entry removes it and nothing else, and splicing a second list in
  puts its entries in front, for any number of distinct entries and any earlier contents of the heap.
\<close>

theorem kernel_list_order:
  assumes "distinct (h # ys)" and "x \<in> set ys" and "length ys < n"
    and "ring l' h us" and "ring l' g vs" and "set (h # us) \<inter> set (g # vs) = {}" and "length us + length vs < n"
  shows "list_for_each_entry n h (fold (\<lambda>y. list_add_tail y h) ys (INIT_LIST_HEAD h l)) = Some ys \<and>
    list_for_each_entry n h (fold (\<lambda>y. list_add y h) ys (INIT_LIST_HEAD h l)) = Some (rev ys) \<and>
    list_for_each_entry n h (list_del x (fold (\<lambda>y. list_add_tail y h) ys (INIT_LIST_HEAD h l))) = Some (removeAll x ys) \<and>
    list_for_each_entry n h (list_splice g h l') = Some (vs @ us)"
  using kl.queue_order [OF assms(1-3)] for_each_ring [OF list_splice_ring [OF assms(4-6)], of n] assms(7) by simp

definition demo_links :: list_head where
  "demo_links = list_add_tail 6 5 (INIT_LIST_HEAD 5 (list_add_tail 2 1 (INIT_LIST_HEAD 1 \<lparr>next_of = id, prev_of = id\<rparr>)))"

lemma kernel_list_order_witness:
  "list_for_each_entry 5 1 (list_splice 5 1 demo_links) = Some [6, 2]"
proof -
  have "ring demo_links 1 [2]" "ring demo_links 5 [6]"
    by (simp_all add: demo_links_def ring_def list_add_tail_def list_add_between_def INIT_LIST_HEAD_def)
  then show ?thesis
    using kernel_list_order [of 1 "[2]" 2 5 demo_links "[2]" 5 "[6]"] by simp
qed

end
