(* ===== verification/Mem_Map.thy ===== *)
theory Mem_Map
  imports Guest_Memory Kernel_List
begin

unbundle bit_operations_syntax

text \<open>
  The page descriptors of \<^verbatim>\<open>src/core_mapper.c\<close>: one \<^verbatim>\<open>mem_map_t\<close> per page in a circular list without
  sentinel, whose first node is \<^verbatim>\<open>memory_map\<close> of the descriptor of the binary.  The heap keeps the links, the
  contents of the nodes and which nodes are allocated; following a pointer to a node that is not
  allocated is \<open>Segfault\<close>.  The loops take fuel, and on a well-formed list fuel above its length is
  shown to be enough.
\<close>

section \<open>Descriptors\<close>

record mem_map_t =
  addr :: u64
  msize :: u64
  mprot :: i32
  sync :: bool

record mem_heap =
  links :: list_head
  desc :: "ptr \<Rightarrow> mem_map_t"
  live :: "ptr \<Rightarrow> bool"

definition map_head :: "mdata_binary_t \<Rightarrow> halt + ptr" where
  "map_head b =
    (if memory_map b \<noteq> 0 then Inr (memory_map b)
     else case interp b of None \<Rightarrow> Inl Segfault | Some i \<Rightarrow> Inr (i_memory_map i))"

fun get_mem_desc_loop :: "nat \<Rightarrow> ptr \<Rightarrow> ptr \<Rightarrow> mem_heap \<Rightarrow> u64 \<Rightarrow> halt + ptr option" where
  "get_mem_desc_loop 0 start cur h a = Inl Out_of_fuel"
| "get_mem_desc_loop (Suc fuel) start cur h a =
    (if \<not> live h cur then Inl Segfault
     else if addr (desc h cur) = PAGE_ALIGN a then Inr (Some cur)
     else let cur = next_of (links h) cur in
       if cur \<noteq> start then get_mem_desc_loop fuel start cur h a else Inr None)"

text \<open>The result \<open>None\<close> is the pointer \<open>-1\<close>.\<close>

definition get_mem_desc :: "nat \<Rightarrow> mdata_binary_t \<Rightarrow> mem_heap \<Rightarrow> u64 \<Rightarrow> halt + ptr option" where
  "get_mem_desc fuel b h a =
    (case map_head b of
       Inl e \<Rightarrow> Inl e
     | Inr cur \<Rightarrow> if cur = 0 then Inl Assert_failed else get_mem_desc_loop fuel cur cur h a)"

text \<open>The offsets \<^verbatim>\<open>0, PAGE_SZ, ..\<close> below \<open>sz\<close>, a multiple of the page size.\<close>

definition page_offsets :: "u64 \<Rightarrow> u64 list" where
  "page_offsets sz = map (\<lambda>k. of_nat k * PAGE_SZ) [0..<unat sz div 4096]"

definition set_vprot :: "ptr \<Rightarrow> i32 \<Rightarrow> mem_heap \<Rightarrow> mem_heap" where
  "set_vprot p np h = h\<lparr>desc := (desc h)(p := (desc h p)\<lparr>mprot := np, sync := True\<rparr>)\<rparr>"

fun update_vprot_loop :: "nat \<Rightarrow> mdata_binary_t \<Rightarrow> u64 \<Rightarrow> i32 \<Rightarrow> u64 list \<Rightarrow> mem_heap \<Rightarrow> halt + i32 \<times> mem_heap" where
  "update_vprot_loop fuel b a np [] h = Inr (0, h)"
| "update_vprot_loop fuel b a np (i # is) h =
    (case get_mem_desc fuel b h (a + i) of
       Inl e \<Rightarrow> Inl e
     | Inr None \<Rightarrow> Inr (-1, h)
     | Inr (Some d) \<Rightarrow> update_vprot_loop fuel b a np is (set_vprot d np h))"

definition update_vprot :: "nat \<Rightarrow> mdata_binary_t \<Rightarrow> u64 \<Rightarrow> u64 \<Rightarrow> i32 \<Rightarrow> mem_heap \<Rightarrow> halt + i32 \<times> mem_heap" where
  "update_vprot fuel b a sz np h =
    (if sz mod PAGE_SZ \<noteq> 0 \<or> a mod PAGE_SZ \<noteq> 0 then Inr (-1, h)
     else update_vprot_loop fuel b a np (page_offsets sz) h)"

section \<open>Queries\<close>

definition with_desc :: "halt + ptr option \<Rightarrow> 'a \<Rightarrow> (ptr \<Rightarrow> 'a) \<Rightarrow> halt + 'a" where
  "with_desc r miss f = (case r of Inl e \<Rightarrow> Inl e | Inr None \<Rightarrow> Inr miss | Inr (Some d) \<Rightarrow> Inr (f d))"

definition prot :: "nat \<Rightarrow> mdata_binary_t \<Rightarrow> mem_heap \<Rightarrow> u64 \<Rightarrow> halt + i32" where
  "prot fuel b h a = with_desc (get_mem_desc fuel b h (PAGE_ALIGN a)) (-1) (\<lambda>d. mprot (desc h d))"

definition is_w :: "nat \<Rightarrow> u64 \<Rightarrow> mdata_binary_t \<Rightarrow> mem_heap \<Rightarrow> halt + i32" where
  "is_w fuel a b h = with_desc (get_mem_desc fuel b h a) 0 (\<lambda>d. mprot (desc h d) AND PROT_WRITE)"

definition is_r :: "nat \<Rightarrow> u64 \<Rightarrow> mdata_binary_t \<Rightarrow> mem_heap \<Rightarrow> halt + i32" where
  "is_r fuel a b h = with_desc (get_mem_desc fuel b h a) 0 (\<lambda>d. mprot (desc h d) AND PROT_READ)"

definition is_x :: "nat \<Rightarrow> u64 \<Rightarrow> mdata_binary_t \<Rightarrow> mem_heap \<Rightarrow> halt + i32" where
  "is_x fuel a b h = with_desc (get_mem_desc fuel b h a) 0 (\<lambda>d. mprot (desc h d) AND PROT_EXEC)"

definition is_ro :: "nat \<Rightarrow> u64 \<Rightarrow> mdata_binary_t \<Rightarrow> mem_heap \<Rightarrow> halt + bool" where
  "is_ro fuel a b h = with_desc (get_mem_desc fuel b h a) False (\<lambda>d. mprot (desc h d) = PROT_READ)"

definition is_rwx :: "nat \<Rightarrow> u64 \<Rightarrow> mdata_binary_t \<Rightarrow> mem_heap \<Rightarrow> halt + bool" where
  "is_rwx fuel a b h = with_desc (get_mem_desc fuel b h a) False
     (\<lambda>d. mprot (desc h d) AND (PROT_READ OR PROT_EXEC OR PROT_READ) \<noteq> 0)"

definition is_rx :: "nat \<Rightarrow> u64 \<Rightarrow> mdata_binary_t \<Rightarrow> mem_heap \<Rightarrow> halt + bool" where
  "is_rx fuel a b h = with_desc (get_mem_desc fuel b h a) False
     (\<lambda>d. mprot (desc h d) AND (PROT_EXEC OR PROT_READ) \<noteq> 0)"

section \<open>Changing the list\<close>

text \<open>
  A null \<^verbatim>\<open>memory_map\<close> on either side is dereferenced; the nodes written to must be allocated.
\<close>

definition merge_address_space :: "mdata_binary_t \<Rightarrow> mem_heap \<Rightarrow> halt + ptr \<times> mem_heap" where
  "merge_address_space b h =
    (case interp b of
       None \<Rightarrow> Inr (memory_map b, h)
     | Some i \<Rightarrow>
        let m = memory_map b; n = i_memory_map i;
            prev_binary = prev_of (links h) m; prev_interp = prev_of (links h) n in
        if live h m \<and> live h n \<and> live h prev_binary \<and> live h prev_interp
        then Inr (m, h\<lparr>links := set_next prev_binary n (set_prev n prev_binary
                           (set_next prev_interp m (set_prev m prev_interp (links h))))\<rparr>)
        else Inl Segfault)"

fun free_memory_map_loop :: "nat \<Rightarrow> ptr \<Rightarrow> ptr \<Rightarrow> mem_heap \<Rightarrow> halt + i32 \<times> mem_heap" where
  "free_memory_map_loop 0 start cur h = Inl Out_of_fuel"
| "free_memory_map_loop (Suc fuel) start cur h =
    (if \<not> live h cur then Inl Segfault
     else let nxt = next_of (links h) cur; h = h\<lparr>live := (live h)(cur := False)\<rparr> in
       if nxt \<noteq> start then free_memory_map_loop fuel start nxt h else Inr (0, h))"

definition free_memory_map :: "nat \<Rightarrow> ptr \<Rightarrow> mem_heap \<Rightarrow> halt + i32 \<times> mem_heap" where
  "free_memory_map fuel m h = (if m = 0 then Inl Assert_failed else free_memory_map_loop fuel m m h)"

fun list_del_map_loop :: "nat \<Rightarrow> mdata_binary_t \<Rightarrow> u64 \<Rightarrow> u64 list \<Rightarrow> mem_heap \<Rightarrow> halt + i32 \<times> mem_heap" where
  "list_del_map_loop fuel b a [] h = Inr (0, h)"
| "list_del_map_loop fuel b a (i # is) h =
    (case get_mem_desc fuel b h (a + i) of
       Inl e \<Rightarrow> Inl e
     | Inr None \<Rightarrow> Inr (0, h)
     | Inr (Some d) \<Rightarrow>
        let n = next_of (links h) d; p = prev_of (links h) d in
        if live h n \<and> live h p
        then list_del_map_loop fuel b a is
               (h\<lparr>links := set_next p n (set_prev n p (links h)), live := (live h)(d := False)\<rparr>)
        else Inl Segfault)"

text \<open>\<^verbatim>\<open>size\<close> is a 32-bit value here.\<close>

definition list_del_map :: "nat \<Rightarrow> mdata_binary_t \<Rightarrow> u64 \<Rightarrow> u32 \<Rightarrow> mem_heap \<Rightarrow> halt + i32 \<times> mem_heap" where
  "list_del_map fuel b a sz h =
    (if sz mod 0x1000 \<noteq> 0 \<or> a mod PAGE_SZ \<noteq> 0 then Inl (Exit (-1))
     else list_del_map_loop fuel b a (page_offsets (ucast sz)) h)"

text \<open>
  \<^verbatim>\<open>log_map\<close> prints one line per group of adjacent pages: first and last address, size, protection.
\<close>

type_synonym map_line = "u64 \<times> u64 \<times> u64 \<times> i32"

fun log_map_loop :: "nat \<Rightarrow> ptr \<Rightarrow> ptr \<Rightarrow> u64 \<Rightarrow> i32 \<Rightarrow> u64 \<Rightarrow> mem_heap \<Rightarrow> halt + map_line list" where
  "log_map_loop 0 start cur g_addr g_prot g_size h = Inl Out_of_fuel"
| "log_map_loop (Suc fuel) start cur g_addr g_prot g_size h =
    (if \<not> live h cur \<or> \<not> live h (next_of (links h) cur) then Inl Segfault
     else
       let d = desc h cur; nxt = next_of (links h) cur; nd = desc h nxt;
           (g_addr, g_prot, g_size) =
             (if g_size = PAGE_SZ then (addr d, mprot d, msize d) else (g_addr, g_prot, g_size));
           joins = addr d + msize d = addr nd \<and> mprot d = mprot nd;
           line = (if joins then [] else [(g_addr, g_addr + g_size - 1, g_size, g_prot)]);
           g_size = (if joins then g_size + PAGE_SZ else msize d) in
       if nxt \<noteq> start
       then (case log_map_loop fuel start nxt g_addr g_prot g_size h of
               Inl e \<Rightarrow> Inl e | Inr ls \<Rightarrow> Inr (line @ ls))
       else Inr line)"

text \<open>The first three reads come before the assertion on the pointer.\<close>

definition log_map :: "nat \<Rightarrow> ptr \<Rightarrow> mem_heap \<Rightarrow> halt + map_line list" where
  "log_map fuel m h =
    (if \<not> live h m then Inl Segfault
     else log_map_loop fuel m m (addr (desc h m)) (mprot (desc h m)) (msize (desc h m)) h)"

section \<open>Well-formed lists\<close>

definition mem_ring :: "mem_heap \<Rightarrow> ptr \<Rightarrow> ptr list \<Rightarrow> bool" where
  "mem_ring h m ps = (ring (links h) m ps \<and> (\<forall>p \<in> set (m # ps). live h p) \<and> m \<noteq> 0)"

text \<open>The first descriptor of a page in the order of the list.\<close>

definition page_desc :: "mem_heap \<Rightarrow> ptr list \<Rightarrow> u64 \<Rightarrow> ptr option" where
  "page_desc h ps a = find (\<lambda>p. addr (desc h p) = PAGE_ALIGN a) ps"

lemma get_mem_desc_seg:
  "seg (links h) q ps m \<Longrightarrow> m \<notin> set ps \<Longrightarrow> live h q \<Longrightarrow> \<forall>p \<in> set ps. live h p \<Longrightarrow> length ps < fuel \<Longrightarrow>
   get_mem_desc_loop fuel m q h a = Inr (page_desc h (q # ps) a)"
proof (induction ps arbitrary: q fuel)
  case Nil
  then show ?case by (cases fuel) (auto simp: page_desc_def)
next
  case (Cons p ps)
  then obtain f where f: "fuel = Suc f" by (cases fuel) auto
  show ?case using Cons.prems Cons.IH [of p f] by (auto simp: f page_desc_def)
qed

lemma get_mem_desc_ring:
  assumes "map_head b = Inr m" and "mem_ring h m ps" and "length ps < fuel"
  shows "get_mem_desc fuel b h a = Inr (page_desc h (m # ps) a)"
  using assms by (auto simp: get_mem_desc_def mem_ring_def ring_def intro!: get_mem_desc_seg)

lemma page_desc_None: "page_desc h ps a = None \<longleftrightarrow> (\<forall>p \<in> set ps. addr (desc h p) \<noteq> PAGE_ALIGN a)"
  by (auto simp: page_desc_def find_None_iff)

lemma page_desc_Some: "page_desc h ps a = Some p \<Longrightarrow> p \<in> set ps \<and> addr (desc h p) = PAGE_ALIGN a"
  by (auto simp: page_desc_def find_Some_iff)

lemma page_desc_align [simp]: "page_desc h ps (PAGE_ALIGN a) = page_desc h ps a"
  by (simp add: page_desc_def)

lemma page_desc_cong: "PAGE_ALIGN x = PAGE_ALIGN y \<Longrightarrow> page_desc h ps x = page_desc h ps y"
  by (simp add: page_desc_def)

lemma prot_ring:
  assumes "map_head b = Inr m" and "mem_ring h m ps" and "length ps < fuel"
  shows "prot fuel b h a = Inr (case page_desc h (m # ps) a of None \<Rightarrow> -1 | Some p \<Rightarrow> mprot (desc h p))"
  by (simp add: prot_def with_desc_def get_mem_desc_ring [OF assms] split: option.split)

section \<open>Changing protections\<close>

lemma set_vprot_simps [simp]:
  "links (set_vprot p np h) = links h" "live (set_vprot p np h) = live h"
  "addr (desc (set_vprot p np h) q) = addr (desc h q)"
  "mprot (desc (set_vprot p np h) q) = (if q = p then np else mprot (desc h q))"
  by (simp_all add: set_vprot_def)

lemma page_desc_set_vprot [simp]: "page_desc (set_vprot p np h) ps = page_desc h ps"
  by (rule ext) (simp add: page_desc_def)

lemma mem_ring_set_vprot [simp]: "mem_ring (set_vprot p np h) m ps = mem_ring h m ps"
  by (simp add: mem_ring_def)

text \<open>The protection a list of nodes gives a page.\<close>

definition prot_at :: "mem_heap \<Rightarrow> ptr list \<Rightarrow> u64 \<Rightarrow> i32 option" where
  "prot_at h ps a = map_option (\<lambda>p. mprot (desc h p)) (page_desc h ps a)"

lemma prot_at_set_vprot:
  assumes "page_desc h ps y = Some p"
  shows "prot_at (set_vprot p np h) ps x = (if PAGE_ALIGN x = PAGE_ALIGN y then Some np else prot_at h ps x)"
proof (cases "page_desc h ps x")
  case None
  moreover have "PAGE_ALIGN x \<noteq> PAGE_ALIGN y" using page_desc_cong [of x y h ps] assms None by auto
  ultimately show ?thesis by (simp add: prot_at_def)
next
  case (Some q)
  moreover have "q = p \<longleftrightarrow> PAGE_ALIGN x = PAGE_ALIGN y"
    using page_desc_Some [OF assms] page_desc_Some [OF Some] page_desc_cong [of x y h ps] assms Some by auto
  ultimately show ?thesis by (auto simp: prot_at_def)
qed

lemma update_vprot_loop_ring:
  assumes "map_head b = Inr m" and "mem_ring h m ps" and "length ps < fuel"
  shows "\<exists>h'. update_vprot_loop fuel b a np is h =
      Inr (if \<forall>i \<in> set is. page_desc h (m # ps) (a + i) \<noteq> None then 0 else -1, h') \<and>
    mem_ring h' m ps \<and> page_desc h' (m # ps) = page_desc h (m # ps) \<and>
    ((\<forall>i \<in> set is. page_desc h (m # ps) (a + i) \<noteq> None) \<longrightarrow>
      (\<forall>x. prot_at h' (m # ps) x =
        (if \<exists>i \<in> set is. PAGE_ALIGN x = PAGE_ALIGN (a + i) then Some np else prot_at h (m # ps) x)))"
  using assms(2)
proof (induction "is" arbitrary: h)
  case (Cons i "is")
  note g = get_mem_desc_ring [OF assms(1) Cons.prems assms(3), of "a + i"]
  show ?case
  proof (cases "page_desc h (m # ps) (a + i)")
    case None
    then show ?thesis using g Cons.prems by auto
  next
    case (Some p)
    then show ?thesis
      using g Cons.IH [of "set_vprot p np h"] Cons.prems prot_at_set_vprot [OF Some, of np]
      by (auto split: if_splits)
  qed
qed auto

lemma page_offsets_range:
  assumes "sz mod PAGE_SZ = 0" and "a mod PAGE_SZ = 0"
  shows "(\<exists>i \<in> set (page_offsets sz). PAGE_ALIGN x = PAGE_ALIGN (a + i)) \<longleftrightarrow> unat (x - a) < unat sz"
proof -
  have al: "PAGE_OFFT a = 0" using assms(2) by (simp add: PAGE_OFFT_eq_take_bit take_bit_eq_mod)
  have "unat (sz mod 0x1000) = 0" using assms(1) by simp
  then have "unat sz mod 4096 = 0" by (simp only: unat_mod) simp
  then obtain n where n: "unat sz = 4096 * n" by (auto simp: mod_eq_0_iff_dvd dvd_def)
  have "(\<exists>i \<in> set (page_offsets sz). PAGE_ALIGN x = PAGE_ALIGN (a + i)) \<longleftrightarrow>
      (\<exists>k<n. PAGE_ALIGN (a + (x - a)) = PAGE_ALIGN (a + of_nat k * 0x1000))"
    by (auto simp: page_offsets_def n)
  also have "\<dots> \<longleftrightarrow> (\<exists>k<n. unat (PAGE_ALIGN (x - a)) = unat (PAGE_ALIGN (of_nat k * 0x1000)))"
    unfolding PAGE_ALIGN_add_aligned [OF al] add_left_cancel
    by (simp only: word_unat_eq_iff)
  also have "\<dots> \<longleftrightarrow> (\<exists>k<n. unat (x - a) div 4096 = k)"
  proof -
    have k: "unat (of_nat k * 0x1000 :: u64) = k * 4096" if "k < n" for k
    proof -
      have "k * 4096 < 2 ^ 64" using that n unat_less_64 [of sz] by simp
      then show ?thesis using unat_of_nat_64 [of "k * 4096"] by simp
    qed
    show ?thesis
      by (rule ex_cong) (auto simp: unat_PAGE_ALIGN k minus_mod_eq_mult_div)
  qed
  also have "\<dots> \<longleftrightarrow> unat (x - a) < unat sz" by (auto simp: n less_mult_imp_div_less)
  finally show ?thesis .
qed

section \<open>Joining, freeing and deleting\<close>

lemma seg_redirect:
  assumes "seg l a xs b" and "distinct (a # xs)" and "w = last (a # xs)"
    and "\<And>p. p \<in> set (a # xs) \<Longrightarrow> p \<noteq> w \<Longrightarrow> next_of l' p = next_of l p"
    and "\<And>p. p \<in> set xs \<Longrightarrow> prev_of l' p = prev_of l p"
    and "next_of l' w = c" and "prev_of l' c = w"
  shows "seg l' a xs c"
  using assms
proof (induction xs arbitrary: a)
  case (Cons x xs)
  have "seg l' x xs c" by (rule Cons.IH) (use Cons.prems in auto)
  moreover have "a \<noteq> w" using Cons.prems(2,3) last_in_set [of "x # xs"] by auto
  ultimately show ?case using Cons.prems by auto
qed auto

lemma merge_ring:
  assumes m: "mem_ring h m ps" and n: "mem_ring h n qs" and d: "set (m # ps) \<inter> set (n # qs) = {}"
    and b: "memory_map b = m" "interp b = Some i" "i_memory_map i = n"
  shows "\<exists>l'. merge_address_space b h = Inr (m, h\<lparr>links := l'\<rparr>) \<and> ring l' m (ps @ n # qs)"
proof -
  define u where "u = last (m # ps)"
  define v where "v = last (n # qs)"
  define l' where "l' = set_next u n (set_prev n u (set_next v m (set_prev m v (links h))))"
  have r: "ring (links h) m ps" "ring (links h) n qs" using m n by (simp_all add: mem_ring_def)
  have uv: "u \<in> set (m # ps)" "v \<in> set (n # qs)" unfolding u_def v_def by (rule last_in_set, simp)+
  have ne: "u \<noteq> v" "m \<noteq> n" using uv d by auto
  have "prev_of (links h) m = u" "prev_of (links h) n = v"
    using ring_prev [OF r(1)] ring_prev [OF r(2)] by (simp_all add: u_def v_def)
  then have e: "merge_address_space b h = Inr (m, h\<lparr>links := l'\<rparr>)"
    using m n b uv by (auto simp: merge_address_space_def l'_def mem_ring_def)
  have "seg l' m ps n"
    by (rule seg_redirect [OF _ _ u_def, where l = "links h" and b = m])
      (use r d uv ne in \<open>auto simp: l'_def ring_def\<close>)
  moreover have "seg l' n qs m"
    by (rule seg_redirect [OF _ _ v_def, where l = "links h" and b = n])
      (use r d uv ne in \<open>auto simp: l'_def ring_def\<close>)
  ultimately have "seg l' m (ps @ n # qs) m" by (simp add: seg_append)
  then show ?thesis using e r d by (auto simp: ring_def)
qed

lemma free_seg:
  "seg (links h) q ps m \<Longrightarrow> distinct (q # ps) \<Longrightarrow> m \<notin> set ps \<Longrightarrow> \<forall>p \<in> set (q # ps). live h p \<Longrightarrow> length ps < fuel \<Longrightarrow>
   free_memory_map_loop fuel m q h = Inr (0, h\<lparr>live := \<lambda>p. live h p \<and> p \<notin> set (q # ps)\<rparr>)"
proof (induction ps arbitrary: q h fuel)
  case Nil
  then show ?case by (cases fuel) (auto simp: fun_eq_iff intro!: mem_heap.equality)
next
  case (Cons p ps)
  then obtain f where f: "fuel = Suc f" by (cases fuel) auto
  have "free_memory_map_loop fuel m q h = free_memory_map_loop f m p (h\<lparr>live := (live h)(q := False)\<rparr>)"
    using Cons.prems by (auto simp: f)
  also have "\<dots> = Inr (0, h\<lparr>live := \<lambda>p'. ((live h)(q := False)) p' \<and> p' \<notin> set (p # ps)\<rparr>)"
    using Cons.prems f by (subst Cons.IH) auto
  also have "(\<lambda>p'. ((live h)(q := False)) p' \<and> p' \<notin> set (p # ps)) = (\<lambda>p'. live h p' \<and> p' \<notin> set (q # p # ps))"
    by auto
  finally show ?case .
qed

lemma mem_ring_unlink:
  assumes r: "mem_ring h m ps" and d: "d \<in> set ps"
  shows "live h (next_of (links h) d) \<and> live h (prev_of (links h) d) \<and>
    mem_ring (h\<lparr>links := set_next (prev_of (links h) d) (next_of (links h) d)
        (set_prev (next_of (links h) d) (prev_of (links h) d) (links h)), live := (live h)(d := False)\<rparr>) m (filter (\<lambda>p. p \<noteq> d) ps)"
proof -
  let ?l = "links h"
  obtain us vs where ps: "ps = us @ d # vs" using split_list [OF d] by blast
  have dst: "distinct (m # us @ d # vs)" and s: "seg ?l m us d" "seg ?l d vs m"
    using r by (auto simp: mem_ring_def ring_def ps seg_append)
  have pn: "prev_of ?l d = last (m # us)" "next_of ?l d = hd (vs @ [m])"
    using seg_last [OF s(1)] seg_first [OF s(2)] by auto
  have mem: "last (m # us) \<in> set (m # us)" "hd (vs @ [m]) \<in> set (vs @ [m])"
    by (rule last_in_set, simp) (cases vs; simp)
  have ne: "last (m # us) \<noteq> d" "hd (vs @ [m]) \<noteq> d" using mem dst by auto
  have f: "filter (\<lambda>p. p \<noteq> d) ps = us @ vs"
  proof -
    have "filter (\<lambda>p. p \<noteq> d) us = us" "filter (\<lambda>p. p \<noteq> d) vs = vs" using dst by (auto simp: filter_id_conv)
    then show ?thesis by (simp add: ps)
  qed
  have "seg (set_next (last (m # us)) (hd (vs @ [m])) (set_prev (hd (vs @ [m])) (last (m # us)) ?l)) m (us @ vs) m"
    by (rule seg_unlink [where l = ?l and e = d and n = "next_of ?l d" and q = "prev_of ?l d"])
      (use r dst ne in \<open>auto simp: mem_ring_def ring_def ps fun_eq_iff simp del: last.simps\<close>)
  moreover have "live h (last (m # us))" "live h (hd (vs @ [m]))"
    using r mem by (auto simp: mem_ring_def ps simp del: last.simps)
  ultimately show ?thesis
    unfolding pn f using r dst by (auto simp: mem_ring_def ring_def ps simp del: last.simps)
qed

text \<open>Deleting pages none of which is the first node's.\<close>

lemma list_del_map_loop_ring:
  assumes "map_head b = Inr m" and "mem_ring h m ps" and "length ps < fuel"
    and "distinct (map (\<lambda>p. addr (desc h p)) (m # ps))" and "distinct (map (\<lambda>i. PAGE_ALIGN (a + i)) is)"
    and "\<forall>i \<in> set is. \<exists>p \<in> set ps. addr (desc h p) = PAGE_ALIGN (a + i)"
  shows "\<exists>h'. list_del_map_loop fuel b a is h = Inr (0, h') \<and> desc h' = desc h \<and>
    mem_ring h' m (filter (\<lambda>p. addr (desc h p) \<notin> (\<lambda>i. PAGE_ALIGN (a + i)) ` set is) ps)"
  using assms(2-)
proof (induction "is" arbitrary: h ps)
  case (Cons i "is")
  obtain d where d: "d \<in> set ps" "addr (desc h d) = PAGE_ALIGN (a + i)" using Cons.prems(5) by auto
  have inj: "inj_on (\<lambda>p. addr (desc h p)) (set (m # ps))" using Cons.prems(3) by (simp only: distinct_map)
  have uq: "p = d" if "p \<in> set (m # ps)" "addr (desc h p) = PAGE_ALIGN (a + i)" for p
    by (rule inj_onD [OF inj]) (use that d in simp_all)
  have "page_desc h (m # ps) (a + i) \<noteq> None" using d by (auto simp: page_desc_None)
  then obtain e where e: "page_desc h (m # ps) (a + i) = Some e" by blast
  then have "e = d" using uq page_desc_Some [OF e] by blast
  then have g: "get_mem_desc fuel b h (a + i) = Inr (Some d)"
    using get_mem_desc_ring [OF assms(1) Cons.prems(1,2)] e by simp
  define h1 where "h1 = h\<lparr>links := set_next (prev_of (links h) d) (next_of (links h) d)
        (set_prev (next_of (links h) d) (prev_of (links h) d) (links h)), live := (live h)(d := False)\<rparr>"
  note u = mem_ring_unlink [OF Cons.prems(1) d(1), folded h1_def]
  have step: "list_del_map_loop fuel b a (i # is) h = list_del_map_loop fuel b a is h1"
    using u by (simp add: g h1_def Let_def)
  have ds: "desc h1 = desc h" by (simp add: h1_def)
  have "\<exists>h'. list_del_map_loop fuel b a is h1 = Inr (0, h') \<and> desc h' = desc h1 \<and>
    mem_ring h' m (filter (\<lambda>p. addr (desc h1 p) \<notin> (\<lambda>i. PAGE_ALIGN (a + i)) ` set is) (filter (\<lambda>p. p \<noteq> d) ps))"
  proof (rule Cons.IH)
    show "mem_ring h1 m (filter (\<lambda>p. p \<noteq> d) ps)" using u by blast
    show "length (filter (\<lambda>p. p \<noteq> d) ps) < fuel" using Cons.prems(2) le_less_trans [OF length_filter_le] by blast
    show "distinct (map (\<lambda>p. addr (desc h1 p)) (m # filter (\<lambda>p. p \<noteq> d) ps))"
      using Cons.prems(3) by (auto simp: ds distinct_map_filter)
    show "distinct (map (\<lambda>i. PAGE_ALIGN (a + i)) is)" using Cons.prems(4) by simp
    show "\<forall>i \<in> set is. \<exists>p \<in> set (filter (\<lambda>p. p \<noteq> d) ps). addr (desc h1 p) = PAGE_ALIGN (a + i)"
      using Cons.prems(4,5) d(2) by (fastforce simp: ds image_iff)
  qed
  moreover have "filter (\<lambda>p. addr (desc h p) \<notin> (\<lambda>i. PAGE_ALIGN (a + i)) ` set is) (filter (\<lambda>p. p \<noteq> d) ps)
      = filter (\<lambda>p. addr (desc h p) \<notin> (\<lambda>i. PAGE_ALIGN (a + i)) ` set (i # is)) ps"
    using uq d(2) by (auto intro!: filter_cong)
  ultimately show ?case unfolding step by (simp add: ds)
qed simp

section \<open>Printing\<close>

text \<open>The pages a printed line stands for.\<close>

fun line_pages :: "map_line \<Rightarrow> (u64 \<times> i32) list" where
  "line_pages (a, e, sz, p) = map (\<lambda>k. (a + of_nat k * PAGE_SZ, p)) [0..<unat sz div 4096]"

definition node_page :: "mem_heap \<Rightarrow> ptr \<Rightarrow> u64 \<times> i32" where
  "node_page h p = (addr (desc h p), mprot (desc h p))"

definition joins :: "mem_heap \<Rightarrow> ptr \<Rightarrow> ptr \<Rightarrow> bool" where
  "joins h p q = (addr (desc h p) + msize (desc h p) = addr (desc h q) \<and> mprot (desc h p) = mprot (desc h q))"

lemma unat_pages: "j < 2 ^ 52 \<Longrightarrow> unat (of_nat j * 0x1000 :: u64) = j * 4096"
  using unat_of_nat_64 [of "j * 4096"] by simp

lemma one_page_iff:
  assumes "j < 2 ^ 52"
  shows "of_nat j * 0x1000 = (0x1000 :: u64) \<longleftrightarrow> j = 1"
proof
  assume eq: "of_nat j * 0x1000 = (0x1000 :: u64)"
  have "j * 4096 = unat (0x1000 :: u64)" using unat_pages [OF assms] by (simp only: eq)
  then show "j = 1" by simp
qed simp

text \<open>
  The pending line at a node \<open>q\<close> after \<open>j\<close> pages, the last of them the page of \<open>q\<close>, has start \<open>run_addr\<close> and protection \<open>run_prot\<close>: those of
  \<open>q\<close> itself when the line begins there.
\<close>

abbreviation run_addr :: "mem_heap \<Rightarrow> ptr \<Rightarrow> nat \<Rightarrow> u64 \<Rightarrow> u64" where
  "run_addr h q j ga \<equiv> (if j = 1 then addr (desc h q) else ga)"

abbreviation run_prot :: "mem_heap \<Rightarrow> ptr \<Rightarrow> nat \<Rightarrow> i32 \<Rightarrow> i32" where
  "run_prot h q j gp \<equiv> (if j = 1 then mprot (desc h q) else gp)"

lemma log_map_turn:
  assumes "next_of (links h) q = p" "live h q" "live h p" "msize (desc h q) = 0x1000" "j < 2 ^ 52"
    and gb: "gb = run_addr h q j ga" "gq = run_prot h q j gp"
  shows "log_map_loop (Suc f) m q ga gp (of_nat j * 0x1000) h =
    (let line = (if joins h q p then [] else [(gb, gb + of_nat j * 0x1000 - 1, of_nat j * 0x1000, gq)]) in
     if p = m then Inr line
     else (case log_map_loop f m p gb gq (if joins h q p then of_nat (Suc j) * 0x1000 else of_nat 1 * 0x1000) h of
             Inl e \<Rightarrow> Inl e | Inr ls \<Rightarrow> Inr (line @ ls)))"
proof -
  have "(if of_nat j * 0x1000 = (0x1000 :: u64) then (addr (desc h q), mprot (desc h q), msize (desc h q)) else (ga, gp, of_nat j * 0x1000))
      = (gb, gq, of_nat j * 0x1000 :: u64)"
    using assms(4) one_page_iff [OF assms(5)] by (simp add: gb)
  then show ?thesis
    using assms(1-4) unfolding log_map_loop.simps Let_def PAGE_SZ_def
    by (cases "joins h q p") (auto simp: joins_def algebra_simps)
qed

lemma run_pages:
  assumes "0 < j" "1 < j \<Longrightarrow> ga + of_nat (j - 1) * 0x1000 = addr (desc h q) \<and> gp = mprot (desc h q)"
  shows "map (\<lambda>k. (run_addr h q j ga + of_nat k * 0x1000, run_prot h q j gp)) [0..<j]
      = map (\<lambda>k. (ga + of_nat k * 0x1000, gp)) [0..<j - 1] @ [node_page h q]"
  using assms by (cases j) (auto simp: node_page_def)

lemma run_joins:
  assumes "0 < j" "1 < j \<Longrightarrow> ga + of_nat (j - 1) * 0x1000 = addr (desc h q) \<and> gp = mprot (desc h q)" "joins h q p" "msize (desc h q) = 0x1000"
  shows "run_addr h q j ga + of_nat j * 0x1000 = addr (desc h p) \<and> run_prot h q j gp = mprot (desc h p)"
proof -
  have "run_addr h q j ga + of_nat (j - 1) * 0x1000 = addr (desc h q)" "run_prot h q j gp = mprot (desc h q)" using assms(1,2) by auto
  moreover have "of_nat j * 0x1000 = of_nat (j - 1) * 0x1000 + (0x1000 :: u64)" using assms(1) by (cases j) (simp_all add: algebra_simps)
  ultimately show ?thesis using assms(3,4) by (simp add: joins_def add.assoc [symmetric])
qed

lemma log_map_seg:
  assumes "seg (links h) q ps m" and "m \<notin> set ps" and "\<forall>p \<in> set (m # q # ps). live h p \<and> msize (desc h p) = 0x1000"
    and "length ps < fuel" and "0 < j" and "j + length ps < 2 ^ 52" and "\<not> joins h (last (q # ps)) m"
    and "1 < j \<Longrightarrow> ga + of_nat (j - 1) * 0x1000 = addr (desc h q) \<and> gp = mprot (desc h q)"
  shows "\<exists>ls. log_map_loop fuel m q ga gp (of_nat j * 0x1000) h = Inr ls \<and>
    concat (map line_pages ls) = map (\<lambda>k. (ga + of_nat k * 0x1000, gp)) [0..<j - 1] @ map (node_page h) (q # ps)"
  using assms
proof (induction ps arbitrary: q fuel j ga gp)
  case (Nil q fuel j ga gp)
  obtain f where f: "fuel = Suc f" using Nil.prems(4) by (cases fuel) auto
  have "log_map_loop (Suc f) m q ga gp (of_nat j * 0x1000) h
      = Inr [(run_addr h q j ga, run_addr h q j ga + of_nat j * 0x1000 - 1, of_nat j * 0x1000, run_prot h q j gp)]"
    by (subst log_map_turn [OF _ _ _ _ _ refl refl, where p = m]) (use Nil.prems in simp_all)
  then show ?case using run_pages [OF Nil.prems(5,8)] unat_pages [of j] Nil.prems(6) by (simp add: f)
next
  case (Cons p ps q fuel j ga gp)
  define gb gq where g: "gb = run_addr h q j ga" "gq = run_prot h q j gp"
  define line where "line = (if joins h q p then [] else [(gb, gb + of_nat j * 0x1000 - 1, of_nat j * 0x1000 :: u64, gq)])"
  define j' where "j' = (if joins h q p then Suc j else 1)"
  obtain f where f: "fuel = Suc f" using Cons.prems(4) by (cases fuel) auto
  have nx: "next_of (links h) q = p" "live h q" "live h p" "msize (desc h q) = 0x1000" "j < 2 ^ 52" "p \<noteq> m"
    using Cons.prems by auto
  have "\<exists>ls. log_map_loop f m p gb gq (of_nat j' * 0x1000) h = Inr ls \<and>
      concat (map line_pages ls) = map (\<lambda>k. (gb + of_nat k * 0x1000, gq)) [0..<j' - 1] @ map (node_page h) (p # ps)"
  proof (rule Cons.IH)
    show "gb + of_nat (j' - 1) * 0x1000 = addr (desc h p) \<and> gq = mprot (desc h p)" if "1 < j'"
      using run_joins [OF Cons.prems(5,8) _ nx(4)] that unfolding j'_def g by (auto split: if_splits)
  qed (use Cons.prems in \<open>auto simp: f j'_def\<close>)
  then obtain ls where ls: "log_map_loop f m p gb gq (of_nat j' * 0x1000) h = Inr ls"
    "concat (map line_pages ls) = map (\<lambda>k. (gb + of_nat k * 0x1000, gq)) [0..<j' - 1] @ map (node_page h) (p # ps)" by blast
  have "log_map_loop (Suc f) m q ga gp (of_nat j * 0x1000) h = Inr (line @ ls)"
    unfolding log_map_turn [OF nx(1-5) g] using nx(6) ls(1) by (simp add: line_def j'_def split: if_splits)
  moreover have "concat (map line_pages (line @ ls)) = map (\<lambda>k. (gb + of_nat k * 0x1000, gq)) [0..<j] @ map (node_page h) (p # ps)"
    using ls(2) unat_pages [OF nx(5)] by (simp add: line_def j'_def)
  ultimately show ?case using run_pages [OF Cons.prems(5,8)] by (simp add: f g)
qed

section \<open>Properties\<close>

lemma distinct_pages:
  assumes "a mod PAGE_SZ = 0"
  shows "distinct (map (\<lambda>i. PAGE_ALIGN (a + i)) (page_offsets sz))"
proof -
  have al: "PAGE_OFFT a = 0" using assms by (simp add: PAGE_OFFT_eq_take_bit take_bit_eq_mod)
  have "inj_on (\<lambda>k. PAGE_ALIGN (a + of_nat k * 0x1000)) {0..<unat sz div 4096}"
  proof (rule inj_onI)
    fix j k assume jk: "j \<in> {0..<unat sz div 4096}" "k \<in> {0..<unat sz div 4096}"
      and "PAGE_ALIGN (a + of_nat j * 0x1000) = PAGE_ALIGN (a + of_nat k * 0x1000)"
    then have e: "unat (PAGE_ALIGN (of_nat j * 0x1000)) = unat (PAGE_ALIGN (of_nat k * 0x1000))"
      by (simp add: PAGE_ALIGN_add_aligned [OF al])
    have "j < 2 ^ 52" "k < 2 ^ 52" using jk unat_less_64 [of sz] by auto
    then show "j = k" using e by (simp add: unat_PAGE_ALIGN unat_pages)
  qed
  then show ?thesis by (simp add: page_offsets_def distinct_map comp_def)
qed

text \<open>A list of three pages, at nodes 1, 2 and 3, and the descriptor of a binary that owns it.\<close>

definition demo_heap :: mem_heap where
  "demo_heap = \<lparr>links = \<lparr>next_of = (\<lambda>_. 0)(1 := 2, 2 := 3, 3 := 1, 4 := 4), prev_of = (\<lambda>_. 0)(1 := 3, 2 := 1, 3 := 2, 4 := 4)\<rparr>,
     desc = (\<lambda>p. \<lparr>addr = of_nat p * 0x1000, msize = 0x1000, mprot = (if p = 3 then 5 else 1), sync = False\<rparr>),
     live = (\<lambda>p. p \<in> {1, 2, 3, 4})\<rparr>"

definition demo_binary :: mdata_binary_t where
  "demo_binary = (s_binary zero_mach)\<lparr>memory_map := 1,
     interp := Some \<lparr>i_pie = True, i_base = 0, i_entry = 0, i_memory_map = 4\<rparr>\<rparr>"

lemma demo_ring: "map_head demo_binary = Inr 1" "mem_ring demo_heap 1 [2, 3]" "mem_ring demo_heap 4 []"
  by (simp_all add: demo_binary_def map_head_def mem_ring_def ring_def demo_heap_def)

text \<open>
  C36: on a well-formed list the search of \<^verbatim>\<open>get_mem_desc\<close> ends without a fault, and the queries built on it
  answer from the first descriptor of the page: \<^verbatim>\<open>prot\<close> gives its protection and \<open>-1\<close> for a page without
  descriptor, \<^verbatim>\<open>is_w\<close>, \<^verbatim>\<open>is_r\<close>, \<^verbatim>\<open>is_x\<close> are non-zero exactly when the bit is set, \<^verbatim>\<open>is_ro\<close> says that the
  protection is read-only; \<^verbatim>\<open>is_rwx\<close> and \<^verbatim>\<open>is_rx\<close> say the same of every page, that it is readable or executable.
\<close>

theorem page_queries:
  assumes "map_head b = Inr m" and "mem_ring h m ps" and "length ps < fuel"
    and "d = page_desc h (m # ps) a" and "P = (\<lambda>q. \<exists>p. d = Some p \<and> q (mprot (desc h p)))"
  shows "get_mem_desc fuel b h a = Inr d \<and>
    prot fuel b h a = Inr (case d of None \<Rightarrow> -1 | Some p \<Rightarrow> mprot (desc h p)) \<and>
    (\<exists>w. is_w fuel a b h = Inr w \<and> (w \<noteq> 0 \<longleftrightarrow> P (\<lambda>x. bit x 1))) \<and>
    (\<exists>r. is_r fuel a b h = Inr r \<and> (r \<noteq> 0 \<longleftrightarrow> P (\<lambda>x. bit x 0))) \<and>
    (\<exists>x. is_x fuel a b h = Inr x \<and> (x \<noteq> 0 \<longleftrightarrow> P (\<lambda>x. bit x 2))) \<and>
    is_ro fuel a b h = Inr (P (\<lambda>x. x = PROT_READ)) \<and>
    is_rx fuel a b h = Inr (P (\<lambda>x. bit x 0 \<or> bit x 2)) \<and> is_rwx fuel a b h = is_rx fuel a b h"
proof -
  have b: "x AND 2 \<noteq> 0 \<longleftrightarrow> bit x 1" "x AND 1 \<noteq> 0 \<longleftrightarrow> bit x 0" "x AND 4 \<noteq> 0 \<longleftrightarrow> bit x 2"
    "x AND 5 \<noteq> 0 \<longleftrightarrow> bit x 0 \<or> bit x 2" for x :: i32
  proof -
    show b2: "x AND 2 \<noteq> 0 \<longleftrightarrow> bit x 1" using and_exp_eq_0_iff_not_bit [of x 1] by simp
    show b0: "x AND 1 \<noteq> 0 \<longleftrightarrow> bit x 0" using and_exp_eq_0_iff_not_bit [of x 0] by simp
    show b4: "x AND 4 \<noteq> 0 \<longleftrightarrow> bit x 2" using and_exp_eq_0_iff_not_bit [of x 2] by simp
    have "x AND 5 = (x AND 4) OR (x AND 1)" by (simp flip: bit.conj_disj_distrib)
    then show "x AND 5 \<noteq> 0 \<longleftrightarrow> bit x 0 \<or> bit x 2" using b0 b4 by (auto simp: or_eq_0_iff)
  qed
  note g = get_mem_desc_ring [OF assms(1-3)]
  show ?thesis
    by (cases d) (use b in \<open>simp_all add: g assms(4,5) prot_ring [OF assms(1-3)] is_w_def is_r_def is_x_def is_ro_def
        is_rx_def is_rwx_def with_desc_def\<close>)
qed

lemma page_queries_witness:
  "prot 5 demo_binary demo_heap 0x3abc = Inr 5 \<and> is_rwx 5 0x3abc demo_binary demo_heap = Inr True \<and>
   get_mem_desc 5 demo_binary demo_heap 0x9000 = Inr None"
proof -
  have "page_desc demo_heap [1, 2, 3] 0x3abc = Some 3" "page_desc demo_heap [1, 2, 3] 0x9000 = None"
    by (simp_all add: page_desc_def demo_heap_def PAGE_ALIGN_def)
  moreover have "mprot (desc demo_heap 3) = 5" by (simp add: demo_heap_def)
  moreover note page_queries [OF demo_ring(1,2) _ refl refl, of 5]
  ultimately show ?thesis by (auto simp: bit_numeral_rec)
qed

text \<open>
  C37: \<^verbatim>\<open>update_vprot\<close> on an aligned range returns 0 exactly when every page of the range has a descriptor and \<open>-1\<close>
  otherwise; after success \<^verbatim>\<open>prot\<close> gives the new protection in the range and what it gave before elsewhere,
  and the list keeps its nodes.  A range that is not aligned is refused and nothing changes.
\<close>

theorem update_vprot_sets:
  assumes "map_head b = Inr m" and "mem_ring h m ps" and "length ps < fuel"
    and "mapped = (\<forall>x. unat (x - a) < unat sz \<longrightarrow> get_mem_desc fuel b h x \<noteq> Inr None)"
  shows "(sz mod PAGE_SZ \<noteq> 0 \<or> a mod PAGE_SZ \<noteq> 0 \<longrightarrow> update_vprot fuel b a sz np h = Inr (-1, h)) \<and>
    (sz mod PAGE_SZ = 0 \<and> a mod PAGE_SZ = 0 \<longrightarrow>
      (\<exists>h'. update_vprot fuel b a sz np h = Inr (if mapped then 0 else -1, h') \<and> mem_ring h' m ps \<and>
        (mapped \<longrightarrow> (\<forall>x. prot fuel b h' x = (if unat (x - a) < unat sz then Inr np else prot fuel b h x)))))"
proof -
  { assume al: "sz mod PAGE_SZ = 0" "a mod PAGE_SZ = 0"
    note g = get_mem_desc_ring [OF assms(1-3)]
    note off = page_offsets_range [OF al]
    obtain h' where h': "update_vprot_loop fuel b a np (page_offsets sz) h =
        Inr (if \<forall>i \<in> set (page_offsets sz). page_desc h (m # ps) (a + i) \<noteq> None then 0 else -1, h')"
      "mem_ring h' m ps" "page_desc h' (m # ps) = page_desc h (m # ps)"
      "(\<forall>i \<in> set (page_offsets sz). page_desc h (m # ps) (a + i) \<noteq> None) \<longrightarrow> (\<forall>x. prot_at h' (m # ps) x =
        (if \<exists>i \<in> set (page_offsets sz). PAGE_ALIGN x = PAGE_ALIGN (a + i) then Some np else prot_at h (m # ps) x))"
      using update_vprot_loop_ring [OF assms(1-3), of a np "page_offsets sz"] by blast
    have mp: "(\<forall>i \<in> set (page_offsets sz). page_desc h (m # ps) (a + i) \<noteq> None) \<longleftrightarrow> mapped"
    proof -
      have "(\<forall>i \<in> set (page_offsets sz). page_desc h (m # ps) (a + i) \<noteq> None) \<longleftrightarrow>
        (\<forall>x. (\<exists>i \<in> set (page_offsets sz). PAGE_ALIGN x = PAGE_ALIGN (a + i)) \<longrightarrow> page_desc h (m # ps) x \<noteq> None)"
        using page_desc_cong by metis
      then show ?thesis by (simp add: off assms(4) g)
    qed
    have pr: "prot fuel b k x = Inr (case prot_at k (m # ps) x of None \<Rightarrow> -1 | Some p \<Rightarrow> p)" if "mem_ring k m ps" for k x
      by (simp add: prot_ring [OF assms(1) that assms(3)] prot_at_def split: option.split)
    have "\<exists>h'. update_vprot fuel b a sz np h = Inr (if mapped then 0 else -1, h') \<and> mem_ring h' m ps \<and>
        (mapped \<longrightarrow> (\<forall>x. prot fuel b h' x = (if unat (x - a) < unat sz then Inr np else prot fuel b h x)))"
      using h' [unfolded mp off] al
      by (intro exI [of _ h']) (simp add: update_vprot_def pr [OF h'(2)] pr [OF assms(2)]) }
  then show ?thesis by (simp add: update_vprot_def)
qed

lemma update_vprot_sets_witness:
  "\<exists>h'. update_vprot 5 demo_binary 0x2000 0x2000 7 demo_heap = Inr (0, h') \<and>
     prot 5 demo_binary h' 0x3008 = Inr 7 \<and> prot 5 demo_binary h' 0x1000 = Inr 1"
proof -
  have m: "\<forall>x. unat (x - 0x2000) < unat (0x2000 :: u64) \<longrightarrow> get_mem_desc 5 demo_binary demo_heap x \<noteq> Inr None"
  proof (intro allI impI)
    fix x :: u64 assume "unat (x - 0x2000) < unat (0x2000 :: u64)"
    then obtain i where i: "i \<in> set (page_offsets 0x2000)" "PAGE_ALIGN x = PAGE_ALIGN (0x2000 + i)"
      using page_offsets_range [of "0x2000" "0x2000" x] by auto
    then have "PAGE_ALIGN x = 0x2000 \<or> PAGE_ALIGN x = 0x3000"
      by (auto simp: page_offsets_def upt_conv_Cons PAGE_ALIGN_def)
    then show "get_mem_desc 5 demo_binary demo_heap x \<noteq> Inr None"
      unfolding get_mem_desc_ring [OF demo_ring(1,2), of 5, simplified] by (auto simp: page_desc_None demo_heap_def)
  qed
  have "prot 5 demo_binary demo_heap 0x1000 = Inr 1"
    unfolding prot_ring [OF demo_ring(1,2), of 5, simplified] by (simp add: page_desc_def demo_heap_def PAGE_ALIGN_def)
  then show ?thesis
    using update_vprot_sets [OF demo_ring(1,2) _ refl, of 5 "0x2000" "0x2000" 7] m by auto
qed

text \<open>
  C38: \<^verbatim>\<open>merge_address_space\<close> makes one list of the pages of the binary followed by those of its linker: iterating
  from \<^verbatim>\<open>memory_map\<close> visits all nodes of both, and \<^verbatim>\<open>free_memory_map\<close> on the result ends and frees exactly these nodes.
\<close>

theorem merge_then_free:
  assumes "mem_ring h m ps" and "mem_ring h n qs" and "set (m # ps) \<inter> set (n # qs) = {}"
    and "memory_map b = m" "interp b = Some i" "i_memory_map i = n" and "length ps + length qs + 1 < fuel"
  shows "\<exists>h'. merge_address_space b h = Inr (m, h') \<and> mem_ring h' m (ps @ n # qs) \<and> desc h' = desc h \<and>
    free_memory_map fuel m h' = Inr (0, h'\<lparr>live := \<lambda>p. live h p \<and> p \<notin> set (m # ps @ n # qs)\<rparr>)"
proof -
  obtain l' where e: "merge_address_space b h = Inr (m, h\<lparr>links := l'\<rparr>)" and r: "ring l' m (ps @ n # qs)"
    using merge_ring [OF assms(1-6)] by blast
  have "mem_ring (h\<lparr>links := l'\<rparr>) m (ps @ n # qs)"
    using r assms(1,2) by (auto simp: mem_ring_def)
  moreover have "free_memory_map fuel m (h\<lparr>links := l'\<rparr>) =
      Inr (0, (h\<lparr>links := l'\<rparr>)\<lparr>live := \<lambda>p. live (h\<lparr>links := l'\<rparr>) p \<and> p \<notin> set (m # ps @ n # qs)\<rparr>)"
    unfolding free_memory_map_def using r assms(1,2,7)
    by (subst free_seg [where ps = "ps @ n # qs"]) (auto simp: ring_def mem_ring_def)
  ultimately show ?thesis using e by (intro exI [of _ "h\<lparr>links := l'\<rparr>"]) simp
qed

lemma merge_then_free_witness:
  "\<exists>h'. merge_address_space demo_binary demo_heap = Inr (1, h') \<and> mem_ring h' 1 [2, 3, 4]"
  using merge_then_free [OF demo_ring(2,3), of demo_binary "\<lparr>i_pie = True, i_base = 0, i_entry = 0, i_memory_map = 4\<rparr>" 9]
  by (auto simp: demo_binary_def)

text \<open>
  C39: \<^verbatim>\<open>list_del_map\<close> of an aligned range whose pages all have a descriptor, none of them the first of the list,
  removes the descriptors of the range and no other; but when the page of the first node is deleted,
  \<^verbatim>\<open>memory_map\<close> keeps pointing to the freed node and every later search is a use after free.
\<close>

theorem list_del_map_removes:
  assumes "map_head b = Inr m" and "mem_ring h m ps" and "length ps < fuel"
    and "distinct (map (\<lambda>p. addr (desc h p)) (m # ps))" and "\<forall>p \<in> set (m # ps). PAGE_ALIGN (addr (desc h p)) = addr (desc h p)"
    and "sz mod 0x1000 = 0" and "a mod PAGE_SZ = 0"
  shows "((\<forall>x. unat (x - a) < unat sz \<longrightarrow> PAGE_ALIGN x \<in> (\<lambda>p. addr (desc h p)) ` set ps) \<longrightarrow>
      (\<exists>h'. list_del_map fuel b a sz h = Inr (0, h') \<and> desc h' = desc h \<and>
         mem_ring h' m (filter (\<lambda>p. \<not> unat (addr (desc h p) - a) < unat sz) ps))) \<and>
    (sz = 0x1000 \<and> addr (desc h m) = a \<longrightarrow>
      (\<exists>h'. list_del_map fuel b a sz h = Inr (0, h') \<and> (\<forall>x. get_mem_desc fuel b h' x = Inl Segfault)))"
proof (intro conjI impI)
  have "unat sz < 2 ^ 32" using unsigned_less [of sz, where ?'a = nat] by simp
  then have usz: "unat (ucast sz :: u64) = unat sz" by (simp add: unsigned_ucast_eq take_bit_nat_eq_self)
  have "unat (sz mod 0x1000) = 0" using assms(6) by simp
  then have "unat sz mod 4096 = 0" by (simp only: unat_mod) simp
  then have "unat ((ucast sz :: u64) mod 0x1000) = 0" by (simp only: unat_mod usz) simp
  then have szm: "(ucast sz :: u64) mod PAGE_SZ = 0" by (simp add: unat_eq_0)
  note off = page_offsets_range [OF szm assms(7), unfolded usz]
  assume mp: "\<forall>x. unat (x - a) < unat sz \<longrightarrow> PAGE_ALIGN x \<in> (\<lambda>p. addr (desc h p)) ` set ps"
  have mapd: "\<forall>i \<in> set (page_offsets (ucast sz)). \<exists>p \<in> set ps. addr (desc h p) = PAGE_ALIGN (a + i)"
    using mp off by (fastforce simp: image_iff)
  have "\<exists>h'. list_del_map_loop fuel b a (page_offsets (ucast sz)) h = Inr (0, h') \<and> desc h' = desc h \<and>
    mem_ring h' m (filter (\<lambda>p. addr (desc h p) \<notin> (\<lambda>i. PAGE_ALIGN (a + i)) ` set (page_offsets (ucast sz))) ps)"
    using list_del_map_loop_ring [OF assms(1-4) _ mapd] distinct_pages [OF assms(7)] by blast
  moreover have "filter (\<lambda>p. addr (desc h p) \<notin> (\<lambda>i. PAGE_ALIGN (a + i)) ` set (page_offsets (ucast sz))) ps
      = filter (\<lambda>p. \<not> unat (addr (desc h p) - a) < unat sz) ps"
    using assms(5) by (intro filter_cong) (auto simp: off [symmetric] image_iff)
  ultimately show "\<exists>h'. list_del_map fuel b a sz h = Inr (0, h') \<and> desc h' = desc h \<and>
         mem_ring h' m (filter (\<lambda>p. \<not> unat (addr (desc h p) - a) < unat sz) ps)"
    using assms(6,7) by (simp add: list_del_map_def)
next
  assume sz: "sz = 0x1000 \<and> addr (desc h m) = a"
  have "page_desc h (m # ps) (a + 0) = Some m" using sz assms(5) by (simp add: page_desc_def)
  then have g: "get_mem_desc fuel b h a = Inr (Some m)" using get_mem_desc_ring [OF assms(1-3), of a] by simp
  have "live h (next_of (links h) m)" "live h (prev_of (links h) m)"
    using assms(2) ring_next [of "links h" m ps] ring_prev [of "links h" m ps] last_in_set [of "m # ps"]
    by (cases ps; auto simp: mem_ring_def)+
  moreover have "page_offsets 0x1000 = [0]" by (simp add: page_offsets_def)
  moreover obtain f where "fuel = Suc f" using assms(3) by (cases fuel) auto
  ultimately show "\<exists>h'. list_del_map fuel b a sz h = Inr (0, h') \<and> (\<forall>x. get_mem_desc fuel b h' x = Inl Segfault)"
    using sz assms(1,2,7) g by (auto simp: list_del_map_def get_mem_desc_def mem_ring_def Let_def)
qed

lemma list_del_map_removes_witness:
  "(\<exists>h'. list_del_map 5 demo_binary 0x2000 0x1000 demo_heap = Inr (0, h') \<and> mem_ring h' 1 [3]) \<and>
   (\<exists>h'. list_del_map 5 demo_binary 0x1000 0x1000 demo_heap = Inr (0, h') \<and> get_mem_desc 5 demo_binary h' 0x2000 = Inl Segfault)"
proof -
  have pre: "distinct (map (\<lambda>p. addr (desc demo_heap p)) [1, 2, 3])"
    "\<forall>p \<in> set [1, 2, 3]. PAGE_ALIGN (addr (desc demo_heap p)) = addr (desc demo_heap p)"
    by (simp_all add: demo_heap_def PAGE_ALIGN_def)
  note del = list_del_map_removes [OF demo_ring(1,2) _ pre, of 5 "0x1000"]
  have "PAGE_ALIGN x \<in> (\<lambda>p. addr (desc demo_heap p)) ` set [2, 3]" if "unat (x - 0x2000) < unat (0x1000 :: u32)" for x
  proof -
    have "PAGE_ALIGN (0x2000 + (x - 0x2000)) = 0x2000"
      using that same_page_iff [of "0x2000" "x - 0x2000"] by (simp add: PAGE_OFFT_def)
    then show ?thesis by (simp add: demo_heap_def)
  qed
  moreover have "filter (\<lambda>p. \<not> unat (addr (desc demo_heap p) - 0x2000) < unat (0x1000 :: u32)) [2, 3] = [3]"
    by (simp add: demo_heap_def)
  moreover have "addr (desc demo_heap 1) = 0x1000" by (simp add: demo_heap_def)
  ultimately show ?thesis
    using del [of "0x2000"] del [of "0x1000"] by auto
qed

text \<open>
  \<^verbatim>\<open>log_map\<close> prints the address space: each line stands for a run of pages, and the runs together are exactly the
  pages of the list with their protections, in its order, when every descriptor is of one page and the last
  page does not continue into the first.
\<close>

lemma log_map_prints_pages:
  assumes "mem_ring h m ps" and "\<forall>p \<in> set (m # ps). msize (desc h p) = PAGE_SZ"
    and "\<not> joins h (last (m # ps)) m" and "length ps < fuel" and "length ps < 2 ^ 51"
  shows "\<exists>ls. log_map fuel m h = Inr ls \<and> concat (map line_pages ls) = map (node_page h) (m # ps)"
proof -
  have "\<exists>ls. log_map_loop fuel m m (addr (desc h m)) (mprot (desc h m)) (of_nat 1 * 0x1000) h = Inr ls \<and>
    concat (map line_pages ls) = map (\<lambda>k. (addr (desc h m) + of_nat k * 0x1000, mprot (desc h m))) [0..<1 - 1] @ map (node_page h) (m # ps)"
    by (rule log_map_seg) (use assms in \<open>auto simp: mem_ring_def ring_def\<close>)
  then show ?thesis using assms(1,2) by (simp add: log_map_def mem_ring_def)
qed

lemma log_map_prints_pages_witness:
  "\<exists>ls. log_map 5 1 demo_heap = Inr ls \<and> concat (map line_pages ls) = [(0x1000, 1), (0x2000, 1), (0x3000, 5)]"
  using log_map_prints_pages [OF demo_ring(2), of 5] by (simp add: demo_heap_def joins_def node_page_def)

end
