(* ===== verification/Spec2Isabelle.thy ===== *)
theory Spec2Isabelle
  imports Whole_Run Progress Refusals Mem_Map
begin

text \<open>
  Dryadalis is a dynamic binary instrumentation engine for x86-64 Linux.  It loads an ELF program into its own
  address space and runs it block by block: a \<^emph>\<open>restore hook\<close> is written in front of a basic block and a \<^emph>\<open>dump hook\<close> over
  the control-flow instruction that ends it.  The dump hook saves the processor state and enters the
  dispatcher on a host stack; the dispatcher calls the user's callback, writes the covered bytes back, emulates the
  control-flow instruction on the saved state, frames the block it leads to and returns to the guest through
  the restore stub.

  \<^bold>\<open>Theories and sources.\<close>  Names under \<^verbatim>\<open>src/\<close> are those of the repository.

    \<^item> \<open>Dry_Prelude\<close>: words, bytes of memory, little-endian encoding, buffers, and the runs \<open>bindR\<close>, \<open>retR\<close>, \<open>haltR\<close> in which all
      state-changing code is written.  \<open>Dry_Types\<close>: the records of \<^verbatim>\<open>include/dryadalis_x86.h\<close>, the process \<open>mach\<close>, and the kernel as
      a function from the calls made so far, the call and memory to a reply.
    \<^item> \<open>State_Runt\<close> (\<^verbatim>\<open>src/state_runt.c\<close>): the map from register names to members of the saved state, \<^verbatim>\<open>read_reg\<close>, \<^verbatim>\<open>update_reg\<close>, the
      register dump.  Reads agree with the architectural value of all aliases; a write is seen through every alias.
    \<^item> \<open>Engine_Base\<close> (\<^verbatim>\<open>src/engine.c\<close>): segment bases, control word, end of the process.
    \<^item> \<open>Guest_Memory\<close> (\<^verbatim>\<open>src/memory.c\<close>): page-wise reads and writes with their protection changes.  The locale of a byte
      memory is interpreted on \<^verbatim>\<open>mem_read\<close> and \<^verbatim>\<open>mem_write\<close>; its laws carry the proofs on hooks.  What happens on refused pages is shown too.
    \<^item> \<open>Syscall_Hook\<close> (\<^verbatim>\<open>src/syscall_hook.c\<close>): all handlers and the table; which arguments reach the kernel, what the guest gets
      back, how the break moves.
    \<^item> \<open>Analysis\<close> (\<^verbatim>\<open>src/analysis.c\<close>): the sweep for the end of a block, shown to find the first control-flow instruction
      of the specification \<open>cflow_at\<close>, and the emulation of branches, calls, returns and system calls.
    \<^item> \<open>Engine\<close> (\<^verbatim>\<open>src/engine.c\<close>): hooks and dispatcher.  \<open>patched m s\<close> says that memory is the image \<open>m\<close> under the two hooks and
      each keeps what it covers; a turn of the dispatcher leads from one such state to the next.  \<open>guest_step\<close> specifies
      the guest alone in its memory; the locale \<open>forward_simulation\<close>, interpreted on \<open>engine_step\<close>, gives that every run of the engine is a
      run of the guest with the same events.
    \<^item> \<open>Stubs\<close> (\<^verbatim>\<open>src/engine.c\<close>): the generated assembler code as instruction lists with a meaning on a processor: a dump
      captures, a restore loads, and a dump followed by a restore is the identity on what user code sees.
    \<^item> \<open>Kernel_List\<close> (\<^verbatim>\<open>include/kernel_list.h\<close>) and \<open>Mem_Map\<close> (\<^verbatim>\<open>src/core_mapper.c\<close>): linked lists as the sequences that iteration
      visits, and the page descriptors kept in one.
    \<^item> \<open>Elf_Parsing\<close> (\<^verbatim>\<open>src/elf_parsing.c\<close>): headers, searches, building and releasing the descriptor.  A writer \<open>elf_image\<close> of ELF
      files gives the round trip and the files of the loader's theorems.
    \<^item> \<open>Guest_Stack\<close>, \<open>Core_Mapper\<close> (\<^verbatim>\<open>src/core_mapper.c\<close>): the initial stack and the loader.  After a load every segment is in memory
      as its header says.
    \<^item> \<open>Dynamic_Load\<close> (\<^verbatim>\<open>load_interp\<close>, \<^verbatim>\<open>map_binary\<close>): a program together with its dynamic linker.
    \<^item> \<open>Startup\<close> (\<^verbatim>\<open>src/main.c\<close>, \<^verbatim>\<open>instrument\<close>, \<^verbatim>\<open>exec_binary\<close>): how a run begins; its theorem establishes \<open>patched\<close> for the first block.
    \<^item> \<open>Whole_Run\<close>: all components composed.  From \<^verbatim>\<open>main\<close> on, the program is loaded, its stack built, the first block framed and entered,
      and what follows is a run of the guest alone.  \<open>Progress\<close>: the engine never stops a guest that goes on; infinite runs by
      coinduction.  \<open>Memory_Safety\<close>: no copy of a turn of the dispatcher leaves its buffer, whatever the kernel and the disassembler answer, by the
      postconditions \<open>within\<close>.  \<open>Refusals\<close>: a kernel that refuses changes of protection.  Reads come back short, and the dispatcher is fail-stop: it ends
      the process or has done its whole work; a kernel that is not \<open>steady\<close> is shown to break this, because short reads are not noticed.

  \<^bold>\<open>Conventions.\<close>  Machine integers keep their width.  A function that can end the process, fail an assertion, leave a
  buffer or not return gives a value of type \<open>run\<close>: \<open>Inl\<close> the reason and the state, \<open>Inr\<close> the value and the
  state.  A result \<open>-1\<close> of pointer type is \<open>None\<close> or \<open>False\<close> where the source only compares it.

  \<^bold>\<open>Parameters.\<close>  Code outside of the repository is an argument: the kernel (\<open>K\<close>), the disassembler capstone (\<open>dis\<close>), the assembler
  keystone (\<open>asm\<close>), the host's files and features (\<open>E\<close>).  What is used of them is stated by \<open>grants\<close>, \<open>steady\<close> (each page is always
  granted or always refused), \<open>ready\<close> (the pages of a range are granted), \<open>seg_ok\<close>, \<open>loads\<close>,
  \<open>maps_anon\<close>, \<open>anon_reply\<close> and \<open>munmap_works\<close> (documented behaviour of the system calls) and \<open>disasm_ok\<close> (an instruction has 1 to 15
  bytes, which decide its length and groups); every theorem under such a hypothesis has a witness with a concrete function.

  \<^bold>\<open>Fuel.\<close>  \<^verbatim>\<open>opcodes_cflow\<close> takes the depth of its recursion over pages and is shown to return when the depth exceeds
  the distance of the next control-flow instruction.  Loops over page descriptors need fuel above the length of the list, loops over
  the argument block fuel above its length.  \<^verbatim>\<open>map_binary\<close> takes the depth of the chain of interpreters: depth 1 is enough
  for a program without one, depth 2 for a program whose interpreter has none, and no depth is enough for a file that names itself.  All other loops are recursions on lists of
  known length.

  \<^bold>\<open>Not modelled.\<close>  The structures of the host (\<^verbatim>\<open>s_binary\<close> and what it points to, the C stack) lie outside of the guest's memory, so the
  guest cannot change them, and the memory of the engine's own stack below the words that the stubs push is not described.  A
  guest step is any change of memory outside of the two hooks.  Log output except the register dump and the page map,
  \<^verbatim>\<open>errno\<close>, and the failure of small allocations are left out.  The kernel module behind \<^verbatim>\<open>umaps_request_t\<close> is not in the repository and its
  calls are commented out (\<^verbatim>\<open>is_mapped\<close> always answers true, \<^verbatim>\<open>get_prot\<close> always RWX); \<^verbatim>\<open>instrument_persistent\<close> and \<^verbatim>\<open>list_add_map\<close> are commented
  out as well.  Threads and signals do not appear in the source.  The file \<^verbatim>\<open>src/main\<close> is a compiled program and
  \<^verbatim>\<open>src/plugin.py\<close> a debugger command.
\<close>

end
